(* ===== verification/Prelude.thy ===== *)
theory Prelude
  imports Main "HOL-Library.Word" "HOL-Library.Char_ord" "HOL-Library.List_Lexorder"
begin

text \<open>
  What every component shares: the error values and the computations that carry them with the
  state, the C character and string functions the sources call, and decimal output.
\<close>

section \<open>Machine integers\<close>

type_synonym u32 = "32 word"
type_synonym i32 = "32 word" \<comment> \<open>read with \<open>sint\<close>\<close>
type_synonym u64 = "64 word"

section \<open>Errors and stateful computations\<close>

text \<open>
  A C++ call ends normally, by an exception derived from \<open>std::exception\<close> (with its
  \<open>what()\<close>), or in behaviour the language does not define. Only the second kind can be caught.
\<close>

datatype undefined_behaviour =
    Null_Dereference        \<comment> \<open>a null \<open>shared_ptr\<close> is dereferenced\<close>
  | Indeterminate_Value     \<comment> \<open>an uninitialised buffer or struct is read\<close>
  | Stack_Overflow          \<comment> \<open>a recursion that never ends\<close>
  | Dangling_Access         \<comment> \<open>an iterator is used whose element was erased\<close>

datatype error =
    Std_Exception (what: string)
  | Undefined undefined_behaviour

type_synonym ('s, 'a) comp = "'s \<Rightarrow> (error + 'a) \<times> 's"

definition return :: "'a \<Rightarrow> ('s, 'a) comp" where
  "return x = (\<lambda>s. (Inr x, s))"

definition throw :: "error \<Rightarrow> ('s, 'a) comp" where
  "throw e = (\<lambda>s. (Inl e, s))"

definition bind_comp :: "('s, 'a) comp \<Rightarrow> ('a \<Rightarrow> ('s, 'b) comp) \<Rightarrow> ('s, 'b) comp" where
  "bind_comp m f =
     (\<lambda>s. case m s of (Inl e, s') \<Rightarrow> (Inl e, s') | (Inr x, s') \<Rightarrow> f x s')"

definition modify :: "('s \<Rightarrow> 's) \<Rightarrow> ('s, unit) comp" where
  "modify f = (\<lambda>s. (Inr (), f s))"

definition lift_sum :: "error + 'a \<Rightarrow> ('s, 'a) comp" where
  "lift_sum r = (\<lambda>s. (r, s))"

text \<open>\<open>try { m } catch (std::exception &e) { h(e) }\<close>: undefined behaviour is not caught.\<close>

definition catch_std :: "('s, 'a) comp \<Rightarrow> (string \<Rightarrow> ('s, 'a) comp) \<Rightarrow> ('s, 'a) comp" where
  "catch_std m h =
     (\<lambda>s. case m s of
        (Inl (Std_Exception w), s') \<Rightarrow> h w s'
      | r \<Rightarrow> r)"

text \<open>A range-based \<open>for\<close> over a list: the first error leaves the loop.\<close>

fun for_each :: "'a list \<Rightarrow> ('a \<Rightarrow> ('s, unit) comp) \<Rightarrow> ('s, unit) comp" where
  "for_each [] f = return ()"
| "for_each (x # xs) f = bind_comp (f x) (\<lambda>_. for_each xs f)"

named_theorems comp_simps \<open>evaluation of computations\<close>

lemma return_apply [comp_simps]: "return x s = (Inr x, s)"
  by (simp add: return_def)

lemma throw_apply [comp_simps]: "throw e s = (Inl e, s)"
  by (simp add: throw_def)

lemma modify_apply [comp_simps]: "modify f s = (Inr (), f s)"
  by (simp add: modify_def)

lemma lift_sum_apply [comp_simps]: "lift_sum r s = (r, s)"
  by (simp add: lift_sum_def)

lemma bind_comp_apply [comp_simps]:
  "bind_comp m f s = (case m s of (Inl e, s') \<Rightarrow> (Inl e, s') | (Inr x, s') \<Rightarrow> f x s')"
  by (simp add: bind_comp_def)

lemma catch_std_apply [comp_simps]:
  "catch_std m h s = (case m s of (Inl (Std_Exception w), s') \<Rightarrow> h w s' | r \<Rightarrow> r)"
  by (simp add: catch_std_def)

lemma for_each_append:
  "for_each (xs @ ys) f = bind_comp (for_each xs f) (\<lambda>_. for_each ys f)"
  by (induction xs) (auto simp: fun_eq_iff comp_simps split: sum.split prod.split)

text \<open>Two rules for loops: an invariant of the state, and a loop that cannot fail.\<close>

lemma for_each_invariant:
  assumes "I s" and "\<And>x s. x \<in> set xs \<Longrightarrow> I s \<Longrightarrow> I (snd (f x s))"
  shows "I (snd (for_each xs f s))"
  using assms
proof (induction xs arbitrary: s)
  case Nil
  then show ?case by (simp add: comp_simps)
next
  case (Cons x xs)
  obtain r s' where fx: "f x s = (r, s')" by fastforce
  with Cons.prems have "I s'" by (metis list.set_intros(1) snd_conv)
  with Cons fx show ?case by (cases r) (simp_all add: comp_simps)
qed

lemma for_each_total:
  assumes "I s" and "\<And>x s. x \<in> set xs \<Longrightarrow> I s \<Longrightarrow> \<exists>s'. f x s = (Inr (), s') \<and> I s'"
  shows "\<exists>s'. for_each xs f s = (Inr (), s') \<and> I s'"
  using assms
proof (induction xs arbitrary: s)
  case Nil
  then show ?case by (simp add: comp_simps)
next
  case (Cons x xs)
  then obtain s' where "f x s = (Inr (), s')" "I s'" by (metis list.set_intros(1))
  with Cons show ?case by (simp add: comp_simps)
qed

text \<open>A call of a library: \<open>Inl\<close> is an exception of the library with its \<open>what()\<close>.\<close>

definition lib_call :: "string + 'a \<Rightarrow> ('s, 'a) comp" where
  "lib_call r = (case r of Inl w \<Rightarrow> throw (Std_Exception w) | Inr x \<Rightarrow> return x)"

lemma lib_call_simps [simp]: "lib_call (Inl w) = throw (Std_Exception w)" "lib_call (Inr x) = return x"
  by (simp_all add: lib_call_def)

lemma bind_return [simp]: "bind_comp (return x) f = f x" "bind_comp (throw e) f = throw e"
  by (simp_all add: fun_eq_iff comp_simps)

lemma bind_return_right [simp]: "bind_comp m return = m"
  by (auto simp: fun_eq_iff comp_simps split: sum.split prod.split)

lemma bind_assoc: "bind_comp (bind_comp m f) g = bind_comp m (\<lambda>x. bind_comp (f x) g)"
  by (auto simp: fun_eq_iff comp_simps split: sum.split prod.split)

text \<open>A loop whose body always succeeds is a fold over the state.\<close>

lemma for_each_fold:
  assumes "\<And>x s. x \<in> set xs \<Longrightarrow> f x s = (Inr (), g x s)"
  shows "for_each xs f s = (Inr (), fold g xs s)"
  using assms by (induction xs arbitrary: s) (simp_all add: comp_simps)

section \<open>Characters and strings of the C library\<close>

text \<open>
  A \<open>char\<close> is a byte. \<open>isalpha\<close> and \<open>tolower\<close> are those of the C locale, which the program
  never changes: bytes from 128 up are not letters.
\<close>

abbreviation byte :: "char \<Rightarrow> nat" where
  "byte c \<equiv> of_char c"

definition isalpha :: "char \<Rightarrow> bool" where
  "isalpha c = (65 \<le> byte c \<and> byte c \<le> 90 \<or> 97 \<le> byte c \<and> byte c \<le> 122)"

definition tolower :: "char \<Rightarrow> char" where
  "tolower c = (if 65 \<le> byte c \<and> byte c \<le> 90 then char_of (byte c + 32) else c)"

text \<open>\<open>s.substr(pos, n)\<close> for \<open>pos <= s.size()\<close>, and \<open>s.substr(pos)\<close>.\<close>

definition substr :: "string \<Rightarrow> nat \<Rightarrow> nat \<Rightarrow> string" where
  "substr s pos n = take n (drop pos s)"

text \<open>\<open>s.find_first_not_of(cs) != npos\<close>.\<close>

definition has_char_not_of :: "string \<Rightarrow> string \<Rightarrow> bool" where
  "has_char_not_of s cs = (\<exists>c\<in>set s. c \<notin> set cs)"

text \<open>What a C function reads of \<open>s.c_str()\<close>: the bytes before the first NUL.\<close>

definition c_str :: "string \<Rightarrow> string" where
  "c_str s = takeWhile (\<lambda>c. byte c \<noteq> 0) s"

lemma length_c_str: "length (c_str s) \<le> length s"
  by (simp add: c_str_def length_takeWhile_le)

text \<open>Evaluation of character arithmetic on literals.\<close>

lemmas char_eval = char_of_def bit_0

lemma isalpha_tolower [simp]: "isalpha (tolower c) = isalpha c"
  by (auto simp: isalpha_def tolower_def)

lemma tolower_idem [simp]: "tolower (tolower c) = tolower c"
  by (simp add: tolower_def)

section \<open>Decimal output\<close>

definition digit_char :: "nat \<Rightarrow> char" where
  "digit_char d = char_of (48 + d)"

fun show_nat :: "nat \<Rightarrow> string" where
  "show_nat n = (if n < 10 then [digit_char n] else show_nat (n div 10) @ [digit_char (n mod 10)])"

declare show_nat.simps [simp del]

definition show_int :: "int \<Rightarrow> string" where
  "show_int i = (if i < 0 then CHR ''-'' # show_nat (nat (- i)) else show_nat (nat i))"

lemma length_show_nat: "n < 10 ^ k \<Longrightarrow> 0 < k \<Longrightarrow> length (show_nat n) \<le> k"
proof (induction n arbitrary: k rule: show_nat.induct)
  case (1 n)
  show ?case
  proof (cases "n < 10")
    case True
    with 1 show ?thesis by (simp add: show_nat.simps [of n])
  next
    case False
    with "1.prems" obtain j where k: "k = Suc j" and "0 < j"
      by (cases k; cases "k - 1") auto
    with "1.prems" have "n div 10 < 10 ^ j" by (simp add: div_less_iff_less_mult mult.commute)
    with "1.IH" False \<open>0 < j\<close> have "length (show_nat (n div 10)) \<le> j" by blast
    with False k show ?thesis by (simp add: show_nat.simps [of n])
  qed
qed

lemma show_nat_digits: "c \<in> set (show_nat n) \<Longrightarrow> 48 \<le> byte c \<and> byte c \<le> 57"
proof (induction n rule: show_nat.induct)
  case (1 n)
  then show ?case
    by (cases "n < 10") (auto simp: show_nat.simps [of n] digit_char_def)
qed

lemma show_nat_nonempty [simp]: "show_nat n \<noteq> []"
  by (subst show_nat.simps) simp

lemma length_show_int: "\<bar>i\<bar> < 10 ^ k \<Longrightarrow> 0 < k \<Longrightarrow> length (show_int i) \<le> Suc k"
  using length_show_nat [of "nat \<bar>i\<bar>" k]
  by (auto simp: show_int_def nat_less_iff le_Suc_eq)

lemma length_show_int_nonneg: "0 \<le> i \<Longrightarrow> i < 10 ^ k \<Longrightarrow> 0 < k \<Longrightarrow> length (show_int i) \<le> k"
  using length_show_nat [of "nat i" k] by (auto simp: show_int_def nat_less_iff)

lemma show_int_chars: "c \<in> set (show_int i) \<Longrightarrow> 45 \<le> byte c \<and> byte c \<le> 57"
  by (auto simp: show_int_def dest!: show_nat_digits split: if_splits)

text \<open>Padding on the left to a width, as \<open>%02d\<close> does with \<open>0\<close> and \<open>%e\<close> with a blank.\<close>

definition pad_left :: "char \<Rightarrow> nat \<Rightarrow> string \<Rightarrow> string" where
  "pad_left c w s = replicate (w - length s) c @ s"

lemma length_pad_left [simp]: "length (pad_left c w s) = max w (length s)"
  by (simp add: pad_left_def)

lemma set_pad_left: "set (pad_left c w s) \<subseteq> insert c (set s)"
  by (auto simp: pad_left_def)

end
