(* ===== verification/Shared_Lookup.thy ===== *)
theory Shared_Lookup
  imports Prelude "HOL-Library.Sublist"
begin

text \<open>
  A registry that several threads ask for an object: \<open>LoggerManager::getLogger\<close> and
  \<open>Config::Lookup\<close> look a name up, and when it is missing make an object and then enter it, without
  a lock. The steps of one caller, schedules of any number of callers, and the contract of a registry
  with what holds under every schedule. Each step is atomic here; in C++ two overlapping steps on the
  \<open>std::map\<close> are a data race. The theory therefore serves to show what goes wrong even when no
  two steps overlap, and is no claim that concurrent calls are safe.
\<close>

section \<open>Callers and schedules\<close>

datatype ('r, 'p) caller =
    Looking (request: 'r)
  | Missed (request: 'r)
  | Made (request: 'r) 'p
  | Found (request: 'r) 'p
  | Created (request: 'r) 'p
  | Refused (request: 'r)
  | Failed (request: 'r) error

text \<open>
  How the call has ended, if it has: with an object, with a null pointer or with an error; the object
  it has returned, and the one it has made itself.
\<close>

fun outcome :: "('r, 'p) caller \<Rightarrow> (error + 'p option) option" where
  "outcome (Found r p) = Some (Inr (Some p))"
| "outcome (Created r p) = Some (Inr (Some p))"
| "outcome (Refused r) = Some (Inr None)"
| "outcome (Failed r e) = Some (Inl e)"
| "outcome _ = None"

fun returned :: "('r, 'p) caller \<Rightarrow> 'p option" where
  "returned (Found r p) = Some p"
| "returned (Created r p) = Some p"
| "returned _ = None"

fun owned :: "('r, 'p) caller \<Rightarrow> 'p option" where
  "owned (Made r p) = Some p"
| "owned (Created r p) = Some p"
| "owned _ = None"

lemma returned_outcome: "returned c = Some p \<longleftrightarrow> outcome c = Some (Inr (Some p))"
  by (cases c) auto

text \<open>
  One step of a caller. In the first it looks the name up: a name that is there, or that is missing and
  not admitted, is answered at once (\<open>answer\<close>, which may log, return null or throw); for any other name
  the next step constructs a new object and the last one assigns it to the entry of the registry. A
  caller that is through does nothing.
\<close>

definition answered :: "'r \<Rightarrow> (error + 'p option) \<times> 's \<Rightarrow> ('r, 'p) caller \<times> 's" where
  "answered r a =
     (case a of
        (Inl e, t) \<Rightarrow> (Failed r e, t)
      | (Inr None, t) \<Rightarrow> (Refused r, t)
      | (Inr (Some p), t) \<Rightarrow> (Found r p, t))"

fun caller_step ::
  "('r \<Rightarrow> 's \<Rightarrow> 'p option) \<Rightarrow> ('r \<Rightarrow> 'p option \<Rightarrow> ('s, 'p option) comp) \<Rightarrow> ('r \<Rightarrow> bool) \<Rightarrow>
   ('r \<Rightarrow> 's \<Rightarrow> 'p \<times> 's) \<Rightarrow> ('r \<Rightarrow> 'p \<Rightarrow> 's \<Rightarrow> 's) \<Rightarrow> ('r, 'p) caller \<Rightarrow> 's \<Rightarrow> ('r, 'p) caller \<times> 's" where
  "caller_step look answer admit make enter (Looking r) s =
     (case look r s of
        Some p \<Rightarrow> answered r (answer r (Some p) s)
      | None \<Rightarrow> if admit r then (Missed r, s) else answered r (answer r None s))"
| "caller_step look answer admit make enter (Missed r) s = (case make r s of (p, t) \<Rightarrow> (Made r p, t))"
| "caller_step look answer admit make enter (Made r p) s = (Created r p, enter r p s)"
| "caller_step look answer admit make enter c s = (c, s)"

lemma answered_simps [simp]:
  "request (fst (answered r a)) = r" "snd (answered r a) = snd a" "outcome (fst (answered r a)) = Some (fst a)"
  by (auto simp: answered_def split: prod.split sum.split option.split)

text \<open>A schedule: which caller moves next. The callers are numbered.\<close>

primrec run_schedule ::
  "(('r, 'p) caller \<Rightarrow> 's \<Rightarrow> ('r, 'p) caller \<times> 's) \<Rightarrow> nat list \<Rightarrow>
   (nat \<Rightarrow> ('r, 'p) caller) \<times> 's \<Rightarrow> (nat \<Rightarrow> ('r, 'p) caller) \<times> 's" where
  "run_schedule step [] st = st"
| "run_schedule step (c # xs) st =
     run_schedule step xs (case step (fst st c) (snd st) of (x, t) \<Rightarrow> ((fst st)(c := x), t))"

lemma run_schedule_append:
  "run_schedule step (xs @ ys) st = run_schedule step ys (run_schedule step xs st)"
  by (induction xs arbitrary: st) simp_all

lemma run_schedule_other: "c \<notin> set xs \<Longrightarrow> fst (run_schedule step xs st) c = fst st c"
  by (induction xs arbitrary: st) (auto split: prod.split)

lemma caller_step_request:
  "caller_step look answer admit make enter c s = (x, t) \<Longrightarrow> request x = request c"
  by (cases c) (auto dest!: arg_cong [where f = fst] split: option.splits prod.splits if_splits)

lemma run_schedule_request:
  "request (fst (run_schedule (caller_step look answer admit make enter) xs st) c) = request (fst st c)"
  by (induction xs arbitrary: st) (auto split: prod.split dest: caller_step_request)

text \<open>A caller that is through stays as it is, whatever the others do.\<close>

lemma caller_step_through: "outcome c \<noteq> None \<Longrightarrow> caller_step look answer admit make enter c s = (c, s)"
  by (cases c) simp_all

section \<open>The contract of a registry\<close>

text \<open>
  What the callers rely on: \<open>look\<close> finds objects that exist and are named as requested; \<open>answer\<close>
  leaves registry and objects alone and gives no other object than the one found; \<open>make\<close> makes
  a new object, as requested (\<open>made\<close>), without registering it; \<open>enter\<close> registers an object under its
  name. \<open>view\<close> is what is to be known of an object (the other objects keep theirs), \<open>key\<close> its name in
  there, \<open>ok\<close> the invariant of the registry, \<open>may\<close> what holds of a name that is missing once.
\<close>

locale lookup_registry =
  fixes look :: "'r \<Rightarrow> 's \<Rightarrow> 'p option"
    and answer :: "'r \<Rightarrow> 'p option \<Rightarrow> ('s, 'p option) comp"
    and admit :: "'r \<Rightarrow> bool"
    and make :: "'r \<Rightarrow> 's \<Rightarrow> 'p \<times> 's"
    and enter :: "'r \<Rightarrow> 'p \<Rightarrow> 's \<Rightarrow> 's"
    and name :: "'r \<Rightarrow> 'k"
    and live :: "'p \<Rightarrow> 's \<Rightarrow> bool"
    and view :: "'p \<Rightarrow> 's \<Rightarrow> 'o"
    and key :: "'o \<Rightarrow> 'k"
    and made :: "'r \<Rightarrow> 'o \<Rightarrow> bool"
    and ok :: "'s \<Rightarrow> bool"
    and may :: "'r \<Rightarrow> bool"
  assumes look_name: "name r = name q \<Longrightarrow> look r s = look q s"
    and look_live: "ok s \<Longrightarrow> look r s = Some p \<Longrightarrow> live p s \<and> key (view p s) = name r"
    and look_may: "ok s \<Longrightarrow> look r s = None \<Longrightarrow> admit r \<Longrightarrow> may r"
    and answer_found: "answer r po s = (Inr (Some p), t) \<Longrightarrow> po = Some p"
    and answer_keeps: "ok s \<Longrightarrow> answer r po s = (a, t) \<Longrightarrow>
      ok t \<and> look q t = look q s \<and> live x t = live x s \<and> view x t = view x s"
    and made_key: "made r v \<Longrightarrow> key v = name r"
    and make_ok: "ok s \<Longrightarrow> may r \<Longrightarrow> make r s = (p, t) \<Longrightarrow>
      ok t \<and> \<not> live p s \<and> live p t \<and> made r (view p t)"
    and make_keeps: "ok s \<Longrightarrow> make r s = (p, t) \<Longrightarrow>
      look q t = look q s \<and> (live x s \<longrightarrow> live x t \<and> view x t = view x s)"
    and enter_ok: "ok s \<Longrightarrow> may r \<Longrightarrow> live p s \<Longrightarrow> key (view p s) = name r \<Longrightarrow> ok (enter r p s)"
    and enter_keeps: "ok s \<Longrightarrow> look q (enter r p s) = (if name q = name r then Some p else look q s) \<and>
      live x (enter r p s) = live x s \<and> view x (enter r p s) = view x s"
begin

abbreviation "step \<equiv> caller_step look answer admit make enter"

text \<open>What every schedule keeps, from the state \<open>s0\<close> in which all callers begin.\<close>

definition caller_ok :: "'s \<Rightarrow> (nat \<Rightarrow> ('r, 'p) caller) \<Rightarrow> 's \<Rightarrow> ('r, 'p) caller \<Rightarrow> bool" where
  "caller_ok s0 cs s c = (case c of
     Looking r \<Rightarrow> True
   | Refused r \<Rightarrow> True
   | Failed r e \<Rightarrow> True
   | Missed r \<Rightarrow> may r \<and> look r s0 = None
   | Made r p \<Rightarrow> may r \<and> look r s0 = None \<and> live p s \<and> \<not> live p s0 \<and> made r (view p s)
   | Created r p \<Rightarrow> look r s0 = None \<and> look r s \<noteq> None \<and> live p s \<and> \<not> live p s0 \<and> made r (view p s)
   | Found r p \<Rightarrow> live p s \<and> key (view p s) = name r \<and>
       (look r s0 = Some p \<or> look r s0 = None \<and> (\<exists>d q. cs d = Created q p \<and> name q = name r)))"

definition kept :: "'s \<Rightarrow> 's \<Rightarrow> bool" where
  "kept s t = ((\<forall>x. live x s \<longrightarrow> live x t \<and> view x t = view x s) \<and>
     (\<forall>q x. look q s = Some x \<longrightarrow> look q t = Some x))"

definition race_inv :: "'s \<Rightarrow> (nat \<Rightarrow> ('r, 'p) caller) \<Rightarrow> 's \<Rightarrow> bool" where
  "race_inv s0 cs s =
     (ok s \<and> kept s0 s \<and> (\<forall>c. caller_ok s0 cs s (cs c)) \<and>
      (\<forall>a b p. a \<noteq> b \<longrightarrow> owned (cs a) = Some p \<longrightarrow> owned (cs b) \<noteq> Some p) \<and>
      (\<forall>q. look q s = look q s0 \<or> (\<exists>d r p. cs d = Created r p \<and> name r = name q \<and> look q s = Some p)))"

lemma race_inv_start: "ok s \<Longrightarrow> race_inv s (\<lambda>c. Looking (r c)) s"
  by (simp add: race_inv_def kept_def caller_ok_def)

text \<open>A step of one caller disturbs no other: objects stay as they are and names stay taken.\<close>

lemma caller_ok_mono:
  assumes "caller_ok s0 cs s c"
    and "\<And>x. live x s \<Longrightarrow> live x t \<and> view x t = view x s" "\<And>q. look q s \<noteq> None \<Longrightarrow> look q t \<noteq> None"
    and "\<And>d q p. cs d = Created q p \<Longrightarrow> cs' d = Created q p"
  shows "caller_ok s0 cs' t c"
proof (cases c)
  case (Found r p)
  with assms(1) assms(2) [of p] assms(4) show ?thesis by (fastforce simp: caller_ok_def)
qed (use assms in \<open>auto simp: caller_ok_def\<close>)

text \<open>The parts of the invariant after one caller has moved.\<close>

lemma race_inv_upd:
  assumes inv: "race_inv s0 cs s" and ok: "ok t" and kept: "kept s0 t"
    and grows: "\<And>y. live y s \<Longrightarrow> live y t \<and> view y t = view y s" "\<And>q. look q s \<noteq> None \<Longrightarrow> look q t \<noteq> None"
    and not_created: "\<And>r p. cs c \<noteq> Created r p"
    and mine: "caller_ok s0 (cs(c := x)) t x"
    and owner: "owned x = None \<or> owned x = owned (cs c) \<or> (\<forall>b. owned (cs b) \<noteq> owned x)"
    and reg: "\<And>q. look q t = look q s \<or> (\<exists>r p. x = Created r p \<and> name r = name q \<and> look q t = Some p)"
  shows "race_inv s0 (cs(c := x)) t"
proof -
  let ?cs = "cs(c := x)"
  have still: "?cs d = Created q p" if "cs d = Created q p" for d q p using that not_created by auto
  have "caller_ok s0 ?cs t (?cs d)" for d
  proof (cases "d = c")
    case False
    have "caller_ok s0 cs s (cs d)" using inv by (simp add: race_inv_def)
    then have "caller_ok s0 ?cs t (cs d)" by (rule caller_ok_mono) (fact grows still)+
    with False show ?thesis by simp
  qed (use mine in simp)
  moreover have "owned (?cs a) = Some p \<longrightarrow> owned (?cs b) \<noteq> Some p" if "a \<noteq> b" for a b p
    using inv owner that unfolding race_inv_def by (metis fun_upd_apply option.distinct(1))
  moreover have "look q t = look q s0 \<or> (\<exists>d r p. ?cs d = Created r p \<and> name r = name q \<and> look q t = Some p)" for q
  proof (cases "look q t = look q s")
    case True
    moreover have "look q s = look q s0 \<or> (\<exists>d r p. cs d = Created r p \<and> name r = name q \<and> look q s = Some p)"
      using inv by (simp add: race_inv_def)
    ultimately show ?thesis using still by metis
  next
    case False
    with reg [of q] obtain r p where "x = Created r p" "name r = name q" "look q t = Some p" by blast
    then have "?cs c = Created r p \<and> name r = name q \<and> look q t = Some p" by simp
    then show ?thesis by blast
  qed
  ultimately show ?thesis using ok kept unfolding race_inv_def by blast
qed

lemma race_invD:
  assumes "race_inv s0 cs s"
  shows "ok s" "kept s0 s" "caller_ok s0 cs s (cs c)"
    "look q s = look q s0 \<or> (\<exists>d r p. cs d = Created r p \<and> name r = name q \<and> look q s = Some p)"
    "a \<noteq> b \<Longrightarrow> owned (cs a) = Some p \<Longrightarrow> owned (cs b) \<noteq> Some p"
  using assms by (simp_all add: race_inv_def)

lemma kept_none: "kept s0 s \<Longrightarrow> look q s = None \<Longrightarrow> look q s0 = None"
  by (cases "look q s0") (auto simp: kept_def)

lemma outcome_owned: "outcome c = Some r \<Longrightarrow> (\<And>q p. c \<noteq> Created q p) \<Longrightarrow> owned c = None"
  by (cases c) auto

text \<open>An answer to a name that was found, or that was missing and is not admitted.\<close>

lemma race_inv_answer:
  assumes inv: "race_inv s0 cs s" and c: "cs c = Looking r" and po: "look r s = po"
    and st: "answered r (answer r po s) = (x, t)"
  shows "race_inv s0 (cs(c := x)) t"
proof (rule race_inv_upd [OF inv])
  note D = race_invD [OF inv]
  obtain a u where au: "answer r po s = (a, u)" by fastforce
  with arg_cong [OF st, where f = snd] have a: "answer r po s = (a, t)" by simp
  note keeps = answer_keeps [OF D(1) a]
  show "ok t" "kept s0 t" using keeps D(1,2) by (auto simp: kept_def)
  show "live y s \<Longrightarrow> live y t \<and> view y t = view y s" "look q s \<noteq> None \<Longrightarrow> look q t \<noteq> None" for y q
    using keeps by auto
  have x: "\<And>q p. x \<noteq> Created q p" "owned x = None"
    using st by (auto simp: answered_def split: prod.splits sum.splits option.splits)
  then show "owned x = None \<or> owned x = owned (cs c) \<or> (\<forall>b. owned (cs b) \<noteq> owned x)"
    "look q t = look q s \<or> (\<exists>r p. x = Created r p \<and> name r = name q \<and> look q t = Some p)" for q
    using keeps by simp_all
  show "caller_ok s0 (cs(c := x)) t x"
  proof (cases "\<exists>p. x = Found r p")
    case True
    then obtain p where p: "x = Found r p" by blast
    with st a have "answer r po s = (Inr (Some p), t)"
      by (auto simp: answered_def split: sum.splits option.splits)
    then have Some: "look r s = Some p" using po answer_found by blast
    have "look r s0 = Some p \<or> look r s0 = None \<and> (\<exists>d q. cs d = Created q p \<and> name q = name r)"
      using D(4) [of r] D(2) Some by (cases "look r s0") (auto simp: kept_def)
    moreover have "(cs(c := Found r p)) d = Created q p" if "cs d = Created q p" for d q using that c by auto
    ultimately have "look r s0 = Some p \<or>
        look r s0 = None \<and> (\<exists>d q. (cs(c := Found r p)) d = Created q p \<and> name q = name r)" by metis
    with p look_live [OF D(1) Some] keeps show ?thesis by (simp add: caller_ok_def)
  next
    case False
    with st show ?thesis
      by (auto simp: answered_def caller_ok_def split: prod.splits sum.splits option.splits)
  qed
qed (use c in simp)

lemma race_inv_miss:
  assumes inv: "race_inv s0 cs s" and c: "cs c = Looking r" and none: "look r s = None" and admit: "admit r"
  shows "race_inv s0 (cs(c := Missed r)) s"
proof (rule race_inv_upd [OF inv])
  note D = race_invD [OF inv]
  show "caller_ok s0 (cs(c := Missed r)) s (Missed r)"
    using kept_none [OF D(2) none] look_may [OF D(1) none admit] by (simp add: caller_ok_def)
qed (use c race_invD [OF inv] in auto)

lemma race_inv_look:
  assumes inv: "race_inv s0 cs s" and c: "cs c = Looking r" and st: "step (Looking r) s = (x, t)"
  shows "race_inv s0 (cs(c := x)) t"
proof (cases "look r s = None \<and> admit r")
  case True
  with race_inv_miss [OF inv c] st show ?thesis by auto
next
  case False
  then have "answered r (answer r (look r s) s) = (x, t)" using st by (auto split: option.splits)
  then show ?thesis by (rule race_inv_answer [OF inv c refl])
qed

lemma race_inv_make:
  assumes inv: "race_inv s0 cs s" and c: "cs c = Missed r" and make: "make r s = (p, t)"
  shows "race_inv s0 (cs(c := Made r p)) t"
proof -
  note D = race_invD [OF inv]
  have r: "may r" "look r s0 = None" using D(3) [of c] c by (simp_all add: caller_ok_def)
  note new = make_ok [OF D(1) r(1) make] and same = make_keeps [OF D(1) make]
  have "owned (cs b) \<noteq> Some p" for b
    using D(3) [of b] new by (cases "cs b") (auto simp: caller_ok_def)
  moreover have "kept s0 t" "\<not> live p s0" using D(2) new same by (auto simp: kept_def)
  ultimately show ?thesis
    by (intro race_inv_upd [OF inv]) (use c r new same in \<open>auto simp: caller_ok_def\<close>)
qed

lemma race_inv_enter:
  assumes inv: "race_inv s0 cs s" and c: "cs c = Made r p"
  shows "race_inv s0 (cs(c := Created r p)) (enter r p s)"
proof -
  note D = race_invD [OF inv]
  have r: "may r" "look r s0 = None" "live p s" "\<not> live p s0" "made r (view p s)"
    using D(3) [of c] c by (simp_all add: caller_ok_def)
  then have key: "key (view p s) = name r" using made_key by blast
  note same = enter_keeps [OF D(1), of _ r p]
  have "name q \<noteq> name r" if "look q s0 = Some x" for q x
    using that r(2) look_name [of q r] by auto
  then have "kept s0 (enter r p s)" using D(2) by (auto simp: kept_def same)
  then show ?thesis
    by (intro race_inv_upd [OF inv])
      (use c r enter_ok [OF D(1) r(1,3) key] in \<open>auto simp: caller_ok_def same\<close>)
qed

lemma race_inv_run: "race_inv s0 cs s \<Longrightarrow> run_schedule step xs (cs, s) = (cs', s') \<Longrightarrow> race_inv s0 cs' s'"
proof (induction xs arbitrary: cs s)
  case (Cons c xs)
  obtain x t where st: "step (cs c) s = (x, t)" by fastforce
  have inv: "race_inv s0 (cs(c := x)) t"
  proof (cases "cs c")
    case (Looking r)
    with race_inv_look [OF Cons.prems(1) Looking] st show ?thesis by simp
  next
    case (Missed r)
    with race_inv_make [OF Cons.prems(1) Missed] st show ?thesis by (auto split: prod.splits)
  next
    case (Made r p)
    with race_inv_enter [OF Cons.prems(1) Made] st show ?thesis by auto
  qed (use Cons.prems(1) st fun_upd_triv [of cs c] in auto)
  have "run_schedule step xs (cs(c := x), t) = (cs', s')" using Cons.prems(2) st by simp
  then show ?case by (rule Cons.IH [OF inv])
qed simp

end

section \<open>Two callers of one missing name\<close>

text \<open>How far a caller is that has not found its name: its steps are counted by the schedule.\<close>

fun stage :: "('r, 'p) caller \<Rightarrow> nat" where
  "stage (Missed r) = 1"
| "stage (Made r p) = 2"
| "stage (Created r p) = 3"
| "stage _ = 0"

lemma stage_le: "stage c \<le> 3"
  by (cases c) simp_all

lemma stage_step:
  "0 < stage c \<Longrightarrow> caller_step look answer admit make enter c s = (x, t) \<Longrightarrow> stage x = min 3 (Suc (stage c))"
  by (cases c) (auto split: prod.splits)

lemma stage_run:
  "0 < stage (cs c) \<Longrightarrow> run_schedule (caller_step look answer admit make enter) xs (cs, s) = (cs', s') \<Longrightarrow>
     stage (cs' c) = min 3 (stage (cs c) + count_list xs c)"
proof (induction xs arbitrary: cs s)
  case (Cons d xs)
  obtain x t where st: "caller_step look answer admit make enter (cs d) s = (x, t)" by fastforce
  have rest: "run_schedule (caller_step look answer admit make enter) xs (cs(d := x), t) = (cs', s')"
    using Cons.prems(2) st by simp
  show ?case
  proof (cases "d = c")
    case True
    then have "stage x = min 3 (Suc (stage (cs c)))" using stage_step [OF _ st] Cons.prems(1) by simp
    with Cons.IH [OF _ rest] True show ?thesis by simp
  next
    case False
    with Cons.IH [OF _ rest] Cons.prems(1) show ?thesis by simp
  qed
qed (auto simp: min_def dest: le_antisym [OF stage_le])

lemma stage_Created: "stage c = 3 \<Longrightarrow> \<exists>p. c = Created (request c) p"
  and stage_Made: "stage c = 2 \<Longrightarrow> \<exists>p. c = Made (request c) p"
  by (cases c; simp)+

context lookup_registry
begin

text \<open>
  What the caller \<open>g\<close> and the registry get when \<open>f\<close> has created its object before: the answer to the
  name with the object of \<open>f\<close>.
\<close>

definition found_after ::
  "(nat \<Rightarrow> 'r) \<Rightarrow> 's \<Rightarrow> nat \<Rightarrow> nat \<Rightarrow> (nat \<Rightarrow> ('r, 'p) caller) \<Rightarrow> 's \<Rightarrow> bool" where
  "found_after r s f g cs' s' =
     (\<exists>p t. make (r f) s = (p, t) \<and> cs' f = Created (r f) p \<and>
        outcome (cs' g) = Some (fst (answer (r g) (Some p) (enter (r f) p t))) \<and>
        s' = snd (answer (r g) (Some p) (enter (r f) p t)) \<and> look (r f) s' = Some p)"

text \<open>When both callers have missed the name, each ends with an object of its own.\<close>

lemma both_missed:
  assumes inv: "race_inv s0 cs s" and run: "run_schedule step xs (cs, s) = (cs', s')"
    and ab: "a \<noteq> b" "0 < stage (cs a)" "0 < stage (cs b)"
    and through: "3 \<le> stage (cs a) + count_list xs a" "3 \<le> stage (cs b) + count_list xs b"
  shows "\<exists>p q. cs' a = Created (request (cs a)) p \<and> cs' b = Created (request (cs b)) q \<and> p \<noteq> q"
proof -
  have "request (cs' c) = request (cs c)" for c
    using run_schedule_request [of look answer admit make enter xs "(cs, s)" c] run by simp
  moreover have "stage (cs' a) = 3" "stage (cs' b) = 3"
    using stage_run [OF ab(2) run] stage_run [OF ab(3) run] through by simp_all
  then obtain p q where "cs' a = Created (request (cs' a)) p" "cs' b = Created (request (cs' b)) q"
    using stage_Created by metis
  moreover have "race_inv s0 cs' s'" by (rule race_inv_run [OF inv run])
  ultimately show ?thesis using race_invD(5) [of s0 cs' s' a b p] ab(1)
    by (metis owned.simps(2))
qed

text \<open>The object of the caller that enters its own last is the one that is registered.\<close>

lemma last_entered:
  assumes inv: "race_inv s0 cs s" and run: "run_schedule step (ys @ [c]) (cs, s) = (cs', s')"
    and c: "0 < stage (cs c)" "stage (cs c) + count_list ys c = 2"
  shows "look (request (cs c)) s' = returned (cs' c)"
proof -
  obtain cs1 s1 where run1: "run_schedule step ys (cs, s) = (cs1, s1)" by fastforce
  have "stage (cs1 c) = 2" using stage_run [OF c(1) run1] c(2) by simp
  then obtain p where p: "cs1 c = Made (request (cs c)) p"
    using stage_Made [of "cs1 c"] run_schedule_request [of look answer admit make enter ys "(cs, s)" c] run1 by auto
  have "race_inv s0 cs1 s1" by (rule race_inv_run [OF inv run1])
  from enter_keeps [OF race_invD(1) [OF this]] p run run1 show ?thesis
    by (auto simp: run_schedule_append)
qed

text \<open>The schedules in which \<open>a\<close> moves first: \<open>b\<close> looks before \<open>a\<close> has entered its object, or after.\<close>

lemma shuffles_cases:
  assumes "a # zs \<in> shuffles [a, a, a] [b, b, b]" "a \<noteq> b"
  obtains "zs = [a, a, b, b, b]"
  | ys where "zs = b # ys" "ys \<in> shuffles [a, a] [b, b]"
  | ys where "zs = a # b # ys" "ys \<in> shuffles [a] [b, b]"
  using assms by (auto simp: shuffles.simps)

lemma first_mover:
  assumes ok: "ok s" and none: "look (r a) s = None" and same: "name (r b) = name (r a)"
    and admit: "admit (r a)" "admit (r b)" and ab: "a \<noteq> b"
    and xs: "a # zs \<in> shuffles [a, a, a] [b, b, b]"
    and run: "run_schedule step (a # zs) (\<lambda>c. Looking (r c), s) = (cs', s')"
  shows "if zs = [a, a, b, b, b] then found_after r s a b cs' s'
    else \<exists>p q. cs' a = Created (r a) p \<and> cs' b = Created (r b) q \<and> p \<noteq> q \<and>
      look (r a) s' = returned (cs' (last zs))"
proof -
  let ?cs = "(\<lambda>c. Looking (r c))(a := Missed (r a))"
  have none': "look (r b) s = None" using look_name [OF same] none by simp
  have inv0: "race_inv s (\<lambda>c. Looking (r c)) s" by (rule race_inv_start [OF ok])
  have run1: "run_schedule step zs (?cs, s) = (cs', s')" using run none admit by simp
  have inv1: "race_inv s ?cs s" using race_inv_miss [OF inv0, of a "r a"] none admit by simp
  show ?thesis using xs ab
  proof (cases rule: shuffles_cases)
    case 1
    obtain p t where mk: "make (r a) s = (p, t)" by fastforce
    let ?u = "enter (r a) p t"
    have t: "ok t" "may (r a)" "live p t" "key (view p t) = name (r a)"
      using make_ok [OF ok look_may [OF ok none admit(1)] mk] look_may [OF ok none admit(1)] made_key by blast+
    have u: "look (r b) ?u = Some p" "look (r a) ?u = Some p" "ok ?u"
      using enter_keeps [OF t(1), of "r b" "r a" p] enter_keeps [OF t(1), of "r a" "r a" p] same
        enter_ok [OF t] by simp_all
    obtain x v where x: "answered (r b) (answer (r b) (Some p) ?u) = (x, v)" by fastforce
    have end_b: "outcome x = Some (fst (answer (r b) (Some p) ?u))" "v = snd (answer (r b) (Some p) ?u)"
      using arg_cong [OF x, where f = fst] arg_cong [OF x, where f = snd] answered_simps [of "r b" "answer (r b) (Some p) ?u"]
      by simp_all
    then have "step x v = (x, v)" by (simp add: caller_step_through)
    then have "(cs', s') = (?cs(a := Created (r a) p, b := x), v)"
      using run1 1 mk ab u(1) x by (simp add: fun_upd_twist)
    moreover have "look (r a) v = Some p"
      using answer_keeps [OF u(3), of "r b" "Some p"] end_b(2) u(2) by (metis prod.collapse)
    ultimately have "found_after r s a b cs' s'"
      using mk end_b ab unfolding found_after_def by auto
    with 1 show ?thesis by simp
  next
    case (2 ys)
    let ?cs2 = "?cs(b := Missed (r b))"
    have run2: "run_schedule step ys (?cs2, s) = (cs', s')" using run1 2 none' admit ab by simp
    have inv2: "race_inv s ?cs2 s" using race_inv_miss [OF inv1, of b "r b"] none' admit ab by simp
    have n: "count_list ys a = 2" "count_list ys b = 2" using 2(2) ab by (auto simp: shuffles.simps)
    have "\<exists>p q. cs' a = Created (r a) p \<and> cs' b = Created (r b) q \<and> p \<noteq> q"
      using both_missed [OF inv2 run2 ab] n ab by simp
    moreover have "look (r a) s' = returned (cs' (last ys))"
    proof -
      obtain us c where ys: "ys = us @ [c]" "c = a \<or> c = b" "count_list us c = 1"
        using n 2(2) ab by (cases ys rule: rev_cases) (auto simp: shuffles.simps)
      have "look (request (?cs2 c)) s' = returned (cs' c)"
        using last_entered [OF inv2 run2 [unfolded ys(1)]] ys(2,3) ab by auto
      with ys look_name [OF same] ab show ?thesis by (auto split: if_splits)
    qed
    ultimately show ?thesis using 2 ab by (auto simp: shuffles.simps)
  next
    case (3 ys)
    obtain p t where mk: "make (r a) s = (p, t)" by fastforce
    let ?cs2 = "?cs(a := Made (r a) p)" let ?cs3 = "?cs2(b := Missed (r b))"
    have inv2: "race_inv s ?cs2 t" by (rule race_inv_make [OF inv1 _ mk]) simp
    have none3: "look (r b) t = None" using make_keeps [OF ok mk] none' by simp
    have run3: "run_schedule step ys (?cs3, t) = (cs', s')" using run1 3 mk none3 admit ab by simp
    have inv3: "race_inv s ?cs3 t" using race_inv_miss [OF inv2, of b "r b"] none3 admit ab by simp
    have n: "count_list ys a = 1" "count_list ys b = 2" using 3(2) ab by (auto simp: shuffles.simps)
    have "\<exists>p q. cs' a = Created (r a) p \<and> cs' b = Created (r b) q \<and> p \<noteq> q"
      using both_missed [OF inv3 run3 ab] n ab by simp
    moreover have "look (r a) s' = returned (cs' (last ys))"
    proof -
      obtain us c where ys: "ys = us @ [c]" "c = a \<and> count_list us c = 0 \<or> c = b \<and> count_list us c = 1"
        using n 3(2) ab by (cases ys rule: rev_cases) (auto simp: shuffles.simps)
      have "look (request (?cs3 c)) s' = returned (cs' c)"
        using last_entered [OF inv3 run3 [unfolded ys(1)]] ys(2) ab by auto
      with ys look_name [OF same] ab show ?thesis by (auto split: if_splits)
    qed
    ultimately show ?thesis using 3 ab by (auto simp: shuffles.simps)
  qed
qed

text \<open>Only in the two schedules in which one call ends before the other begins does one find the other's object.\<close>

theorem two_callers:
  assumes "ok s" "look (r a) s = None" "name (r b) = name (r a)" "admit (r a)" "admit (r b)" "a \<noteq> b"
    and xs: "xs \<in> shuffles [a, a, a] [b, b, b]"
    and run: "run_schedule step xs (\<lambda>c. Looking (r c), s) = (cs', s')"
  shows "if xs = [a, a, a, b, b, b] then found_after r s a b cs' s'
    else if xs = [b, b, b, a, a, a] then found_after r s b a cs' s'
    else \<exists>p q. cs' a = Created (r a) p \<and> cs' b = Created (r b) q \<and> p \<noteq> q \<and>
      look (r a) s' = returned (cs' (last xs))"
proof -
  have none: "look (r b) s = None" and look: "look (r b) s' = look (r a) s'"
    using look_name [OF assms(3)] assms(2) by simp_all
  have ba: "xs \<in> shuffles [b, b, b] [a, a, a]" using xs by (simp add: shuffles_commutes)
  obtain c zs where c: "xs = c # zs" "zs \<noteq> []" "c = a \<or> c = b"
    using xs by (cases xs) (auto simp: shuffles.simps)
  then show ?thesis
  proof (elim disjE)
    assume "c = a"
    with first_mover [OF assms(1-6), of zs cs' s'] c xs run \<open>a \<noteq> b\<close> show ?thesis by (auto split: if_splits)
  next
    assume "c = b"
    with first_mover [OF assms(1) none assms(3) [symmetric] assms(5,4), of zs cs' s'] c ba run \<open>a \<noteq> b\<close> look
    show ?thesis by (auto simp: eq_commute split: if_splits)
  qed
qed

end

text \<open>One caller after the other, as under a lock: each is a call that is not interrupted.\<close>

definition whole_call ::
  "('r \<Rightarrow> 's \<Rightarrow> 'p option) \<Rightarrow> ('r \<Rightarrow> 'p option \<Rightarrow> ('s, 'p option) comp) \<Rightarrow> ('r \<Rightarrow> bool) \<Rightarrow>
   ('r \<Rightarrow> 's \<Rightarrow> 'p \<times> 's) \<Rightarrow> ('r \<Rightarrow> 'p \<Rightarrow> 's \<Rightarrow> 's) \<Rightarrow> 'r \<Rightarrow> ('s, 'p option) comp" where
  "whole_call look answer admit make enter r s =
     (case look r s of
        Some p \<Rightarrow> answer r (Some p) s
      | None \<Rightarrow>
          if admit r then (case make r s of (p, t) \<Rightarrow> (Inr (Some p), enter r p t)) else answer r None s)"

lemma run_whole_call:
  assumes c: "st c = Looking r"
    and run: "run_schedule (caller_step look answer admit make enter) [c, c, c] (st, s) = (st', s')"
  shows "s' = snd (whole_call look answer admit make enter r s) \<and>
    outcome (st' c) = Some (fst (whole_call look answer admit make enter r s)) \<and> (\<forall>d. d \<noteq> c \<longrightarrow> st' d = st d)"
proof (cases "look r s = None \<and> admit r")
  case True
  with assms show ?thesis by (auto simp: whole_call_def split: prod.splits)
next
  case False
  let ?a = "answer r (look r s) s"
  obtain x t where x: "answered r ?a = (x, t)" by fastforce
  have "caller_step look answer admit make enter (Looking r) s = (x, t)"
    using False x by (auto split: option.split)
  moreover have "outcome x = Some (fst ?a)" "t = snd ?a"
    using arg_cong [OF x, where f = fst] arg_cong [OF x, where f = snd] answered_simps [of r ?a] by simp_all
  ultimately show ?thesis
    using False run c by (auto simp: whole_call_def caller_step_through split: option.split)
qed

lemma serial_run:
  assumes "distinct cs" "\<forall>c\<in>set cs. st c = Looking (r c)"
    and "run_schedule (caller_step look answer admit make enter) (concat (map (replicate 3) cs)) (st, s) = (st', s')"
  shows "s' = fold (\<lambda>c. snd \<circ> whole_call look answer admit make enter (r c)) cs s \<and>
    (\<forall>ys c zs. cs = ys @ c # zs \<longrightarrow> outcome (st' c) =
       Some (fst (whole_call look answer admit make enter (r c)
         (fold (\<lambda>c. snd \<circ> whole_call look answer admit make enter (r c)) ys s))))"
  using assms
proof (induction cs arbitrary: st s)
  case (Cons d cs)
  let ?step = "caller_step look answer admit make enter" and ?call = "\<lambda>c. whole_call look answer admit make enter (r c)"
  obtain st1 s1 where one: "run_schedule ?step [d, d, d] (st, s) = (st1, s1)" by fastforce
  have "concat (map (replicate 3) (d # cs)) = [d, d, d] @ concat (map (replicate 3) cs)"
    by (simp add: numeral_3_eq_3)
  with Cons.prems(3) one have rest: "run_schedule ?step (concat (map (replicate 3) cs)) (st1, s1) = (st', s')"
    by (simp only: run_schedule_append)
  have first: "s1 = snd (?call d s)" "outcome (st1 d) = Some (fst (?call d s))" "\<forall>c. c \<noteq> d \<longrightarrow> st1 c = st c"
    using run_whole_call [OF _ one] Cons.prems(2) by auto
  have others: "distinct cs" "\<forall>c\<in>set cs. st1 c = Looking (r c)" "d \<notin> set cs"
    using Cons.prems(1,2) first(3) by auto
  note IH = Cons.IH [OF others(1,2) rest]
  have "st' d = st1 d" using run_schedule_other [of d "concat (map (replicate 3) cs)" ?step "(st1, s1)"] rest others(3)
    by auto
  with IH first show ?case by (auto simp: Cons_eq_append_conv)
qed simp

end
