(* ===== verification/Log_Level.thy ===== *)
theory Log_Level
  imports Prelude
begin

text \<open>
  \<open>LogLevel\<close> of \<open>sylar/log.h\<close> and \<open>sylar/log.cc\<close>: the six levels with the integer order of the
  enumeration, and the two conversions with strings.
\<close>

datatype level = UNKNOW | DEBUG | INFO | WARN | ERROR | FATAL

fun level_num :: "level \<Rightarrow> int" where
  "level_num UNKNOW = 0"
| "level_num DEBUG = 1"
| "level_num INFO = 2"
| "level_num WARN = 3"
| "level_num ERROR = 4"
| "level_num FATAL = 5"

lemma level_num_inj [simp]: "level_num a = level_num b \<longleftrightarrow> a = b"
  by (cases a; cases b) simp_all

text \<open>The comparisons \<open><=\<close> and \<open>>=\<close> of the code compare the integers.\<close>

instantiation level :: linorder
begin

definition less_eq_level :: "level \<Rightarrow> level \<Rightarrow> bool" where
  "less_eq_level a b = (level_num a \<le> level_num b)"

definition less_level :: "level \<Rightarrow> level \<Rightarrow> bool" where
  "less_level a b = (level_num a < level_num b)"

instance
  by standard (auto simp: less_eq_level_def less_level_def)

end

lemma UNKNOW_least [simp]: "UNKNOW \<le> l"
  by (cases l) (simp_all add: less_eq_level_def)

lemma FATAL_greatest [simp]: "l \<le> FATAL"
  by (cases l) (simp_all add: less_eq_level_def)

fun ToString :: "level \<Rightarrow> string" where
  "ToString DEBUG = ''DEBUG''"
| "ToString INFO = ''INFO''"
| "ToString WARN = ''WARN''"
| "ToString ERROR = ''ERROR''"
| "ToString FATAL = ''FATAL''"
| "ToString UNKNOW = ''UNKNOW''"

definition FromString :: "string \<Rightarrow> level" where
  "FromString str =
     (if str = ''debug'' then DEBUG
      else if str = ''info'' then INFO
      else if str = ''warn'' then WARN
      else if str = ''error'' then ERROR
      else if str = ''fatal'' then FATAL
      else if str = ''DEBUG'' then DEBUG
      else if str = ''INFO'' then INFO
      else if str = ''WARN'' then WARN
      else if str = ''ERROR'' then ERROR
      else if str = ''FATAL'' then FATAL
      else UNKNOW)"

lemma FromString_ToString [simp]: "FromString (ToString l) = l"
  by (cases l) (simp_all add: FromString_def)

lemma ToString_inj [simp]: "ToString a = ToString b \<longleftrightarrow> a = b"
  by (metis FromString_ToString)

lemma ToString_nonempty [simp]: "ToString l \<noteq> []"
  by (cases l) simp_all

text \<open>The names that are recognised are the five levels, all capitals or all small.\<close>

lemma FromString_lower [simp]: "FromString (map tolower (ToString l)) = l"
  by (cases l) (simp_all add: FromString_def tolower_def char_eval)

lemma FromString_known_iff:
  "FromString s \<noteq> UNKNOW \<longleftrightarrow>
     (\<exists>l. l \<noteq> UNKNOW \<and> (s = ToString l \<or> s = map tolower (ToString l)))"
proof
  assume known: "FromString s \<noteq> UNKNOW"
  then have "s = ToString (FromString s) \<or> s = map tolower (ToString (FromString s))"
    by (simp add: FromString_def tolower_def char_eval split: if_splits)
  with known show "\<exists>l. l \<noteq> UNKNOW \<and> (s = ToString l \<or> s = map tolower (ToString l))"
    by blast
next
  assume "\<exists>l. l \<noteq> UNKNOW \<and> (s = ToString l \<or> s = map tolower (ToString l))"
  then show "FromString s \<noteq> UNKNOW"
    by (metis FromString_ToString FromString_lower)
qed

end
