(* ===== verification/Log_Event.thy ===== *)
theory Log_Event
  imports Log_Level
begin

text \<open>
  \<open>LogEvent\<close> of \<open>sylar/log.h\<close> and \<open>sylar/log.cc\<close>: the record of one message, its constructor,
  its getters (the record selectors) and the printf-style \<open>format\<close>. The \<open>stringstream\<close>
  member is the string streamed into it so far; the logger is a pointer into the heap of the
  theory \<open>Logger\<close>. What \<open>vasprintf\<close> makes of its arguments is an argument of the model, since
  its text depends on the caller's varargs; \<open>None\<close> is its result \<open>-1\<close>.
\<close>

type_synonym logger_ptr = nat

record log_event =
  m_file :: string
  m_line :: i32
  m_elapse :: u32
  m_threadId :: u32
  m_fiberId :: u32
  m_ss :: string
  m_time :: u64
  m_logger :: logger_ptr
  m_level :: level

definition LogEvent ::
  "logger_ptr \<Rightarrow> level \<Rightarrow> string \<Rightarrow> i32 \<Rightarrow> u32 \<Rightarrow> u32 \<Rightarrow> u32 \<Rightarrow> u64 \<Rightarrow> log_event" where
  "LogEvent logger level file line elapse thread_id fiber_id time =
     \<lparr>m_file = file, m_line = line, m_elapse = elapse, m_threadId = thread_id,
      m_fiberId = fiber_id, m_ss = [], m_time = time, m_logger = logger, m_level = level\<rparr>"

text \<open>\<open>getContent\<close>: the text of the stream.\<close>

definition getContent :: "log_event \<Rightarrow> string" where
  "getContent e = m_ss e"

text \<open>\<open>e.getSS() << s\<close>.\<close>

definition stream_into :: "string \<Rightarrow> log_event \<Rightarrow> log_event" where
  "stream_into s e = e\<lparr>m_ss := m_ss e @ s\<rparr>"

definition event_format :: "string option \<Rightarrow> log_event \<Rightarrow> log_event" where
  "event_format buf e =
     (case buf of
        None \<Rightarrow> e
      | Some b \<Rightarrow> stream_into b e)"

text \<open>\<open>GetFiberId\<close> of \<open>sylar/util.cc\<close>: there are no fibers yet.\<close>

definition GetFiberId :: u32 where
  "GetFiberId = 0"

text \<open>
  \<open>GetThreadId\<close>: the number the kernel gives (\<open>gettid\<close>), a \<open>pid_t\<close>; as the
  \<open>uint32_t thread_id\<close> of an event it keeps its bits.
\<close>

definition GetThreadId :: "int \<Rightarrow> u32" where
  "GetThreadId tid = word_of_int tid"

lemma event_format_getters [simp]:
  "m_file (event_format b e) = m_file e" "m_line (event_format b e) = m_line e"
  "m_elapse (event_format b e) = m_elapse e" "m_threadId (event_format b e) = m_threadId e"
  "m_fiberId (event_format b e) = m_fiberId e" "m_time (event_format b e) = m_time e"
  "m_logger (event_format b e) = m_logger e" "m_level (event_format b e) = m_level e"
  by (simp_all add: event_format_def stream_into_def split: option.split)

lemma stream_into_append: "stream_into t (stream_into s e) = stream_into (s @ t) e"
  by (simp add: stream_into_def)

lemma getContent_LogEvent [simp]:
  "getContent (stream_into s (LogEvent l lv f n el t fb tm)) = s"
  by (simp add: getContent_def stream_into_def LogEvent_def)

end
