(* ===== verification/C_Time.thy ===== *)
theory C_Time
  imports Prelude
begin

text \<open>
  The part of the C library's \<open><time.h>\<close> that \<open>DateTimeFormatItem\<close> calls. \<open>localtime_r\<close>
  depends on the time zone of the machine and is a field of the environment (\<open>None\<close> when it
  fails). \<open>strftime\<close> is that of the C locale, which the program never changes; conversions
  outside the table below (glibc extensions, the ISO week, the zone) are a field of the
  environment as well: it receives the text after the percent sign and answers with the output
  and the number of bytes it consumed.
\<close>

record tm =
  tm_sec :: int
  tm_min :: int
  tm_hour :: int
  tm_mday :: int
  tm_mon :: int
  tm_year :: int
  tm_wday :: int
  tm_yday :: int

record time_env =
  env_localtime :: "int \<Rightarrow> tm option"
  env_strftime_ext :: "string \<Rightarrow> tm \<Rightarrow> string \<times> nat"

definition num2 :: "int \<Rightarrow> string" where
  "num2 i = pad_left (CHR ''0'') 2 (show_int i)"

definition nth_name :: "string list \<Rightarrow> int \<Rightarrow> string" where
  "nth_name xs i = (if 0 \<le> i \<and> nat i < length xs then xs ! nat i else ''?'')"

definition day_names :: "string list" where
  "day_names = [''Sunday'', ''Monday'', ''Tuesday'', ''Wednesday'', ''Thursday'', ''Friday'',
    ''Saturday'']"

definition month_names :: "string list" where
  "month_names = [''January'', ''February'', ''March'', ''April'', ''May'', ''June'', ''July'',
    ''August'', ''September'', ''October'', ''November'', ''December'']"

definition ymd :: "tm \<Rightarrow> string" where
  "ymd t = show_int (tm_year t + 1900) @ ''-'' @ num2 (tm_mon t + 1) @ ''-'' @ num2 (tm_mday t)"

definition hms :: "tm \<Rightarrow> string" where
  "hms t = num2 (tm_hour t) @ '':'' @ num2 (tm_min t) @ '':'' @ num2 (tm_sec t)"

text \<open>The conversions of the table: \<open>None\<close> where the environment decides.\<close>

definition strftime_conv :: "char \<Rightarrow> tm \<Rightarrow> string option" where
  "strftime_conv c t =
     (if c = CHR ''Y'' then Some (show_int (tm_year t + 1900))
      else if c = CHR ''m'' then Some (num2 (tm_mon t + 1))
      else if c = CHR ''d'' then Some (num2 (tm_mday t))
      else if c = CHR ''H'' then Some (num2 (tm_hour t))
      else if c = CHR ''M'' then Some (num2 (tm_min t))
      else if c = CHR ''S'' then Some (num2 (tm_sec t))
      else if c = CHR ''y'' then Some (num2 ((tm_year t + 1900) mod 100))
      else if c = CHR ''e'' then Some (pad_left (CHR '' '') 2 (show_int (tm_mday t)))
      else if c = CHR ''j'' then Some (pad_left (CHR ''0'') 3 (show_int (tm_yday t + 1)))
      else if c = CHR ''I'' then
        Some (num2 (if tm_hour t mod 12 = 0 then 12 else tm_hour t mod 12))
      else if c = CHR ''p'' then Some (if 12 \<le> tm_hour t then ''PM'' else ''AM'')
      else if c = CHR ''A'' then Some (nth_name day_names (tm_wday t))
      else if c = CHR ''a'' then Some (take 3 (nth_name day_names (tm_wday t)))
      else if c = CHR ''B'' then Some (nth_name month_names (tm_mon t))
      else if c = CHR ''b'' \<or> c = CHR ''h'' then Some (take 3 (nth_name month_names (tm_mon t)))
      else if c = CHR ''w'' then Some (show_int (tm_wday t))
      else if c = CHR ''F'' then Some (ymd t)
      else if c = CHR ''T'' then Some (hms t)
      else if c = CHR ''R'' then Some (num2 (tm_hour t) @ '':'' @ num2 (tm_min t))
      else if c = CHR ''D'' then
        Some (num2 (tm_mon t + 1) @ ''/'' @ num2 (tm_mday t) @ ''/''
          @ num2 ((tm_year t + 1900) mod 100))
      else if c = CHR ''n'' then Some [CHR 0x0A]
      else if c = CHR ''t'' then Some [CHR 0x09]
      else if c = CHR ''%'' then Some ''%''
      else None)"

function strftime_text ::
  "(string \<Rightarrow> tm \<Rightarrow> string \<times> nat) \<Rightarrow> string \<Rightarrow> tm \<Rightarrow> string" where
  "strftime_text ext [] t = []"
| "strftime_text ext (x # rest) t =
     (if x \<noteq> CHR ''%'' then x # strftime_text ext rest t
      else case rest of
        [] \<Rightarrow> ''%''
      | c # rest' \<Rightarrow>
          (case strftime_conv c t of
             Some s \<Rightarrow> s @ strftime_text ext rest' t
           | None \<Rightarrow> fst (ext rest t) @ strftime_text ext (drop (snd (ext rest t)) rest) t))"
  by pat_completeness auto
termination
  by (relation "measure (\<lambda>(ext, s, t). length s)") auto

text \<open>
  \<open>strftime(buf, maxsize, format, &tm)\<close>: \<open>Some\<close> of the text in the buffer. If the text and its
  terminating NUL do not fit, the call returns 0 and the contents of the buffer are indeterminate.
\<close>

definition strftime :: "time_env \<Rightarrow> nat \<Rightarrow> string \<Rightarrow> tm \<Rightarrow> string option" where
  "strftime E maxsize format t =
     (let s = strftime_text (env_strftime_ext E) (c_str format) t
      in if length s < maxsize then Some (c_str s) else None)"

lemma strftime_fits: "strftime E maxsize f t = Some s \<Longrightarrow> length s < maxsize"
  using length_c_str [of "strftime_text (env_strftime_ext E) (c_str f) t"]
  by (auto simp: strftime_def Let_def split: if_splits)

text \<open>Without a percent sign the text is copied.\<close>

lemma strftime_text_plain: "CHR ''%'' \<notin> set f \<Longrightarrow> strftime_text ext f t = f"
  by (induction f) auto

lemma c_str_plain: "\<forall>c\<in>set s. byte c \<noteq> 0 \<Longrightarrow> c_str s = s"
  by (simp add: c_str_def)

lemma strftime_plain:
  assumes "CHR ''%'' \<notin> set f" and "\<forall>c\<in>set f. byte c \<noteq> 0"
  shows "strftime E maxsize f t = (if length f < maxsize then Some f else None)"
  using assms by (simp add: strftime_def c_str_plain strftime_text_plain)

section \<open>The default date format\<close>

text \<open>The ranges \<open>localtime_r\<close> fills a \<open>struct tm\<close> with (a leap second included).\<close>

definition valid_tm :: "tm \<Rightarrow> bool" where
  "valid_tm t =
     (0 \<le> tm_sec t \<and> tm_sec t \<le> 60 \<and> 0 \<le> tm_min t \<and> tm_min t \<le> 59 \<and>
      0 \<le> tm_hour t \<and> tm_hour t \<le> 23 \<and> 1 \<le> tm_mday t \<and> tm_mday t \<le> 31 \<and>
      0 \<le> tm_mon t \<and> tm_mon t \<le> 11 \<and> \<bar>tm_year t\<bar> \<le> 2 ^ 31)"

lemma length_num2: "0 \<le> i \<Longrightarrow> i < 100 \<Longrightarrow> length (num2 i) = 2"
  using length_show_int_nonneg [of i 2] by (simp add: num2_def)

lemma num2_chars: "c \<in> set (num2 i) \<Longrightarrow> 45 \<le> byte c \<and> byte c \<le> 57"
  using set_pad_left [of "CHR ''0''" 2 "show_int i"] by (auto simp: num2_def dest: show_int_chars)

lemma ymd_hms_chars: "c \<in> set (ymd t @ '' '' @ hms t) \<Longrightarrow> byte c \<noteq> 0"
  by (auto simp: ymd_def hms_def dest!: num2_chars show_int_chars)

lemma length_ymd_hms:
  assumes "valid_tm t"
  shows "length (ymd t @ '' '' @ hms t) < 64"
proof -
  have "\<bar>tm_year t\<bar> \<le> 2147483648" using assms by (simp add: valid_tm_def)
  then have "\<bar>tm_year t + 1900\<bar> < 10 ^ 10" by simp
  then have "length (show_int (tm_year t + 1900)) \<le> 11"
    using length_show_int [of "tm_year t + 1900" 10] by simp
  with assms show ?thesis by (simp add: ymd_def hms_def valid_tm_def length_num2)
qed

lemma strftime_default:
  assumes "valid_tm t"
  shows "strftime E 64 ''%Y-%m-%d %H:%M:%S'' t = Some (ymd t @ '' '' @ hms t)"
proof -
  have "c_str ''%Y-%m-%d %H:%M:%S'' = ''%Y-%m-%d %H:%M:%S''" by (simp add: c_str_def)
  moreover have "strftime_text ext ''%Y-%m-%d %H:%M:%S'' t = ymd t @ '' '' @ hms t" for ext
    by (simp add: strftime_conv_def ymd_def hms_def)
  moreover have "c_str (ymd t @ '' '' @ hms t) = ymd t @ '' '' @ hms t"
    by (rule c_str_plain) (use ymd_hms_chars in blast)
  ultimately show ?thesis
    using length_ymd_hms [OF assms] by (simp add: strftime_def del: append_assoc)
qed

end
