(* ===== verification/Log_Formatter.thy ===== *)
theory Log_Formatter
  imports Log_Event C_Time
begin

text \<open>
  \<open>LogFormatter\<close> and its \<open>FormatItem\<close> classes (\<open>sylar/log.cc\<close>): the items and what each
  writes, the parser of patterns (\<open>init\<close>, two nested loops over indices of the pattern, kept as
  two recursive functions over the same indices), the table of item letters and \<open>format\<close>.
\<close>

section \<open>Format items\<close>

datatype format_item =
    MessageFormatItem
  | LevelFormatItem
  | ElaspseFormatItem
  | NameFormatItem
  | ThreadIdFormatItem
  | FiberIdFormatItem
  | DateTimeFormatItem string
  | FilenameFormatItem
  | LineFormatItem
  | NewLineFormatItem
  | StringFormatItem string
  | TabFormatItem

definition default_date_format :: string where
  "default_date_format = ''%Y-%m-%d %H:%M:%S''"

text \<open>The constructor of \<open>DateTimeFormatItem\<close>: an empty format is the default one.\<close>

definition new_DateTimeFormatItem :: "string \<Rightarrow> format_item" where
  "new_DateTimeFormatItem format =
     DateTimeFormatItem (if format = [] then default_date_format else format)"

text \<open>\<open>DateTimeFormatItem::format\<close>: a buffer of 64 bytes, printed up to its NUL.\<close>

definition format_date_time :: "time_env \<Rightarrow> string \<Rightarrow> u64 \<Rightarrow> error + string" where
  "format_date_time E format t =
     (case env_localtime E (sint t) of
        None \<Rightarrow> Inl (Undefined Indeterminate_Value)
      | Some tm \<Rightarrow>
          (case strftime E 64 format tm of
             None \<Rightarrow> Inl (Undefined Indeterminate_Value)
           | Some buf \<Rightarrow> Inr buf))"

text \<open>
  The virtual \<open>FormatItem::format\<close>: the text an item appends to the stream. Of the logger only
  its name is read.
\<close>

fun format_item_text :: "time_env \<Rightarrow> string \<Rightarrow> level \<Rightarrow> log_event \<Rightarrow> format_item \<Rightarrow> error + string" where
  "format_item_text E name lv ev MessageFormatItem = Inr (getContent ev)"
| "format_item_text E name lv ev LevelFormatItem = Inr (ToString lv)"
| "format_item_text E name lv ev ElaspseFormatItem = Inr (getContent ev)"
| "format_item_text E name lv ev NameFormatItem = Inr name"
| "format_item_text E name lv ev ThreadIdFormatItem = Inr (show_int (uint (m_threadId ev)))"
| "format_item_text E name lv ev FiberIdFormatItem = Inr (show_int (uint (m_fiberId ev)))"
| "format_item_text E name lv ev (DateTimeFormatItem f) = format_date_time E f (m_time ev)"
| "format_item_text E name lv ev FilenameFormatItem = Inr (m_file ev)"
| "format_item_text E name lv ev LineFormatItem = Inr (show_int (sint (m_line ev)))"
| "format_item_text E name lv ev NewLineFormatItem = Inr [CHR 0x0A]"
| "format_item_text E name lv ev (StringFormatItem s) = Inr s"
| "format_item_text E name lv ev TabFormatItem = Inr [CHR 0x09]"

text \<open>The loop of \<open>LogFormatter::format\<close> over the items, one stream for all of them.\<close>

fun format_items :: "time_env \<Rightarrow> string \<Rightarrow> level \<Rightarrow> log_event \<Rightarrow> format_item list \<Rightarrow> error + string" where
  "format_items E name lv ev [] = Inr []"
| "format_items E name lv ev (i # is) =
     (case format_item_text E name lv ev i of
        Inl e \<Rightarrow> Inl e
      | Inr s \<Rightarrow> (case format_items E name lv ev is of Inl e \<Rightarrow> Inl e | Inr t \<Rightarrow> Inr (s @ t)))"

section \<open>The formatter object\<close>

datatype log_formatter =
  LogFormatter_object
    (lf_pattern: string)
    (lf_formatter: "log_formatter option")
    (lf_items: "format_item list")
    (lf_error: bool)
    (lf_hasFormatter: bool)

definition isError :: "log_formatter \<Rightarrow> bool" where
  "isError f = lf_error f"

definition getPattern :: "log_formatter \<Rightarrow> string" where
  "getPattern f = lf_pattern f"

text \<open>\<open>LogFormatter::setFormatter\<close>, which nothing else reads.\<close>

fun lf_setFormatter :: "log_formatter option \<Rightarrow> log_formatter \<Rightarrow> log_formatter" where
  "lf_setFormatter fm (LogFormatter_object p _ is er _) =
     LogFormatter_object p fm is er (fm \<noteq> None)"

definition lf_format :: "time_env \<Rightarrow> string \<Rightarrow> level \<Rightarrow> log_event \<Rightarrow> log_formatter \<Rightarrow> error + string" where
  "lf_format E name lv ev f = format_items E name lv ev (lf_items f)"

text \<open>The pattern every logger starts with.\<close>

definition default_pattern :: string where
  "default_pattern = ''%d{%Y-%m-%d %H:%M:%S}%T [%p]%T[%t]%T[%c]%T %f:%l%T %m  %n''"

section \<open>The pattern parser\<close>

text \<open>
  The inner \<open>while\<close> of \<open>init\<close>: from the percent sign at \<open>i\<close>, with \<open>n\<close> running. The result is
  \<open>(n, fmt_status, fmt, str)\<close> after the loop.
\<close>

function scan_item ::
  "string \<Rightarrow> nat \<Rightarrow> nat \<Rightarrow> nat \<Rightarrow> nat \<Rightarrow> string \<Rightarrow> string \<Rightarrow> nat \<times> nat \<times> string \<times> string" where
  "scan_item p i n fmt_status fmt_begin fmt str =
     (if n < length p then
        if fmt_status = 0 \<and> \<not> isalpha (p ! n) \<and> p ! n \<noteq> CHR ''{'' \<and> p ! n \<noteq> CHR ''}''
        then (n, fmt_status, fmt, substr p (i + 1) (n - i - 1))
        else if fmt_status = 0 \<and> p ! n = CHR ''{''
        then scan_item p i (n + 1) 1 n fmt (substr p (i + 1) (n - i - 1))
        else if fmt_status = 1 \<and> p ! n = CHR ''}''
        then (n + 1, 0, substr p (fmt_begin + 1) (n - fmt_begin - 1), str)
        else scan_item p i (n + 1) fmt_status fmt_begin fmt
               (if n + 1 = length p \<and> str = [] then drop (i + 1) p else str)
      else (n, fmt_status, fmt, str))"
  by pat_completeness auto
termination
  by (relation "measure (\<lambda>(p, i, n, _). length p - n)") auto

declare scan_item.simps [simp del]

text \<open>
  The entries of the local \<open>vec\<close>: text, format, and type (0 a literal, 1 an item). \<open>flush\<close> is
  the block that appends a pending literal and clears it.
\<close>

type_synonym pattern_entry = "string \<times> string \<times> nat"

definition flush :: "string \<Rightarrow> pattern_entry list" where
  "flush nstr = (if nstr = [] then [] else [(nstr, [], 0)])"

text \<open>The \<open>fmt_status\<close> the scan returns is 0 or 1, and it never moves backwards.\<close>

lemma scan_item_bounds:
  "scan_item p i n st b fmt str = (n', st', fmt', str') \<Longrightarrow> n \<le> length p \<Longrightarrow>
     n \<le> n' \<and> n' \<le> length p \<and> (st \<le> 1 \<longrightarrow> st' \<le> 1)"
proof (induction p i n st b fmt str rule: scan_item.induct)
  case (1 p i n st b fmt str)
  show ?case
    using "1.prems" "1.IH"
    by (auto simp: scan_item.simps [of p i n st b fmt str] split: if_splits)
qed

text \<open>
  The outer \<open>for\<close>: the index, \<open>vec\<close> and \<open>nstr\<close>. The result is \<open>vec\<close> after the loop and after
  the final flush, together with what was printed on standard output. In the source the branch of
  status 0 sets \<open>i = n - 1\<close> and the loop header adds one.
\<close>

definition pattern_error_message :: "string \<Rightarrow> nat \<Rightarrow> string" where
  "pattern_error_message p i = ''pattern parse error:'' @ p @ '' - '' @ drop i p @ [CHR 0x0A]"

function init_loop ::
  "string \<Rightarrow> nat \<Rightarrow> pattern_entry list \<Rightarrow> string \<Rightarrow> string \<Rightarrow> pattern_entry list \<times> string" where
  "init_loop p i vec nstr out =
     (if i < length p then
        if p ! i \<noteq> CHR ''%'' then init_loop p (i + 1) vec (nstr @ [p ! i]) out
        else if i + 1 < length p \<and> p ! (i + 1) = CHR ''%''
        then init_loop p (i + 1) vec (nstr @ ''%'') out
        else
          (case scan_item p i (i + 1) 0 0 [] [] of
             (n, fmt_status, fmt, str) \<Rightarrow>
               if fmt_status = 0 then init_loop p n (vec @ flush nstr @ [(str, fmt, 1)]) [] out
               else if fmt_status = 1 then
                 init_loop p (i + 1) (vec @ [(''<<pattern_error>>'', fmt, 0)]) nstr
                   (out @ pattern_error_message p i)
               else if fmt_status = 2 then
                 init_loop p (n + 1) (vec @ flush nstr @ [(str, fmt, 1)]) [] out
               else init_loop p (i + 1) vec nstr out)
      else (vec @ flush nstr, out))"
  by pat_completeness auto
termination
  by (relation "measure (\<lambda>(p, i, _). length p - i)")
    (auto dest!: scan_item_bounds [OF sym])

declare init_loop.simps [simp del]

text \<open>The table \<open>s_format_items\<close>: a letter and the constructor call it stands for.\<close>

definition s_format_items :: "(string \<times> (string \<Rightarrow> format_item)) list" where
  "s_format_items =
     [(''m'', \<lambda>fmt. MessageFormatItem), (''p'', \<lambda>fmt. LevelFormatItem),
      (''r'', \<lambda>fmt. ElaspseFormatItem), (''c'', \<lambda>fmt. NameFormatItem),
      (''t'', \<lambda>fmt. ThreadIdFormatItem), (''d'', new_DateTimeFormatItem),
      (''f'', \<lambda>fmt. FilenameFormatItem), (''l'', \<lambda>fmt. LineFormatItem),
      (''n'', \<lambda>fmt. NewLineFormatItem), (''T'', \<lambda>fmt. TabFormatItem),
      (''F'', \<lambda>fmt. FiberIdFormatItem)]"

text \<open>The last loop of \<open>init\<close>: one item per entry, and whether it sets \<open>m_error\<close>.\<close>

fun entry_item :: "pattern_entry \<Rightarrow> format_item" where
  "entry_item (str, fmt, ty) =
     (if ty = 0 then StringFormatItem str
      else case map_of s_format_items str of
        None \<Rightarrow> StringFormatItem (''<<error_format %'' @ str @ ''>>'')
      | Some mk \<Rightarrow> mk fmt)"

fun entry_error :: "pattern_entry \<Rightarrow> bool" where
  "entry_error (str, fmt, ty) = (ty \<noteq> 0 \<and> map_of s_format_items str = None)"

definition init_vec :: "string \<Rightarrow> pattern_entry list" where
  "init_vec p = fst (init_loop p 0 [] [] [])"

text \<open>The constructor: the new object, and what \<open>init\<close> printed.\<close>

definition LogFormatter :: "string \<Rightarrow> log_formatter" where
  "LogFormatter p =
     LogFormatter_object p None (map entry_item (init_vec p)) (list_ex entry_error (init_vec p)) False"

definition LogFormatter_output :: "string \<Rightarrow> string" where
  "LogFormatter_output p = snd (init_loop p 0 [] [] [])"

end
