(* ===== verification/Log_Pattern.thy ===== *)
theory Log_Pattern
  imports Log_Formatter
begin

text \<open>
  What the pattern parser of \<open>Log_Formatter\<close> does. An abstract syntax of patterns (literals and
  items) with its concrete form is the specification; the parser reads back every well-formed
  sequence of tokens, and its behaviour on the malformed patterns is stated exactly.
\<close>

section \<open>Abstract syntax\<close>

datatype token =
    Lit string
  | Item string "string option"   \<comment> \<open>key, and the text in braces\<close>

fun render_token :: "token \<Rightarrow> string" where
  "render_token (Lit s) = s"
| "render_token (Item k None) = CHR ''%'' # k"
| "render_token (Item k (Some f)) = CHR ''%'' # k @ ''{'' @ f @ ''}''"

definition render :: "token list \<Rightarrow> string" where
  "render ts = concat (map render_token ts)"

text \<open>A character that ends a key.\<close>

definition key_stop :: "char \<Rightarrow> bool" where
  "key_stop c = (\<not> isalpha c \<and> c \<noteq> CHR ''{'' \<and> c \<noteq> CHR ''}'')"

fun tokens_ok :: "token list \<Rightarrow> bool" where
  "tokens_ok [] = True"
| "tokens_ok (Lit s # ts) =
     (s \<noteq> [] \<and> CHR ''%'' \<notin> set s \<and> (case ts of Lit _ # _ \<Rightarrow> False | _ \<Rightarrow> True) \<and> tokens_ok ts)"
| "tokens_ok (Item k (Some f) # ts) = (list_all isalpha k \<and> CHR ''}'' \<notin> set f \<and> tokens_ok ts)"
| "tokens_ok (Item k None # ts) =
     (k \<noteq> [] \<and> list_all isalpha k \<and>
      (case ts of Lit (c # _) # _ \<Rightarrow> key_stop c | _ \<Rightarrow> True) \<and> tokens_ok ts)"

fun token_entry :: "token \<Rightarrow> pattern_entry" where
  "token_entry (Lit s) = (s, [], 0)"
| "token_entry (Item k fo) = (k, case fo of None \<Rightarrow> [] | Some f \<Rightarrow> f, 1)"

lemma render_simps [simp]:
  "render [] = []" "render (t # ts) = render_token t @ render ts"
  by (simp_all add: render_def)

lemma isalpha_specials [simp]:
  "\<not> isalpha (CHR ''%'')" "\<not> isalpha (CHR ''{'')" "\<not> isalpha (CHR ''}'')"
  by (simp_all add: isalpha_def)

lemma key_stop_percent [simp]: "key_stop (CHR ''%'')"
  by (simp add: key_stop_def)

lemma isalpha_not_special [dest]:
  "isalpha c \<Longrightarrow> c \<noteq> CHR ''%'' \<and> c \<noteq> CHR ''{'' \<and> c \<noteq> CHR ''}''"
  by auto

section \<open>The inner loop\<close>

text \<open>
  All lemmas describe the pattern as a prefix that has been read and what follows; the loop
  indices are the lengths of these parts.
\<close>

lemma scan_key:
  assumes "list_all isalpha k" and "p = pre @ k @ c # rest" and "n = length pre"
  shows "scan_item p i n 0 b fmt str = scan_item p i (n + length k) 0 b fmt str"
  using assms
proof (induction k arbitrary: pre n)
  case Nil
  then show ?case by simp
next
  case (Cons x k)
  then have "isalpha x" and x: "p ! n = x" and "n + 1 < length p" by (simp_all add: nth_append)
  then have "scan_item p i n 0 b fmt str = scan_item p i (n + 1) 0 b fmt str"
    by (subst scan_item.simps) auto
  with Cons.IH [of "pre @ [x]" "n + 1"] Cons.prems show ?case by simp
qed

lemma scan_body:
  assumes "CHR ''}'' \<notin> set f" and "p = pre @ f @ c # rest" and "n = length pre"
  shows "scan_item p i n 1 b fmt str = scan_item p i (n + length f) 1 b fmt str"
  using assms
proof (induction f arbitrary: pre n)
  case Nil
  then show ?case by simp
next
  case (Cons x f)
  then have "x \<noteq> CHR ''}''" and x: "p ! n = x" and "n + 1 < length p"
    by (auto simp: nth_append)
  then have "scan_item p i n 1 b fmt str = scan_item p i (n + 1) 1 b fmt str"
    by (subst scan_item.simps) auto
  with Cons.IH [of "pre @ [x]" "n + 1"] Cons.prems show ?case by simp
qed

text \<open>The four ways the loop ends.\<close>

lemma scan_stop:
  assumes k: "list_all isalpha k" and p: "p = pre @ CHR ''%'' # k @ c # rest" and c: "key_stop c"
  shows "scan_item p (length pre) (length pre + 1) 0 0 [] [] = (length pre + 1 + length k, 0, [], k)"
proof -
  let ?n = "length pre + 1 + length k"
  have "p ! ?n = c" and "?n < length p" and "substr p (length pre + 1) (length k) = k"
    by (simp_all add: p nth_append substr_def)
  with c have "scan_item p (length pre) ?n 0 0 [] [] = (?n, 0, [], k)"
    by (subst scan_item.simps) (auto simp: key_stop_def)
  with scan_key [OF k, of p "pre @ ''%''" c rest] p show ?thesis by simp
qed

lemma scan_end:
  assumes k: "list_all isalpha k" and p: "p = pre @ CHR ''%'' # k"
  shows "scan_item p (length pre) (length pre + 1) 0 0 [] [] = (length p, 0, [], k)"
proof (cases k rule: rev_cases)
  case Nil
  with p show ?thesis by (subst scan_item.simps) simp
next
  case (snoc k' x)
  let ?n = "length pre + 1 + length k'"
  have "p ! ?n = x" and "?n + 1 = length p" and "drop (length pre + 1) p = k"
    by (simp_all add: p snoc nth_append)
  moreover have "isalpha x" using k snoc by simp
  ultimately have "scan_item p (length pre) ?n 0 0 [] [] = scan_item p (length pre) (length p) 0 0 [] k"
    by (subst scan_item.simps) auto
  also have "\<dots> = (length p, 0, [], k)" by (subst scan_item.simps) simp
  finally show ?thesis
    using scan_key [of k' p "pre @ ''%''" x "[]"] k p snoc by simp
qed

lemma scan_open:
  assumes k: "list_all isalpha k" and p: "p = pre @ CHR ''%'' # k @ CHR ''{'' # rest"
  shows "scan_item p (length pre) (length pre + 1) 0 0 [] [] =
    scan_item p (length pre) (length pre + 2 + length k) 1 (length pre + 1 + length k) [] k"
proof -
  let ?n = "length pre + 1 + length k"
  have "p ! ?n = CHR ''{''" and "?n < length p" and "substr p (length pre + 1) (length k) = k"
    by (simp_all add: p nth_append substr_def)
  then have "scan_item p (length pre) ?n 0 0 [] [] = scan_item p (length pre) (?n + 1) 1 ?n [] k"
    by (subst scan_item.simps) auto
  with scan_key [OF k, of p "pre @ ''%''" "CHR ''{''" rest] p show ?thesis by simp
qed

lemma scan_braces:
  assumes k: "list_all isalpha k" and f: "CHR ''}'' \<notin> set f"
    and p: "p = pre @ CHR ''%'' # k @ CHR ''{'' # f @ CHR ''}'' # rest"
  shows "scan_item p (length pre) (length pre + 1) 0 0 [] [] =
    (length pre + 3 + length k + length f, 0, f, k)"
proof -
  let ?b = "length pre + 1 + length k" and ?n = "length pre + 2 + length k + length f"
  have "p ! ?n = CHR ''}''" and "?n < length p"
    and sub: "substr p (?b + 1) (length f) = f"
    by (simp_all add: p nth_append substr_def)
  then have "scan_item p (length pre) ?n 1 ?b [] k = (?n + 1, 0, f, k)"
    by (subst scan_item.simps) auto
  with scan_body [OF f, of p "pre @ ''%'' @ k @ ''{''" "CHR ''}''" rest] scan_open [OF k] p
  show ?thesis by simp
qed

lemma scan_unclosed:
  assumes k: "list_all isalpha k" and f: "CHR ''}'' \<notin> set f"
    and p: "p = pre @ CHR ''%'' # k @ CHR ''{'' # f"
  shows "\<exists>str. scan_item p (length pre) (length pre + 1) 0 0 [] [] = (length p, 1, [], str)"
proof (cases f rule: rev_cases)
  case Nil
  with scan_open [OF k p] p show ?thesis
    by (subst (asm) (2) scan_item.simps) simp
next
  case (snoc f' x)
  let ?n = "length pre + 2 + length k + length f'" and ?b = "length pre + 1 + length k"
  have "p ! ?n = x" and "?n + 1 = length p" and "x \<noteq> CHR ''}''"
    using f by (auto simp: p snoc nth_append)
  then have "\<exists>str. scan_item p (length pre) ?n 1 ?b [] k = scan_item p (length pre) (length p) 1 ?b [] str"
    by (subst scan_item.simps) auto
  then have "\<exists>str. scan_item p (length pre) ?n 1 ?b [] k = (length p, 1, [], str)"
    by (subst (asm) (2) scan_item.simps) simp
  moreover have "CHR ''}'' \<notin> set f'" using f snoc by simp
  ultimately show ?thesis
    using scan_body [of f' p "pre @ ''%'' @ k @ ''{''" x "[]"] scan_open [OF k p] p snoc by simp
qed


section \<open>The outer loop\<close>

lemma init_end: "init_loop p (length p) vec nstr out = (vec @ flush nstr, out)"
  by (subst init_loop.simps) simp

lemma init_literal:
  assumes "CHR ''%'' \<notin> set s" and "p = pre @ s @ rest" and "i = length pre"
  shows "init_loop p i vec nstr out = init_loop p (i + length s) vec (nstr @ s) out"
  using assms
proof (induction s arbitrary: pre i nstr)
  case Nil
  then show ?case by simp
next
  case (Cons x s)
  then have "x \<noteq> CHR ''%''" and "p ! i = x" and "i < length p" by (auto simp: nth_append)
  then have "init_loop p i vec nstr out = init_loop p (i + 1) vec (nstr @ [x]) out"
    by (subst init_loop.simps) simp
  with Cons.IH [of "pre @ [x]" "i + 1" "nstr @ [x]"] Cons.prems show ?case by simp
qed

text \<open>One percent sign that no other follows is the start of an item.\<close>

lemma init_item:
  assumes p: "p = pre @ CHR ''%'' # rest" and rest: "rest = [] \<or> hd rest \<noteq> CHR ''%''"
    and scan: "scan_item p (length pre) (length pre + 1) 0 0 [] [] = (n, 0, fmt, str)"
  shows "init_loop p (length pre) vec nstr out =
    init_loop p n (vec @ flush nstr @ [(str, fmt, 1)]) [] out"
proof -
  have "p ! length pre = CHR ''%''" and "length pre < length p" by (simp_all add: p)
  moreover have "(length pre + 1 < length p \<and> p ! (length pre + 1) = CHR ''%'') = False"
    using rest by (cases rest) (auto simp: p nth_append)
  ultimately show ?thesis by (subst init_loop.simps) (auto simp: scan simp del: One_nat_def)
qed

lemma init_percent_percent:
  assumes p: "p = pre @ CHR ''%'' # CHR ''%'' # rest"
  shows "init_loop p (length pre) vec nstr out = init_loop p (length pre + 1) vec (nstr @ ''%'') out"
proof -
  have "p ! length pre = CHR ''%''" "p ! (length pre + 1) = CHR ''%''" "length pre + 1 < length p"
    by (simp_all add: p nth_append)
  then show ?thesis by (subst init_loop.simps) simp
qed

lemma init_pattern_error:
  assumes p: "p = pre @ CHR ''%'' # rest" and rest: "hd rest \<noteq> CHR ''%''" "rest \<noteq> []"
    and scan: "scan_item p (length pre) (length pre + 1) 0 0 [] [] = (n, 1, fmt, str)"
  shows "init_loop p (length pre) vec nstr out =
    init_loop p (length pre + 1) (vec @ [(''<<pattern_error>>'', fmt, 0)]) nstr
      (out @ pattern_error_message p (length pre))"
proof -
  have "p ! length pre = CHR ''%''" and "length pre < length p" by (simp_all add: p)
  moreover have "(length pre + 1 < length p \<and> p ! (length pre + 1) = CHR ''%'') = False"
    using rest by (cases rest) (auto simp: p nth_append)
  ultimately show ?thesis by (subst init_loop.simps) (auto simp: scan simp del: One_nat_def)
qed

text \<open>What follows a key without braces in a well-formed sequence, and where the scan stops.\<close>

lemma render_item_follow:
  assumes "tokens_ok (Item k None # ts)" and p: "p = pre @ render (Item k None # ts)"
  shows "scan_item p (length pre) (length pre + 1) 0 0 [] [] = (length pre + 1 + length k, 0, [], k)"
proof -
  have k: "list_all isalpha k" using assms by simp
  consider (finish) "render ts = []" | (more) c rest where "render ts = c # rest" "key_stop c"
  proof (cases ts)
    case Nil
    with that show ?thesis by simp
  next
    case (Cons t ts')
    with assms that show ?thesis
      by (cases t rule: render_token.cases; force split: list.splits)
  qed
  then show ?thesis
  proof cases
    case finish
    with p scan_end [OF k, of p pre] show ?thesis by simp
  next
    case more
    with p scan_stop [OF k, of p pre c rest] show ?thesis by simp
  qed
qed

lemma init_render_item:
  assumes ok: "tokens_ok (Item k fo # ts)" and p: "p = pre @ render (Item k fo # ts)"
  shows "init_loop p (length pre) vec nstr out =
    init_loop p (length (pre @ render_token (Item k fo)))
      (vec @ flush nstr @ [token_entry (Item k fo)]) [] out"
proof (cases fo)
  case None
  have "k \<noteq> []" "list_all isalpha k" using ok None by simp_all
  then have "k @ render ts = [] \<or> hd (k @ render ts) \<noteq> CHR ''%''" by (cases k) auto
  from init_item [OF _ this render_item_follow [OF ok [unfolded None] p [unfolded None]]]
  show ?thesis using p None by simp
next
  case (Some f)
  let ?rest = "k @ CHR ''{'' # f @ CHR ''}'' # render ts"
  have k: "list_all isalpha k" and f: "CHR ''}'' \<notin> set f" using ok Some by simp_all
  have "?rest = [] \<or> hd ?rest \<noteq> CHR ''%''" using k by (cases k) auto
  moreover have eq: "p = pre @ CHR ''%'' # k @ CHR ''{'' # f @ CHR ''}'' # render ts"
    using p Some by simp
  ultimately show ?thesis
    using init_item [OF _ _ scan_braces [OF k f eq]] Some
    by (simp add: eval_nat_numeral add.assoc)
qed

lemma init_render:
  assumes "tokens_ok ts" and "p = pre @ render ts"
    and "nstr = [] \<or> (case ts of Lit _ # _ \<Rightarrow> False | _ \<Rightarrow> True)"
  shows "init_loop p (length pre) vec nstr out = (vec @ flush nstr @ map token_entry ts, out)"
  using assms
proof (induction ts arbitrary: pre vec nstr)
  case Nil
  then show ?case using init_end [of p] by simp
next
  case (Cons t ts)
  show ?case
  proof (cases t)
    case (Lit s)
    with Cons.prems have s: "CHR ''%'' \<notin> set s" "s \<noteq> []" and nstr: "nstr = []"
      and ok: "tokens_ok ts" "case ts of Lit _ # _ \<Rightarrow> False | _ \<Rightarrow> True"
      by simp_all
    have "init_loop p (length pre) vec nstr out = init_loop p (length (pre @ s)) vec s out"
      using init_literal [OF s(1), of p pre "render ts"] Cons.prems Lit nstr by simp
    also have "\<dots> = (vec @ flush s @ map token_entry ts, out)"
      using Cons.IH [OF ok(1), of "pre @ s"] Cons.prems Lit ok by simp
    finally show ?thesis using Lit nstr s by (simp add: flush_def)
  next
    case (Item k fo)
    have "init_loop p (length pre) vec nstr out =
      init_loop p (length (pre @ render_token t)) (vec @ flush nstr @ [token_entry t]) [] out"
      using init_render_item [of k fo ts p pre] Cons.prems(1,2) Item by simp
    moreover have "tokens_ok ts" using Cons.prems(1) Item by (cases fo) simp_all
    ultimately show ?thesis
      using Cons.IH [of "pre @ render_token t"] Cons.prems(2) by (simp add: flush_def)
  qed
qed


section \<open>The formatter object\<close>

fun token_item :: "token \<Rightarrow> format_item" where
  "token_item t = entry_item (token_entry t)"

definition token_known :: "token \<Rightarrow> bool" where
  "token_known t = (\<not> entry_error (token_entry t))"

lemma init_vec_render: "tokens_ok ts \<Longrightarrow> init_loop (render ts) 0 [] [] [] = (map token_entry ts, [])"
  using init_render [of ts "render ts" "[]" "[]" "[]"] by (simp add: flush_def)

lemma LogFormatter_render:
  assumes "tokens_ok ts"
  shows "LogFormatter (render ts) =
    LogFormatter_object (render ts) None (map token_item ts) (list_ex (\<lambda>t. \<not> token_known t) ts) False"
  using assms
  by (simp add: LogFormatter_def init_vec_def init_vec_render list_ex_iff token_known_def comp_def)

lemma isError_LogFormatter [simp]: "isError (LogFormatter p) = list_ex entry_error (init_vec p)"
  by (simp add: isError_def LogFormatter_def)

lemma lf_items_LogFormatter [simp]: "lf_items (LogFormatter p) = map entry_item (init_vec p)"
  by (simp add: LogFormatter_def)

lemma getPattern_LogFormatter [simp]: "getPattern (LogFormatter p) = p"
  by (simp add: getPattern_def LogFormatter_def)

lemma format_items_append:
  "format_items E name lv ev (is @ js) =
     (case format_items E name lv ev is of
        Inl e \<Rightarrow> Inl e
      | Inr s \<Rightarrow> (case format_items E name lv ev js of Inl e \<Rightarrow> Inl e | Inr t \<Rightarrow> Inr (s @ t)))"
  by (induction "is") (auto split: sum.splits)

text \<open>The loop only appends to \<open>vec\<close>.\<close>

lemma init_loop_extends: "\<exists>es. fst (init_loop p i vec nstr out) = vec @ es"
proof (induction p i vec nstr out rule: init_loop.induct)
  case (1 p i vec nstr out)
  show ?case
  proof (cases "i < length p")
    case False
    then show ?thesis by (simp add: init_loop.simps [of p i])
  next
    case True
    obtain n st fmt str where sc: "scan_item p i (i + 1) 0 0 [] [] = (n, st, fmt, str)"
      by (cases "scan_item p i (i + 1) 0 0 [] []")
    then have "st = 0 \<or> st = 1" using scan_item_bounds [OF sc] True by auto
    with True sc 1 show ?thesis
      by (subst init_loop.simps) (auto split: if_splits simp del: One_nat_def; metis append.assoc)
  qed
qed

text \<open>
  C1. The pattern parser reads back every well-formed pattern: for a sequence of literals and
  items rendered to text, the formatter has exactly the items of the sequence, in order, prints
  nothing while parsing, keeps the pattern, and is in error exactly when some item letter is not
  in the table.
\<close>

theorem pattern_roundtrip:
  assumes "tokens_ok ts"
  shows "lf_items (LogFormatter (render ts)) = map token_item ts \<and>
    LogFormatter_output (render ts) = [] \<and>
    getPattern (LogFormatter (render ts)) = render ts \<and>
    (isError (LogFormatter (render ts)) \<longleftrightarrow> (\<exists>t\<in>set ts. \<not> token_known t))"
  using assms
  by (auto simp: init_vec_def LogFormatter_output_def init_vec_render list_ex_iff token_known_def)

theorem pattern_roundtrip_witness:
  "lf_items (LogFormatter ''%d{%H}%T[%p] %zz'') =
     [DateTimeFormatItem ''%H'', TabFormatItem, StringFormatItem ''['', LevelFormatItem,
      StringFormatItem ''] '', StringFormatItem ''<<error_format %zz>>''] \<and>
   isError (LogFormatter ''%d{%H}%T[%p] %zz'')"
proof -
  let ?ts = "[Item ''d'' (Some ''%H''), Item ''T'' None, Lit ''['', Item ''p'' None, Lit ''] '',
    Item ''zz'' None]"
  have ok: "tokens_ok ?ts" by (simp add: isalpha_def key_stop_def)
  have "render ?ts = ''%d{%H}%T[%p] %zz''" by simp
  with pattern_roundtrip [OF ok] show ?thesis
    by (simp add: s_format_items_def new_DateTimeFormatItem_def token_known_def)
qed

text \<open>
  C38. The escape \<open>%%\<close> does not print one percent sign: the second percent sign is read
  again and starts an item. Where no key can follow it (the end of the pattern, a blank, a digit)
  the pattern is in error, and the literal before it is followed by \<open><<error_format %>>\<close>.
\<close>

theorem percent_escape_error:
  assumes pre: "CHR ''%'' \<notin> set pre"
    and rest: "rest = [] \<or> key_stop (hd rest) \<and> hd rest \<noteq> CHR ''%''"
  shows "isError (LogFormatter (pre @ ''%%'' @ rest)) \<and>
    take 2 (lf_items (LogFormatter (pre @ ''%%'' @ rest))) =
      [StringFormatItem (pre @ ''%''), StringFormatItem ''<<error_format %>>'']"
proof -
  let ?p = "pre @ ''%%'' @ rest" and ?pre = "pre @ ''%''"
  have scan: "scan_item ?p (length ?pre) (length ?pre + 1) 0 0 [] [] = (length ?pre + 1, 0, [], [])"
  proof (cases rest)
    case Nil
    with scan_end [of "[]" ?p ?pre] show ?thesis by simp
  next
    case (Cons c r)
    with rest scan_stop [of "[]" ?p ?pre c r] show ?thesis by simp
  qed
  have "init_loop ?p 0 [] [] [] = init_loop ?p (length ?pre) [] ?pre []"
    using init_literal [OF pre, of ?p "[]" "''%%'' @ rest"]
      init_percent_percent [of ?p pre rest] by simp
  also have "\<dots> = init_loop ?p (length ?pre + 1) [(?pre, [], 0), ([], [], 1)] [] []"
    using init_item [OF _ _ scan] rest by (auto simp: flush_def)
  finally obtain es where "init_vec ?p = [(?pre, [], 0), ([], [], 1)] @ es"
    using init_loop_extends unfolding init_vec_def by metis
  then show ?thesis by (simp add: s_format_items_def)
qed

theorem percent_escape_error_witness:
  "isError (LogFormatter ''100%% done'') \<and>
   take 2 (lf_items (LogFormatter ''100%% done'')) =
     [StringFormatItem ''100%'', StringFormatItem ''<<error_format %>>'']"
  using percent_escape_error [of "''100''" "'' done''"] by (simp add: key_stop_def isalpha_def)

text \<open>
  Where letters do follow, \<open>%%d\<close> is a percent sign and the item \<open>%d\<close>, not the text
  \<open>%d\<close>: a literal that contains a percent sign before a known letter cannot be written.
\<close>

lemma percent_escape_item:
  assumes pre: "CHR ''%'' \<notin> set pre" and ok: "tokens_ok (Item k fo # ts)"
  shows "lf_items (LogFormatter (pre @ ''%'' @ render (Item k fo # ts))) =
    StringFormatItem (pre @ ''%'') # map token_item (Item k fo # ts)"
proof -
  let ?r = "render (Item k fo # ts)" and ?pre = "pre @ ''%''"
  let ?p = "pre @ ''%'' @ ?r"
  obtain r where r: "?r = CHR ''%'' # r" by (cases fo) auto
  have "init_loop ?p 0 [] [] [] = init_loop ?p (length ?pre) [] ?pre []"
    using init_literal [OF pre, of ?p "[]" "''%'' @ ?r"]
      init_percent_percent [of ?p pre r] r by simp
  also have "\<dots> = ((?pre, [], 0) # map token_entry (Item k fo # ts), [])"
    using init_render [OF ok, of ?p ?pre ?pre "[]" "[]"] by (simp add: flush_def)
  finally show ?thesis by (simp add: init_vec_def)
qed

text \<open>
  A brace that is never closed is reported on standard output but not by \<open>isError\<close>: the
  formatter is the marker \<open><<pattern_error>>\<close> and then all of the text, literal prefix included,
  as one literal.
\<close>

lemma unclosed_brace_not_error:
  assumes pre: "CHR ''%'' \<notin> set pre" and k: "list_all isalpha k"
    and f: "CHR ''}'' \<notin> set f" "CHR ''%'' \<notin> set f"
  defines "p \<equiv> pre @ ''%'' @ k @ ''{'' @ f"
  shows "lf_items (LogFormatter p) =
      [StringFormatItem ''<<pattern_error>>'', StringFormatItem (pre @ k @ ''{'' @ f)] \<and>
    \<not> isError (LogFormatter p) \<and>
    LogFormatter_output p = pattern_error_message p (length pre)"
proof -
  have p: "p = pre @ CHR ''%'' # k @ CHR ''{'' # f" by (simp add: p_def)
  let ?rest = "k @ CHR ''{'' # f"
  obtain str where scan: "scan_item p (length pre) (length pre + 1) 0 0 [] [] = (length p, 1, [], str)"
    using scan_unclosed [OF k f(1) p] by blast
  have hd: "hd ?rest \<noteq> CHR ''%''" "?rest \<noteq> []" using k by (cases k; auto)+
  have "CHR ''%'' \<notin> set k" using k by (auto simp: list_all_iff)
  then have rest: "CHR ''%'' \<notin> set ?rest" using f by auto
  have "init_loop p 0 [] [] [] = init_loop p (length pre) [] pre []"
    using init_literal [OF pre, of p "[]"] p by simp
  also have "\<dots> = init_loop p (length pre + 1) [(''<<pattern_error>>'', [], 0)] pre
      (pattern_error_message p (length pre))"
    using init_pattern_error [OF p hd scan] by simp
  also have "\<dots> = ([(''<<pattern_error>>'', [], 0)] @ flush (pre @ ?rest),
      pattern_error_message p (length pre))"
    using init_literal [OF rest, of p "pre @ ''%''" "[]"] init_end [of p] p by simp
  finally show ?thesis
    by (simp add: init_vec_def LogFormatter_output_def flush_def)
qed

section \<open>Formatted output\<close>

definition default_tokens :: "token list" where
  "default_tokens =
     [Item ''d'' (Some ''%Y-%m-%d %H:%M:%S''), Item ''T'' None, Lit '' ['', Item ''p'' None,
      Lit '']'', Item ''T'' None, Lit ''['', Item ''t'' None, Lit '']'', Item ''T'' None,
      Lit ''['', Item ''c'' None, Lit '']'', Item ''T'' None, Lit '' '', Item ''f'' None,
      Lit '':'', Item ''l'' None, Item ''T'' None, Lit '' '', Item ''m'' None, Lit ''  '',
      Item ''n'' None]"

lemma render_default: "render default_tokens = default_pattern"
  by (simp add: default_tokens_def default_pattern_def)

lemma default_tokens_ok: "tokens_ok default_tokens"
  by (simp add: default_tokens_def isalpha_def key_stop_def)

lemma default_formatter:
  "LogFormatter default_pattern =
     LogFormatter_object default_pattern None
       [DateTimeFormatItem default_date_format, TabFormatItem, StringFormatItem '' ['',
        LevelFormatItem, StringFormatItem '']'', TabFormatItem, StringFormatItem ''['',
        ThreadIdFormatItem, StringFormatItem '']'', TabFormatItem, StringFormatItem ''['',
        NameFormatItem, StringFormatItem '']'', TabFormatItem, StringFormatItem '' '',
        FilenameFormatItem, StringFormatItem '':'', LineFormatItem, TabFormatItem,
        StringFormatItem '' '', MessageFormatItem, StringFormatItem ''  '', NewLineFormatItem]
       False False"
  using LogFormatter_render [OF default_tokens_ok] unfolding render_default
  by (simp add: default_tokens_def token_known_def s_format_items_def new_DateTimeFormatItem_def
      default_date_format_def)

text \<open>
  The line the default pattern prints, for any time the C library can break down: date and
  time, level, thread, logger name, file and line, message, with tabs between and a newline.
\<close>

lemma default_pattern_output:
  assumes "env_localtime E (sint (m_time ev)) = Some t" and "valid_tm t"
  shows "\<not> isError (LogFormatter default_pattern) \<and>
    lf_format E name lv ev (LogFormatter default_pattern) =
      Inr (ymd t @ '' '' @ hms t @ [CHR 0x09] @ '' ['' @ ToString lv @ '']'' @ [CHR 0x09] @ ''['' @
        show_int (uint (m_threadId ev)) @ '']'' @ [CHR 0x09] @ ''['' @ name @ '']'' @ [CHR 0x09] @
        '' '' @ m_file ev @ '':'' @ show_int (sint (m_line ev)) @ [CHR 0x09] @ '' '' @
        getContent ev @ ''  '' @ [CHR 0x0A])"
  using assms
  by (simp add: default_formatter isError_def lf_format_def format_date_time_def
      default_date_format_def strftime_default del: isError_LogFormatter)

text \<open>
  C39. A date item with any format of its own is accepted, and the length of the date decides what it
  prints: a date of less than 64 bytes is printed up to its first NUL byte, and with a longer one
  formatting the event reads an indeterminate buffer, also when the format itself is short.
\<close>

theorem long_date_format_undefined:
  assumes f: "f \<noteq> []" "CHR ''}'' \<notin> set f" and tm: "env_localtime E (sint (m_time ev)) = Some tm"
    and date: "date = strftime_text (env_strftime_ext E) (c_str f) tm"
  shows "\<not> isError (LogFormatter (''%d{'' @ f @ ''}'')) \<and>
    lf_format E name lv ev (LogFormatter (''%d{'' @ f @ ''}'')) =
      (if length date < 64 then Inr (c_str date) else Inl (Undefined Indeterminate_Value))"
proof -
  let ?ts = "[Item ''d'' (Some f)]"
  have ok: "tokens_ok ?ts" using f by (simp add: isalpha_def)
  have "strftime E 64 f tm = (if length date < 64 then Some (c_str date) else None)"
    by (simp add: strftime_def date)
  with LogFormatter_render [OF ok] f(1) tm show ?thesis
    by (simp add: lf_format_def isError_def token_known_def s_format_items_def
        new_DateTimeFormatItem_def format_date_time_def del: isError_LogFormatter)
qed

text \<open>A format of 17 bytes gives a date of 59; one of 20 bytes gives 70.\<close>

definition example_env :: time_env where
  "example_env = \<lparr>env_localtime = (\<lambda>s. Some \<lparr>tm_sec = 5, tm_min = 4, tm_hour = 3, tm_mday = 2,
     tm_mon = 0, tm_year = 121, tm_wday = 6, tm_yday = 1\<rparr>), env_strftime_ext = (\<lambda>s t. ([], 1))\<rparr>"

theorem long_date_format_undefined_witness:
  "(\<exists>line. lf_format example_env ''root'' INFO (LogEvent 0 INFO ''a.cc'' 7 0 42 0 0)
      (LogFormatter (''%d{'' @ ''%F %T %F %T %F %T'' @ ''}'')) = Inr line) \<and>
   lf_format example_env ''root'' INFO (LogEvent 0 INFO ''a.cc'' 7 0 42 0 0)
      (LogFormatter (''%d{'' @ ''%F %T %F %T %F %T %F'' @ ''}'')) = Inl (Undefined Indeterminate_Value)"
proof -
  let ?t = "\<lparr>tm_sec = 5, tm_min = 4, tm_hour = 3, tm_mday = 2, tm_mon = 0, tm_year = 121, tm_wday = 6, tm_yday = 1\<rparr>"
  have tm: "env_localtime example_env s = Some ?t" for s by (simp add: example_env_def)
  have len: "length (ymd ?t) = 10" "length (hms ?t) = 8"
    by (simp_all add: ymd_def hms_def length_num2 show_int_def show_nat.simps digit_char_def)
  let ?date = "\<lambda>f. strftime_text (env_strftime_ext example_env) (c_str f) ?t"
  have "length (?date ''%F %T %F %T %F %T'') < 64" "\<not> length (?date ''%F %T %F %T %F %T %F'') < 64"
    by (simp_all add: c_str_def strftime_conv_def len)
  with long_date_format_undefined [of "''%F %T %F %T %F %T''", OF _ _ tm refl]
    long_date_format_undefined [of "''%F %T %F %T %F %T %F''", OF _ _ tm refl]
  show ?thesis by simp
qed

text \<open>
  The item \<open>%r\<close>, documented as the milliseconds since the start of the program, prints the
  message: the elapsed time of the event never reaches the output.
\<close>

lemma elapsed_item_prints_message:
  "lf_format E name lv ev (LogFormatter ''%r'') = Inr (getContent ev) \<and>
   lf_format E name lv (ev\<lparr>m_elapse := el\<rparr>) (LogFormatter ''%r'') =
     lf_format E name lv ev (LogFormatter ''%m'')"
proof -
  have r: "tokens_ok [Item ''r'' None]" and m: "tokens_ok [Item ''m'' None]"
    by (simp_all add: isalpha_def)
  from LogFormatter_render [OF r] LogFormatter_render [OF m] show ?thesis
    by (simp add: lf_format_def s_format_items_def getContent_def)
qed

end
