(* ===== verification/Ordered_Map.thy ===== *)
theory Ordered_Map
  imports Prelude
begin

text \<open>
  \<open>std::map\<close>, which the logger manager, the configuration registry and the listeners use: an
  association list in strictly ascending order of the keys, so that iteration follows the order
  of the container. The locale states what the clients rely on; \<open>std::map\<close> provides it.
\<close>

locale key_store =
  fixes new :: 'm
    and find :: "'m \<Rightarrow> 'k \<Rightarrow> 'v option"
    and put :: "'k \<Rightarrow> 'v \<Rightarrow> 'm \<Rightarrow> 'm"
    and erase :: "'k \<Rightarrow> 'm \<Rightarrow> 'm"
    and ok :: "'m \<Rightarrow> bool"
  assumes find_new: "find new k = None"
    and find_put: "ok m \<Longrightarrow> find (put k v m) j = (if j = k then Some v else find m j)"
    and find_erase: "ok m \<Longrightarrow> find (erase k m) j = (if j = k then None else find m j)"
    and ok_new: "ok new"
    and ok_put: "ok m \<Longrightarrow> ok (put k v m)"
    and ok_erase: "ok m \<Longrightarrow> ok (erase k m)"
begin

lemma find_put_same: "ok m \<Longrightarrow> find (put k v m) k = Some v"
  by (simp add: find_put)

lemma find_put_other: "ok m \<Longrightarrow> j \<noteq> k \<Longrightarrow> find (put k v m) j = find m j"
  by (simp add: find_put)

lemma find_put_put: "ok m \<Longrightarrow> find (put k v (put k w m)) = find (put k v m)"
  by (simp add: find_put ok_put fun_eq_iff)

lemma find_erase_same: "ok m \<Longrightarrow> find (erase k m) k = None"
  by (simp add: find_erase)

lemma find_erase_put: "ok m \<Longrightarrow> find m k = None \<Longrightarrow> find (erase k (put k v m)) = find m"
  by (auto simp: find_put find_erase ok_put fun_eq_iff)

text \<open>Adding a missing key keeps every entry that is there: the registries only grow.\<close>

lemma find_put_missing:
  "ok m \<Longrightarrow> find m k = None \<Longrightarrow> find m j = Some w \<Longrightarrow> find (put k v m) j = Some w"
  by (auto simp: find_put)

end

type_synonym ('k, 'v) omap = "('k \<times> 'v) list"

text \<open>\<open>m[k] = v\<close>.\<close>

fun omap_put :: "'k::linorder \<Rightarrow> 'v \<Rightarrow> ('k, 'v) omap \<Rightarrow> ('k, 'v) omap" where
  "omap_put k v [] = [(k, v)]"
| "omap_put k v (e # m) =
     (if fst e < k then e # omap_put k v m
      else if fst e = k then (k, v) # m
      else (k, v) # e # m)"

text \<open>\<open>m.insert(make_pair(k, v))\<close>: nothing happens when the key is there.\<close>

definition omap_insert :: "'k::linorder \<Rightarrow> 'v \<Rightarrow> ('k, 'v) omap \<Rightarrow> ('k, 'v) omap" where
  "omap_insert k v m = (case map_of m k of None \<Rightarrow> omap_put k v m | Some _ \<Rightarrow> m)"

text \<open>\<open>m.erase(k)\<close>.\<close>

definition omap_erase :: "'k \<Rightarrow> ('k, 'v) omap \<Rightarrow> ('k, 'v) omap" where
  "omap_erase k m = filter (\<lambda>e. fst e \<noteq> k) m"

definition omap_ok :: "('k::linorder, 'v) omap \<Rightarrow> bool" where
  "omap_ok m = sorted_wrt (<) (map fst m)"

lemma set_omap_put: "set (omap_put k v m) \<subseteq> insert (k, v) (set m)"
  by (induction m) auto

lemma ball_omap_put: "\<forall>e\<in>set m. P e \<Longrightarrow> P (k, v) \<Longrightarrow> e \<in> set (omap_put k v m) \<Longrightarrow> P e"
  using set_omap_put [of k v m] by auto

lemma keys_omap_put [simp]: "fst ` set (omap_put k v m) = insert k (fst ` set m)"
  by (induction m) auto

lemma map_of_omap_put [simp]: "omap_ok m \<Longrightarrow> map_of (omap_put k v m) j = (if j = k then Some v else map_of m j)"
proof (induction m)
  case Nil
  then show ?case by simp
next
  case (Cons e m)
  then have "omap_ok m" and "\<forall>x\<in>set m. fst e < fst x" by (auto simp: omap_ok_def)
  then show ?case using Cons.IH by (cases e) auto
qed

lemma omap_ok_put [simp]: "omap_ok m \<Longrightarrow> omap_ok (omap_put k v m)"
proof (induction m)
  case Nil
  then show ?case by (simp add: omap_ok_def)
next
  case (Cons e m)
  then show ?case using set_omap_put [of k v m] by (fastforce simp: omap_ok_def)
qed

lemma map_of_omap_erase [simp]: "map_of (omap_erase k m) j = (if j = k then None else map_of m j)"
  by (induction m) (auto simp: omap_erase_def)

lemma omap_ok_erase [simp]: "omap_ok m \<Longrightarrow> omap_ok (omap_erase k m)"
  by (induction m) (auto simp: omap_ok_def omap_erase_def)

lemma omap_ok_Nil [simp]: "omap_ok []"
  by (simp add: omap_ok_def)

lemma omap_ok_insert [simp]: "omap_ok m \<Longrightarrow> omap_ok (omap_insert k v m)"
  by (simp add: omap_insert_def split: option.split)

lemma map_of_omap_insert [simp]:
  "omap_ok m \<Longrightarrow> map_of (omap_insert k v m) j =
     (if j = k \<and> map_of m k = None then Some v else map_of m j)"
  by (auto simp: omap_insert_def split: option.split)

lemma map_of_in_omap: "omap_ok m \<Longrightarrow> (k, v) \<in> set m \<longleftrightarrow> map_of m k = Some v"
  by (rule map_of_eq_Some_iff [symmetric]) (simp add: omap_ok_def strict_sorted_iff)

text \<open>\<open>std::map\<close> provides the interface.\<close>

interpretation omap: key_store
  "[] :: ('k::linorder, 'v) omap" map_of omap_put omap_erase omap_ok
  by unfold_locales auto

end
