(* ===== verification/Logger.thy ===== *)
theory Logger
  imports Log_Pattern Ordered_Map
begin

text \<open>
  The objects of the logging module (\<open>sylar/log.h\<close>, \<open>sylar/log.cc\<close>): appenders, loggers and
  the logger manager, in a heap. A \<open>shared_ptr\<close> to a logger or an appender is the number of the
  object in its heap, so that objects that are shared are shared here as well; formatters are
  never changed once they are shared and are values. A heap is a total function with the number
  of the next free object.
\<close>

section \<open>Output file streams\<close>

text \<open>
  \<open>std::ofstream\<close>: whether a file is open, whether no error bit is set, and the text written
  since the file was opened (opening for output truncates the file). As in the standard, \<open>close\<close>
  without an open file and \<open>open\<close> with one both set \<open>failbit\<close>, and a successful \<open>open\<close>
  clears the error bits.
\<close>

record ofstream =
  os_open :: bool
  os_good :: bool
  os_text :: string

definition new_ofstream :: ofstream where
  "new_ofstream = \<lparr>os_open = False, os_good = True, os_text = []\<rparr>"

definition ofstream_close :: "ofstream \<Rightarrow> ofstream" where
  "ofstream_close s = (if os_open s then s\<lparr>os_open := False\<rparr> else s\<lparr>os_good := False\<rparr>)"

text \<open>\<open>can\<close>: whether the operating system can open the file now.\<close>

definition ofstream_open :: "bool \<Rightarrow> ofstream \<Rightarrow> ofstream" where
  "ofstream_open can s =
     (if os_open s then s\<lparr>os_good := False\<rparr>
      else if can then \<lparr>os_open = True, os_good = True, os_text = []\<rparr>
      else s\<lparr>os_good := False\<rparr>)"

text \<open>\<open>s << t\<close>: \<open>can\<close> is whether the file takes the bytes; if not, an error bit is set.\<close>

definition ofstream_write :: "bool \<Rightarrow> string \<Rightarrow> ofstream \<Rightarrow> ofstream" where
  "ofstream_write can t s =
     (if \<not> os_good s \<or> t = [] then s
      else if os_open s \<and> can then s\<lparr>os_text := os_text s @ t\<rparr>
      else s\<lparr>os_good := False\<rparr>)"

section \<open>Appenders\<close>

datatype appender_class =
    StdoutLogAppender
  | FileLogAppender (fa_filename: string) (fa_stream: ofstream)

text \<open>The members of the base class \<open>LogAppender\<close>, with the derived class.\<close>

record log_appender =
  la_level :: level
  la_formatter :: "log_formatter option"
  la_hasFormatter :: bool
  la_class :: appender_class

definition new_appender :: "appender_class \<Rightarrow> log_appender" where
  "new_appender c = \<lparr>la_level = DEBUG, la_formatter = None, la_hasFormatter = False, la_class = c\<rparr>"

text \<open>\<open>LogAppender::setFormatter\<close> and \<open>setLevel\<close>.\<close>

definition la_setFormatter :: "log_formatter option \<Rightarrow> log_appender \<Rightarrow> log_appender" where
  "la_setFormatter val a = a\<lparr>la_formatter := val\<rparr>"

definition la_setLevel :: "level \<Rightarrow> log_appender \<Rightarrow> log_appender" where
  "la_setLevel lv a = a\<lparr>la_level := lv\<rparr>"

text \<open>\<open>FileLogAppender::reopen\<close> on the stream: the returned flag and the stream afterwards.\<close>

definition reopen_stream :: "bool \<Rightarrow> ofstream \<Rightarrow> bool \<times> ofstream" where
  "reopen_stream can s =
     (let s1 = (if os_good s then ofstream_close s else s);
          s2 = ofstream_open can s1
      in (os_good s2, s2))"

section \<open>Loggers, the manager and the heap\<close>

type_synonym appender_ptr = nat

record logger =
  lg_name :: string
  lg_level :: level
  lg_appenders :: "appender_ptr list"
  lg_formatter :: "log_formatter option"
  lg_root :: "logger_ptr option"

text \<open>
  The state of the program as far as logging goes: the two heaps, the manager (a function-local
  static, built by the first \<open>GetInstance\<close>), the text on standard output, and the environment:
  time, files, the calling thread, the clock and the directory \<open>__FILE__\<close> starts with.
\<close>

record world =
  loggers :: "logger_ptr \<Rightarrow> logger"
  next_logger :: nat
  appenders :: "appender_ptr \<Rightarrow> log_appender"
  next_appender :: nat
  mgr_built :: bool
  mgr_loggers :: "(string, logger_ptr) omap"
  mgr_root :: logger_ptr
  std_out :: string
  w_time :: time_env
  w_can_open :: "string \<Rightarrow> bool"
  w_can_write :: "string \<Rightarrow> bool"
  w_tid :: int
  w_now :: u64
  w_srcdir :: string

abbreviation upd_logger :: "logger_ptr \<Rightarrow> (logger \<Rightarrow> logger) \<Rightarrow> world \<Rightarrow> world" where
  "upd_logger l f w \<equiv> w\<lparr>loggers := (loggers w)(l := f (loggers w l))\<rparr>"

abbreviation upd_appender :: "appender_ptr \<Rightarrow> (log_appender \<Rightarrow> log_appender) \<Rightarrow> world \<Rightarrow> world" where
  "upd_appender a f w \<equiv> w\<lparr>appenders := (appenders w)(a := f (appenders w a))\<rparr>"

definition print :: "string \<Rightarrow> world \<Rightarrow> world" where
  "print s w = w\<lparr>std_out := std_out w @ s\<rparr>"

section \<open>Creating objects\<close>

definition alloc_appender :: "log_appender \<Rightarrow> world \<Rightarrow> appender_ptr \<times> world" where
  "alloc_appender a w =
     (next_appender w,
      w\<lparr>appenders := (appenders w)(next_appender w := a), next_appender := Suc (next_appender w)\<rparr>)"

definition new_StdoutLogAppender :: "world \<Rightarrow> appender_ptr \<times> world" where
  "new_StdoutLogAppender = alloc_appender (new_appender StdoutLogAppender)"

definition new_FileLogAppender :: "string \<Rightarrow> world \<Rightarrow> appender_ptr \<times> world" where
  "new_FileLogAppender filename w =
     alloc_appender (new_appender
       (FileLogAppender filename (snd (reopen_stream (w_can_open w filename) new_ofstream)))) w"

definition alloc_logger :: "logger \<Rightarrow> world \<Rightarrow> logger_ptr \<times> world" where
  "alloc_logger l w =
     (next_logger w,
      w\<lparr>loggers := (loggers w)(next_logger w := l), next_logger := Suc (next_logger w)\<rparr>)"

text \<open>
  The constructor \<open>Logger::Logger(name)\<close>: level DEBUG, the default formatter, and for the name
  \<open>root\<close> an appender to standard output that gets no formatter here.
\<close>

definition new_Logger :: "string \<Rightarrow> world \<Rightarrow> logger_ptr \<times> world" where
  "new_Logger name w =
     (let lg = \<lparr>lg_name = name, lg_level = DEBUG, lg_appenders = [],
                lg_formatter = Some (LogFormatter default_pattern), lg_root = None\<rparr>
      in if name = ''root'' then
           (case new_StdoutLogAppender w of
              (ap, w1) \<Rightarrow> alloc_logger (lg\<lparr>lg_appenders := lg_appenders lg @ [ap]\<rparr>) w1)
         else alloc_logger lg w)"

section \<open>Operations of a logger\<close>

definition addAppender :: "appender_ptr \<Rightarrow> logger_ptr \<Rightarrow> world \<Rightarrow> world" where
  "addAppender ap l w =
     (let w1 = (if la_formatter (appenders w ap) = None
                then upd_appender ap (la_formatter_update (\<lambda>_. lg_formatter (loggers w l))) w
                else w)
      in upd_logger l (lg_appenders_update (\<lambda>as. as @ [ap])) w1)"

text \<open>\<open>delAppender\<close>: the first occurrence only.\<close>

fun erase_first :: "'a \<Rightarrow> 'a list \<Rightarrow> 'a list" where
  "erase_first x [] = []"
| "erase_first x (y # ys) = (if y = x then ys else y # erase_first x ys)"

definition delAppender :: "appender_ptr \<Rightarrow> logger_ptr \<Rightarrow> world \<Rightarrow> world" where
  "delAppender ap l w = upd_logger l (lg_appenders_update (erase_first ap)) w"

definition cleanAppenders :: "logger_ptr \<Rightarrow> world \<Rightarrow> world" where
  "cleanAppenders l w = upd_logger l (lg_appenders_update (\<lambda>_. [])) w"

definition setLevel :: "level \<Rightarrow> logger_ptr \<Rightarrow> world \<Rightarrow> world" where
  "setLevel lv l w = upd_logger l (lg_level_update (\<lambda>_. lv)) w"

definition getLevel :: "logger_ptr \<Rightarrow> world \<Rightarrow> level" where
  "getLevel l w = lg_level (loggers w l)"

text \<open>The two overloads of \<open>Logger::setFormatter\<close>.\<close>

definition give_formatter :: "log_formatter option \<Rightarrow> appender_ptr \<Rightarrow> world \<Rightarrow> world" where
  "give_formatter fm ap w =
     (if \<not> la_hasFormatter (appenders w ap)
      then upd_appender ap (la_formatter_update (\<lambda>_. fm)) w else w)"

definition setFormatter :: "log_formatter option \<Rightarrow> logger_ptr \<Rightarrow> world \<Rightarrow> world" where
  "setFormatter fm l w =
     (let w1 = upd_logger l (lg_formatter_update (\<lambda>_. fm)) w
      in fold (give_formatter fm) (lg_appenders (loggers w1 l)) w1)"

definition setFormatter_pattern :: "string \<Rightarrow> logger_ptr \<Rightarrow> world \<Rightarrow> world" where
  "setFormatter_pattern value l w =
     (let new_val = LogFormatter value; w1 = print (LogFormatter_output value) w
      in if isError new_val then
           print (''Logger  set  formatter name='' @ lg_name (loggers w1 l) @ ''  value= '' @ value
             @ '' invalid formatter'' @ [CHR 0x0A]) w1
         else setFormatter (Some new_val) l w1)"

section \<open>Logging\<close>

text \<open>\<open>StdoutLogAppender::log\<close>: a missing formatter is created on first use.\<close>

definition stdout_log :: "appender_ptr \<Rightarrow> logger_ptr \<Rightarrow> level \<Rightarrow> log_event \<Rightarrow> (world, unit) comp" where
  "stdout_log ap l lv ev = (\<lambda>w.
     if la_level (appenders w ap) \<le> lv then
       let w1 = (if la_formatter (appenders w ap) = None
                 then upd_appender ap (la_formatter_update (\<lambda>_. Some (LogFormatter default_pattern))) w
                 else w)
       in (case la_formatter (appenders w1 ap) of
             None \<Rightarrow> (Inl (Undefined Null_Dereference), w1)
           | Some f \<Rightarrow>
               (case lf_format (w_time w1) (lg_name (loggers w1 l)) lv ev f of
                  Inl e \<Rightarrow> (Inl e, w1)
                | Inr s \<Rightarrow> (Inr (), print (s @ [CHR 0x0A]) w1)))
     else (Inr (), w))"

text \<open>\<open>FileLogAppender::log\<close>: the formatter is dereferenced without a test.\<close>

definition file_log :: "appender_ptr \<Rightarrow> logger_ptr \<Rightarrow> level \<Rightarrow> log_event \<Rightarrow> (world, unit) comp" where
  "file_log ap l lv ev = (\<lambda>w.
     if la_level (appenders w ap) \<le> lv then
       (case la_formatter (appenders w ap) of
          None \<Rightarrow> (Inl (Undefined Null_Dereference), w)
        | Some f \<Rightarrow>
            (case lf_format (w_time w) (lg_name (loggers w l)) lv ev f of
               Inl e \<Rightarrow> (Inl e, w)
             | Inr s \<Rightarrow>
                 (case la_class (appenders w ap) of
                    StdoutLogAppender \<Rightarrow> (Inr (), w)
                  | FileLogAppender fn st \<Rightarrow>
                      (Inr (), upd_appender ap (la_class_update
                         (\<lambda>_. FileLogAppender fn (ofstream_write (w_can_write w fn) s st))) w))))
     else (Inr (), w))"

text \<open>The virtual call \<open>i->log(self, level, event)\<close>.\<close>

definition appender_log :: "appender_ptr \<Rightarrow> logger_ptr \<Rightarrow> level \<Rightarrow> log_event \<Rightarrow> (world, unit) comp" where
  "appender_log ap l lv ev = (\<lambda>w.
     case la_class (appenders w ap) of
       StdoutLogAppender \<Rightarrow> stdout_log ap l lv ev w
     | FileLogAppender _ _ \<Rightarrow> file_log ap l lv ev w)"

text \<open>
  \<open>Logger::log\<close>. A logger without appenders hands the event to its root logger, by a recursive
  call that changes nothing on its way: more calls than there are loggers means a cycle of root
  pointers, and the recursion of the source then exhausts the stack. The bound is the number of
  loggers, plus one.
\<close>

fun Logger_log_fuel :: "nat \<Rightarrow> logger_ptr \<Rightarrow> level \<Rightarrow> log_event \<Rightarrow> (world, unit) comp" where
  "Logger_log_fuel 0 l lv ev = throw (Undefined Stack_Overflow)"
| "Logger_log_fuel (Suc n) l lv ev = (\<lambda>w.
     if lg_level (loggers w l) \<le> lv then
       if lg_appenders (loggers w l) \<noteq> [] then
         for_each (lg_appenders (loggers w l)) (\<lambda>ap. appender_log ap l lv ev) w
       else (case lg_root (loggers w l) of
               Some r \<Rightarrow> Logger_log_fuel n r lv ev w
             | None \<Rightarrow> (Inr (), w))
     else (Inr (), w))"

definition Logger_log :: "logger_ptr \<Rightarrow> level \<Rightarrow> log_event \<Rightarrow> (world, unit) comp" where
  "Logger_log l lv ev = (\<lambda>w. Logger_log_fuel (Suc (next_logger w)) l lv ev w)"

text \<open>\<open>Logger::debug\<close>, \<open>info\<close>, \<open>warn\<close>, \<open>error\<close> and \<open>fatal\<close>.\<close>

definition Logger_debug :: "logger_ptr \<Rightarrow> log_event \<Rightarrow> (world, unit) comp" where
  "Logger_debug l ev = Logger_log l DEBUG ev"

definition Logger_info :: "logger_ptr \<Rightarrow> log_event \<Rightarrow> (world, unit) comp" where
  "Logger_info l ev = Logger_log l INFO ev"

definition Logger_warn :: "logger_ptr \<Rightarrow> log_event \<Rightarrow> (world, unit) comp" where
  "Logger_warn l ev = Logger_log l WARN ev"

definition Logger_error :: "logger_ptr \<Rightarrow> log_event \<Rightarrow> (world, unit) comp" where
  "Logger_error l ev = Logger_log l ERROR ev"

definition Logger_fatal :: "logger_ptr \<Rightarrow> log_event \<Rightarrow> (world, unit) comp" where
  "Logger_fatal l ev = Logger_log l FATAL ev"

text \<open>\<open>FileLogAppender::reopen\<close> on the object.\<close>

definition reopen :: "appender_ptr \<Rightarrow> world \<Rightarrow> bool \<times> world" where
  "reopen ap w =
     (case la_class (appenders w ap) of
        StdoutLogAppender \<Rightarrow> (False, w)
      | FileLogAppender fn st \<Rightarrow>
          (case reopen_stream (w_can_open w fn) st of
             (r, st') \<Rightarrow> (r, upd_appender ap (la_class_update (\<lambda>_. FileLogAppender fn st')) w)))"

section \<open>The manager and the macros\<close>

text \<open>
  \<open>LoggerManager::LoggerManager\<close>: the root logger (whose constructor already added one appender
  to standard output) gets a second one and is registered under its name.
\<close>

definition LoggerManager_init :: "world \<Rightarrow> world" where
  "LoggerManager_init w = w"

definition new_LoggerManager :: "world \<Rightarrow> world" where
  "new_LoggerManager w =
     (case new_Logger ''root'' w of
        (root, w1) \<Rightarrow>
          (case new_StdoutLogAppender w1 of
             (ap, w2) \<Rightarrow>
               let w3 = addAppender ap root (w2\<lparr>mgr_root := root\<rparr>)
               in LoggerManager_init
                    (w3\<lparr>mgr_loggers := omap_put (lg_name (loggers w3 root)) root [],
                        mgr_built := True\<rparr>)))"

text \<open>\<open>Singleton<LoggerManager>::GetInstance\<close>: a static local, constructed by the first call.\<close>

definition GetInstance :: "world \<Rightarrow> world" where
  "GetInstance w = (if mgr_built w then w else new_LoggerManager w)"

text \<open>\<open>LoggerMgr::GetInstance()->getRoot()\<close>, the macro \<open>SYLAR_LOG_ROOT\<close>.\<close>

definition getRoot :: "world \<Rightarrow> logger_ptr \<times> world" where
  "getRoot w = (let w1 = GetInstance w in (mgr_root w1, w1))"

text \<open>\<open>LoggerManager::getLogger\<close>, and with the instance the macro \<open>SYLAR_LOG_NAME\<close>.\<close>

definition manager_getLogger :: "string \<Rightarrow> world \<Rightarrow> logger_ptr \<times> world" where
  "manager_getLogger name w =
     (case map_of (mgr_loggers w) name of
        Some l \<Rightarrow> (l, w)
      | None \<Rightarrow>
          (case new_Logger name w of
             (l, w1) \<Rightarrow>
               (l, (upd_logger l (lg_root_update (\<lambda>_. Some (mgr_root w1))) w1)
                     \<lparr>mgr_loggers := omap_put name l (mgr_loggers w1)\<rparr>)))"

definition getLogger :: "string \<Rightarrow> world \<Rightarrow> logger_ptr \<times> world" where
  "getLogger name w = manager_getLogger name (GetInstance w)"

text \<open>
  \<open>LogEventWrap\<close>: the temporary of the macros. Its destructor, at the end of the statement, logs
  the event with its own logger and level.
\<close>

definition LogEventWrap_destroy :: "log_event \<Rightarrow> (world, unit) comp" where
  "LogEventWrap_destroy ev = Logger_log (m_logger ev) (m_level ev) ev"

text \<open>
  \<open>SYLAR_LOG_LEVEL(logger, level) << msg\<close> in line \<open>line\<close> of \<open>file\<close>, and the printf form
  \<open>SYLAR_LOG_FMT_LEVEL\<close>.
\<close>

definition macro_event :: "logger_ptr \<Rightarrow> level \<Rightarrow> string \<Rightarrow> i32 \<Rightarrow> world \<Rightarrow> log_event" where
  "macro_event l lv file line w =
     LogEvent l lv (w_srcdir w @ file) line 0 (GetThreadId (w_tid w)) GetFiberId (w_now w)"

definition SYLAR_LOG_LEVEL ::
  "logger_ptr \<Rightarrow> level \<Rightarrow> string \<Rightarrow> i32 \<Rightarrow> string \<Rightarrow> (world, unit) comp" where
  "SYLAR_LOG_LEVEL l lv file line msg = (\<lambda>w.
     if getLevel l w \<le> lv
     then LogEventWrap_destroy (stream_into msg (macro_event l lv file line w)) w
     else (Inr (), w))"

definition SYLAR_LOG_FMT_LEVEL ::
  "logger_ptr \<Rightarrow> level \<Rightarrow> string \<Rightarrow> i32 \<Rightarrow> string option \<Rightarrow> (world, unit) comp" where
  "SYLAR_LOG_FMT_LEVEL l lv file line buf = (\<lambda>w.
     if getLevel l w \<le> lv
     then LogEventWrap_destroy (event_format buf (macro_event l lv file line w)) w
     else (Inr (), w))"

text \<open>\<open>SYLAR_LOG_INFO(SYLAR_LOG_ROOT()) << msg\<close> and the same at level ERROR.\<close>

definition log_root :: "level \<Rightarrow> string \<Rightarrow> i32 \<Rightarrow> string \<Rightarrow> (world, unit) comp" where
  "log_root lv file line msg = (\<lambda>w.
     case getRoot w of (r, w1) \<Rightarrow> SYLAR_LOG_LEVEL r lv file line msg w1)"

end
