(* ===== verification/Logger_Invariant.thy ===== *)
theory Logger_Invariant
  imports Logger
begin

text \<open>
  The invariant of the logging heap, what a call to \<open>log\<close> may change, the interface the abstract
  class \<open>LogAppender\<close> promises to \<open>Logger::log\<close>, and the public operations as a step relation
  whose reachable worlds all satisfy the invariant.
\<close>

section \<open>The invariant\<close>

text \<open>A file appender that is attached to a logger has a formatter.\<close>

definition file_ready :: "log_appender \<Rightarrow> bool" where
  "file_ready a = (la_class a = StdoutLogAppender \<or> la_formatter a \<noteq> None)"

definition logger_ok :: "world \<Rightarrow> logger_ptr \<Rightarrow> bool" where
  "logger_ok w l =
     ((\<forall>ap\<in>set (lg_appenders (loggers w l)). ap < next_appender w \<and> file_ready (appenders w ap)) \<and>
      lg_formatter (loggers w l) \<noteq> None \<and>
      (\<forall>r. lg_root (loggers w l) = Some r \<longrightarrow> mgr_built w \<and> r = mgr_root w))"

definition mgr_ok :: "world \<Rightarrow> bool" where
  "mgr_ok w =
     (mgr_built w \<longrightarrow>
        mgr_root w < next_logger w \<and> lg_root (loggers w (mgr_root w)) = None \<and>
        omap_ok (mgr_loggers w) \<and> map_of (mgr_loggers w) ''root'' = Some (mgr_root w) \<and>
        (\<forall>e\<in>set (mgr_loggers w). snd e < next_logger w \<and> lg_name (loggers w (snd e)) = fst e))"

definition log_inv :: "world \<Rightarrow> bool" where
  "log_inv w =
     ((\<forall>l<next_logger w. logger_ok w l) \<and>
      (\<forall>ap<next_appender w. \<not> la_hasFormatter (appenders w ap)) \<and> mgr_ok w)"

named_theorems inv_intros \<open>preservation of the invariant\<close>

lemma log_inv_loggerD: "log_inv w \<Longrightarrow> l < next_logger w \<Longrightarrow> logger_ok w l"
  by (simp add: log_inv_def)

lemma log_inv_hasFormatter: "log_inv w \<Longrightarrow> ap < next_appender w \<Longrightarrow> \<not> la_hasFormatter (appenders w ap)"
  by (simp add: log_inv_def)

lemma log_inv_mgr: "log_inv w \<Longrightarrow> mgr_ok w"
  by (simp add: log_inv_def)

lemma log_inv_appender:
  "log_inv w \<Longrightarrow> l < next_logger w \<Longrightarrow> ap \<in> set (lg_appenders (loggers w l)) \<Longrightarrow>
     ap < next_appender w \<and> file_ready (appenders w ap)"
  by (auto simp: log_inv_def logger_ok_def)

lemma log_inv_root:
  assumes "log_inv w" "l < next_logger w" "lg_root (loggers w l) = Some r"
  shows "r = mgr_root w \<and> r < next_logger w \<and> lg_root (loggers w r) = None"
  using assms by (auto simp: log_inv_def logger_ok_def mgr_ok_def)

lemma log_inv_find:
  assumes "log_inv w" "mgr_built w" "map_of (mgr_loggers w) name = Some l"
  shows "l < next_logger w \<and> lg_name (loggers w l) = name"
proof -
  have "(name, l) \<in> set (mgr_loggers w)" using assms(3) by (rule map_of_SomeD)
  with assms(1,2) show ?thesis by (fastforce simp: log_inv_def mgr_ok_def)
qed

section \<open>Preservation by the operations on objects\<close>

text \<open>Updates of one logger: what a new value of the object has to satisfy.\<close>

lemma upd_logger_inv:
  assumes inv: "log_inv w" and root: "lg_root (f (loggers w l)) = lg_root (loggers w l)"
    and name: "lg_name (f (loggers w l)) = lg_name (loggers w l)"
    and fm: "l < next_logger w \<Longrightarrow> lg_formatter (f (loggers w l)) \<noteq> None"
    and aps: "\<And>ap. l < next_logger w \<Longrightarrow> ap \<in> set (lg_appenders (f (loggers w l))) \<Longrightarrow>
      ap < next_appender w \<and> file_ready (appenders w ap)"
  shows "log_inv (upd_logger l f w)"
  using assms unfolding log_inv_def logger_ok_def mgr_ok_def by auto

text \<open>Updates of one appender that give it a formatter or leave it as it was.\<close>

lemma upd_appender_inv:
  assumes inv: "log_inv w" and flag: "la_hasFormatter (f (appenders w ap)) = la_hasFormatter (appenders w ap)"
    and ready: "file_ready (appenders w ap) \<Longrightarrow> file_ready (f (appenders w ap))"
  shows "log_inv (upd_appender ap f w)"
  using assms unfolding log_inv_def logger_ok_def mgr_ok_def by auto

lemma print_inv [inv_intros]: "log_inv w \<Longrightarrow> log_inv (print s w)"
  by (simp add: print_def log_inv_def logger_ok_def mgr_ok_def)

lemma print_simps [simp]:
  "loggers (print s w) = loggers w" "next_logger (print s w) = next_logger w"
  "appenders (print s w) = appenders w" "next_appender (print s w) = next_appender w"
  "mgr_built (print s w) = mgr_built w" "mgr_root (print s w) = mgr_root w"
  "mgr_loggers (print s w) = mgr_loggers w" "std_out (print s w) = std_out w @ s"
  "w_time (print s w) = w_time w" "w_can_open (print s w) = w_can_open w"
  "w_can_write (print s w) = w_can_write w" "w_tid (print s w) = w_tid w"
  "w_now (print s w) = w_now w" "w_srcdir (print s w) = w_srcdir w"
  by (simp_all add: print_def)

lemma addAppender_inv [inv_intros]:
  assumes inv: "log_inv w" and l: "l < next_logger w" and ap: "ap < next_appender w"
  shows "log_inv (addAppender ap l w)"
proof -
  define w1 where "w1 = (if la_formatter (appenders w ap) = None
    then upd_appender ap (la_formatter_update (\<lambda>_. lg_formatter (loggers w l))) w else w)"
  have fm: "lg_formatter (loggers w l) \<noteq> None" using log_inv_loggerD [OF inv l] by (simp add: logger_ok_def)
  then have inv1: "log_inv w1" using inv
    by (auto simp: w1_def file_ready_def intro: upd_appender_inv)
  have same: "loggers w1 = loggers w" "next_logger w1 = next_logger w" "next_appender w1 = next_appender w"
    by (simp_all add: w1_def)
  have ready: "file_ready (appenders w1 ap)" using fm by (auto simp: w1_def file_ready_def)
  have "log_inv (upd_logger l (lg_appenders_update (\<lambda>as. as @ [ap])) w1)"
    using inv1 fm ap ready log_inv_appender [OF inv1, of l]
    by (intro upd_logger_inv) (auto simp: same)
  then show ?thesis unfolding addAppender_def Let_def w1_def .
qed

lemma set_erase_first: "set (erase_first x ys) \<subseteq> set ys"
  by (induction ys) auto

lemma delAppender_inv [inv_intros]: "log_inv w \<Longrightarrow> log_inv (delAppender ap l w)"
  unfolding delAppender_def using set_erase_first [of ap "lg_appenders (loggers w l)"]
  by (intro upd_logger_inv) (auto simp: log_inv_def logger_ok_def)

lemma cleanAppenders_inv [inv_intros]: "log_inv w \<Longrightarrow> log_inv (cleanAppenders l w)"
  unfolding cleanAppenders_def by (intro upd_logger_inv) (auto simp: log_inv_def logger_ok_def)

lemma setLevel_inv [inv_intros]: "log_inv w \<Longrightarrow> log_inv (setLevel lv l w)"
  unfolding setLevel_def by (intro upd_logger_inv) (auto simp: log_inv_def logger_ok_def)

lemma la_setFormatter_inv [inv_intros]: "log_inv w \<Longrightarrow> log_inv (upd_appender ap (la_setFormatter (Some f)) w)"
  by (rule upd_appender_inv) (auto simp: la_setFormatter_def file_ready_def)

lemma la_setLevel_inv [inv_intros]: "log_inv w \<Longrightarrow> log_inv (upd_appender ap (la_setLevel lv) w)"
  by (rule upd_appender_inv) (auto simp: la_setLevel_def file_ready_def)

text \<open>Distributing a formatter over the appenders.\<close>

lemma give_formatter_inv: "log_inv w \<Longrightarrow> log_inv (give_formatter (Some f) ap w)"
  unfolding give_formatter_def using upd_appender_inv [of w "la_formatter_update (\<lambda>_. Some f)" ap]
  by (auto simp: file_ready_def)

lemma fold_give_formatter_inv: "log_inv w \<Longrightarrow> log_inv (fold (give_formatter (Some f)) aps w)"
  by (induction aps arbitrary: w) (simp_all add: give_formatter_inv)

lemma give_formatter_simps [simp]:
  "loggers (give_formatter fm ap w) = loggers w" "next_logger (give_formatter fm ap w) = next_logger w"
  "next_appender (give_formatter fm ap w) = next_appender w" "std_out (give_formatter fm ap w) = std_out w"
  "mgr_built (give_formatter fm ap w) = mgr_built w" "mgr_root (give_formatter fm ap w) = mgr_root w"
  "mgr_loggers (give_formatter fm ap w) = mgr_loggers w"
  "la_hasFormatter (appenders (give_formatter fm ap w) a) = la_hasFormatter (appenders w a)"
  by (simp_all add: give_formatter_def)

lemma appenders_fold_give_formatter:
  "appenders (fold (give_formatter fm) aps w) a =
     (if a \<in> set aps \<and> \<not> la_hasFormatter (appenders w a)
      then (appenders w a)\<lparr>la_formatter := fm\<rparr> else appenders w a)"
  by (induction aps arbitrary: w) (auto simp: give_formatter_def)

lemma loggers_fold_give_formatter [simp]:
  "loggers (fold (give_formatter fm) aps w) = loggers w"
  "next_logger (fold (give_formatter fm) aps w) = next_logger w"
  "next_appender (fold (give_formatter fm) aps w) = next_appender w"
  "std_out (fold (give_formatter fm) aps w) = std_out w"
  "mgr_built (fold (give_formatter fm) aps w) = mgr_built w"
  "mgr_root (fold (give_formatter fm) aps w) = mgr_root w"
  "mgr_loggers (fold (give_formatter fm) aps w) = mgr_loggers w"
  by (induction aps arbitrary: w) simp_all

lemma setFormatter_inv [inv_intros]: "log_inv w \<Longrightarrow> log_inv (setFormatter (Some f) l w)"
  unfolding setFormatter_def Let_def
  by (rule fold_give_formatter_inv, intro upd_logger_inv) (auto simp: log_inv_def logger_ok_def)

lemma setFormatter_pattern_inv [inv_intros]: "log_inv w \<Longrightarrow> log_inv (setFormatter_pattern v l w)"
  by (simp add: setFormatter_pattern_def Let_def inv_intros)

section \<open>Preservation by allocation and by the manager\<close>

lemma alloc_appender_inv [inv_intros]:
  "log_inv w \<Longrightarrow> \<not> la_hasFormatter a \<Longrightarrow> log_inv (snd (alloc_appender a w))"
  unfolding log_inv_def logger_ok_def mgr_ok_def alloc_appender_def
  by (auto simp: less_Suc_eq)

lemma new_Stdout_inv [inv_intros]: "log_inv w \<Longrightarrow> log_inv (snd (new_StdoutLogAppender w))"
  by (simp add: new_StdoutLogAppender_def inv_intros new_appender_def)

lemma new_File_inv [inv_intros]: "log_inv w \<Longrightarrow> log_inv (snd (new_FileLogAppender fn w))"
  by (simp add: new_FileLogAppender_def inv_intros new_appender_def)

lemma alloc_logger_inv [inv_intros]:
  assumes "log_inv w" "lg_formatter lg \<noteq> None" "lg_root lg = None"
    "\<forall>ap\<in>set (lg_appenders lg). ap < next_appender w \<and> file_ready (appenders w ap)"
  shows "log_inv (snd (alloc_logger lg w))"
  using assms unfolding log_inv_def logger_ok_def mgr_ok_def alloc_logger_def
  by (auto simp: less_Suc_eq)

lemma new_Logger_inv [inv_intros]: "log_inv w \<Longrightarrow> log_inv (snd (new_Logger name w))"
  unfolding new_Logger_def
  by (auto simp: Let_def split: prod.split intro!: alloc_logger_inv
      dest: new_Stdout_inv simp: new_StdoutLogAppender_def alloc_appender_def new_appender_def
      file_ready_def)

text \<open>Registering a logger under its name, with or without a root pointer.\<close>

lemma new_Logger_facts:
  assumes "new_Logger name w = (l, w1)"
  shows "l = next_logger w" "next_logger w1 = Suc l" "lg_name (loggers w1 l) = name"
    "lg_root (loggers w1 l) = None" "lg_level (loggers w1 l) = DEBUG"
    "mgr_built w1 = mgr_built w" "mgr_root w1 = mgr_root w" "mgr_loggers w1 = mgr_loggers w"
    "j \<noteq> l \<Longrightarrow> loggers w1 j = loggers w j" "std_out w1 = std_out w"
    "next_appender w \<le> next_appender w1" "ap < next_appender w \<Longrightarrow> appenders w1 ap = appenders w ap"
  using assms
  by (auto simp: new_Logger_def Let_def alloc_logger_def alloc_appender_def
      new_StdoutLogAppender_def split: if_splits)

lemma manager_getLogger_inv [inv_intros]:
  assumes inv: "log_inv w" and built: "mgr_built w"
  shows "log_inv (snd (manager_getLogger name w))"
proof (cases "map_of (mgr_loggers w) name")
  case (Some l)
  with inv show ?thesis by (simp add: manager_getLogger_def)
next
  case None
  obtain l w1 where nl: "new_Logger name w = (l, w1)" by fastforce
  note f = new_Logger_facts [OF nl]
  have inv1: "log_inv w1" using new_Logger_inv [OF inv, of name] nl by simp
  let ?e = "(name, l)"
  let ?w2 = "(upd_logger l (lg_root_update (\<lambda>_. Some (mgr_root w1))) w1)
    \<lparr>mgr_loggers := omap_put name l (mgr_loggers w1)\<rparr>"
  have mgr: "map_of (mgr_loggers w) ''root'' = Some (mgr_root w)" "omap_ok (mgr_loggers w)"
    "mgr_root w < l" "lg_root (loggers w (mgr_root w)) = None"
    using inv built f(1) by (auto simp: log_inv_def mgr_ok_def)
  have reg: "\<forall>e\<in>set (mgr_loggers w). snd e < Suc l \<and> lg_name (loggers ?w2 (snd e)) = fst e"
    using inv built f by (auto simp: log_inv_def mgr_ok_def)
  have "\<forall>e\<in>set (omap_put name l (mgr_loggers w)). snd e < Suc l \<and> lg_name (loggers ?w2 (snd e)) = fst e"
    using ball_omap_put [OF reg, of name l] f(3) by simp
  moreover have "''root'' \<noteq> name" using mgr(1) None by auto
  ultimately have "mgr_ok ?w2"
    using mgr f by (simp add: mgr_ok_def)
  moreover have "logger_ok ?w2 j" if "j < Suc l" for j
    using log_inv_loggerD [OF inv1, of j] that built f by (auto simp: logger_ok_def)
  ultimately have "log_inv ?w2" using inv1 f(2) by (simp add: log_inv_def)
  then show ?thesis by (simp add: manager_getLogger_def None nl)
qed

lemma new_LoggerManager_inv:
  assumes "log_inv w" "\<not> mgr_built w"
  shows "log_inv (new_LoggerManager w)"
proof -
  obtain root w1 where nl: "new_Logger ''root'' w = (root, w1)" by fastforce
  obtain ap w2 where na: "new_StdoutLogAppender w1 = (ap, w2)" by fastforce
  note f = new_Logger_facts [OF nl]
  have inv2: "log_inv w2"
    using new_Logger_inv [OF assms(1), of "''root''"] new_Stdout_inv [of w1] nl na by simp
  have w2: "loggers w2 = loggers w1" "next_logger w2 = Suc root" "ap < next_appender w2"
    "mgr_built w2 = mgr_built w"
    using na f by (auto simp: new_StdoutLogAppender_def alloc_appender_def)
  let ?w3 = "addAppender ap root (w2\<lparr>mgr_root := root\<rparr>)"
  have "log_inv (w2\<lparr>mgr_root := root\<rparr>)"
    using inv2 w2 assms(2) by (auto simp: log_inv_def mgr_ok_def logger_ok_def)
  then have "log_inv ?w3" by (rule addAppender_inv) (simp_all add: w2)
  moreover have "mgr_built ?w3 = mgr_built w" "next_logger ?w3 = Suc root"
    "lg_root (loggers ?w3 root) = None" "lg_name (loggers ?w3 root) = ''root''" "mgr_root ?w3 = root"
    using w2 f by (auto simp: addAppender_def Let_def)
  ultimately have "log_inv (?w3\<lparr>mgr_loggers := [(''root'', root)], mgr_built := True\<rparr>)"
    using assms(2) by (auto simp: log_inv_def mgr_ok_def logger_ok_def omap_ok_def)
  moreover have "lg_name (loggers ?w3 root) = ''root''" using w2 f by (simp add: addAppender_def Let_def)
  ultimately show ?thesis
    by (simp add: new_LoggerManager_def nl na LoggerManager_init_def Let_def)
qed

lemma GetInstance_inv [inv_intros]: "log_inv w \<Longrightarrow> log_inv (GetInstance w)"
  by (simp add: GetInstance_def new_LoggerManager_inv)

lemma GetInstance_built [simp]: "mgr_built (GetInstance w)"
  by (auto simp: GetInstance_def new_LoggerManager_def Let_def LoggerManager_init_def split: prod.split)

lemma GetInstance_id [simp]: "mgr_built w \<Longrightarrow> GetInstance w = w"
  by (simp add: GetInstance_def)

lemma getLogger_inv [inv_intros]: "log_inv w \<Longrightarrow> log_inv (snd (getLogger name w))"
  by (simp add: getLogger_def inv_intros)

lemma getRoot_inv [inv_intros]: "log_inv w \<Longrightarrow> log_inv (snd (getRoot w))"
  by (simp add: getRoot_def inv_intros Let_def)

lemmas manager_construction =
  getRoot_def GetInstance_def new_LoggerManager_def new_Logger_def new_StdoutLogAppender_def
  alloc_appender_def alloc_logger_def addAppender_def LoggerManager_init_def new_appender_def Let_def

section \<open>What logging may change\<close>

text \<open>
  The frame of a call to \<open>log\<close>: loggers, manager and environment are as before; an appender keeps
  its level, its kind and a formatter it has. Only missing formatters, streams and standard
  output change.
\<close>

definition same_kind :: "appender_class \<Rightarrow> appender_class \<Rightarrow> bool" where
  "same_kind c d =
     (case (c, d) of
        (StdoutLogAppender, StdoutLogAppender) \<Rightarrow> True
      | (FileLogAppender f _, FileLogAppender g _) \<Rightarrow> f = g
      | _ \<Rightarrow> False)"

definition log_frame :: "world \<Rightarrow> world \<Rightarrow> bool" where
  "log_frame w v =
     (loggers v = loggers w \<and> next_logger v = next_logger w \<and> next_appender v = next_appender w \<and>
      mgr_built v = mgr_built w \<and> mgr_loggers v = mgr_loggers w \<and> mgr_root v = mgr_root w \<and>
      w_time v = w_time w \<and> w_can_open v = w_can_open w \<and> w_can_write v = w_can_write w \<and>
      w_tid v = w_tid w \<and> w_now v = w_now w \<and> w_srcdir v = w_srcdir w \<and>
      (\<forall>ap. la_level (appenders v ap) = la_level (appenders w ap) \<and>
            la_hasFormatter (appenders v ap) = la_hasFormatter (appenders w ap) \<and>
            same_kind (la_class (appenders w ap)) (la_class (appenders v ap)) \<and>
            (la_formatter (appenders w ap) \<noteq> None \<longrightarrow>
               la_formatter (appenders v ap) = la_formatter (appenders w ap))))"

lemma same_kind_refl [simp]: "same_kind c c"
  by (simp add: same_kind_def split: appender_class.split)

lemma same_kind_file [simp]: "same_kind (FileLogAppender f s) (FileLogAppender g t) = (f = g)"
  by (simp add: same_kind_def)

lemma same_kind_trans: "same_kind b c \<Longrightarrow> same_kind c d \<Longrightarrow> same_kind b d"
  by (auto simp: same_kind_def split: appender_class.splits)

lemma log_frame_refl [simp]: "log_frame w w"
  by (simp add: log_frame_def)

lemma log_frame_trans: "log_frame u v \<Longrightarrow> log_frame v w \<Longrightarrow> log_frame u w"
  unfolding log_frame_def using same_kind_trans by (metis (no_types, lifting))

lemma same_kind_stdout: "same_kind c d \<Longrightarrow> d = StdoutLogAppender \<longleftrightarrow> c = StdoutLogAppender"
  by (auto simp: same_kind_def split: appender_class.splits)

lemma log_frame_ready: "log_frame w v \<Longrightarrow> file_ready (appenders w ap) \<Longrightarrow> file_ready (appenders v ap)"
  unfolding log_frame_def file_ready_def using same_kind_stdout by metis

lemma log_frame_inv:
  assumes inv: "log_inv w" and fr: "log_frame w v"
  shows "log_inv v"
proof -
  have same: "loggers v = loggers w" "next_logger v = next_logger w" "next_appender v = next_appender w"
    "mgr_built v = mgr_built w" "mgr_loggers v = mgr_loggers w" "mgr_root v = mgr_root w"
    and flag: "\<And>ap. la_hasFormatter (appenders v ap) = la_hasFormatter (appenders w ap)"
    using fr by (simp_all add: log_frame_def)
  have "logger_ok v l" if "l < next_logger w" for l
    using log_inv_loggerD [OF inv that] log_frame_ready [OF fr] by (simp add: logger_ok_def same)
  moreover have "mgr_ok v" using log_inv_mgr [OF inv] by (simp add: mgr_ok_def same)
  ultimately show ?thesis using inv by (simp add: log_inv_def same flag)
qed

section \<open>The interface of \<open>LogAppender\<close>\<close>

text \<open>
  What \<open>Logger::log\<close> relies on when it calls the abstract \<open>LogAppender::log\<close>: the call stays in
  the frame, does nothing below the appender's level, and ends without an error other than an
  unprintable date whenever the appender is ready.
\<close>

definition log_result_ok :: "error + unit \<Rightarrow> bool" where
  "log_result_ok r = (r = Inr () \<or> r = Inl (Undefined Indeterminate_Value))"

locale appender_interface =
  fixes log :: "appender_ptr \<Rightarrow> logger_ptr \<Rightarrow> level \<Rightarrow> log_event \<Rightarrow> (world, unit) comp"
    and accepts :: "log_appender \<Rightarrow> bool"
  assumes log_stays: "log_frame w (snd (log ap l lv ev w))"
    and log_filtered: "lv < la_level (appenders w ap) \<Longrightarrow> accepts (appenders w ap) \<Longrightarrow> log ap l lv ev w = (Inr (), w)"
    and log_safe: "accepts (appenders w ap) \<Longrightarrow> file_ready (appenders w ap) \<Longrightarrow>
      log_result_ok (fst (log ap l lv ev w))"
    and accepts_frame: "log_frame w v \<Longrightarrow> accepts (appenders w ap) \<Longrightarrow> accepts (appenders v ap)"
begin

lemma loop_stays: "log_frame w (snd (for_each aps (\<lambda>ap. log ap l lv ev) w))"
proof (rule for_each_invariant [where I = "log_frame w"])
  show "log_frame w w" by simp
next
  fix ap u
  assume "log_frame w u"
  with log_stays [of u] show "log_frame w (snd (log ap l lv ev u))" by (rule log_frame_trans [rotated])
qed

lemma loop_safe:
  "\<forall>ap\<in>set aps. accepts (appenders w ap) \<and> file_ready (appenders w ap) \<Longrightarrow>
     log_result_ok (fst (for_each aps (\<lambda>ap. log ap l lv ev) w))"
proof (induction aps arbitrary: w)
  case Nil
  then show ?case by (simp add: comp_simps log_result_ok_def)
next
  case (Cons ap aps)
  obtain r v where step: "log ap l lv ev w = (r, v)" by fastforce
  then have fr: "log_frame w v" using log_stays [of w ap l lv ev] by simp
  have r: "log_result_ok r" using log_safe [of w ap l lv ev] Cons.prems step by simp
  show ?case
  proof (cases r)
    case (Inl e)
    with r step show ?thesis by (simp add: comp_simps)
  next
    case (Inr x)
    have "\<forall>a\<in>set aps. accepts (appenders v a) \<and> file_ready (appenders v a)"
      using Cons.prems fr accepts_frame log_frame_ready by auto
    then have "log_result_ok (fst (for_each aps (\<lambda>ap. log ap l lv ev) v))" by (rule Cons.IH)
    with Inr step show ?thesis by (simp add: comp_simps)
  qed
qed

text \<open>Appenders whose level is above the event's can be left out of the loop.\<close>

lemma loop_filtered:
  "\<forall>ap\<in>set aps. accepts (appenders w ap) \<Longrightarrow>
     for_each aps (\<lambda>ap. log ap l lv ev) w =
     for_each (filter (\<lambda>ap. la_level (appenders w ap) \<le> lv) aps) (\<lambda>ap. log ap l lv ev) w"
proof (induction aps arbitrary: w)
  case Nil
  then show ?case by simp
next
  case (Cons ap aps)
  obtain r v where step: "log ap l lv ev w = (r, v)" by fastforce
  then have fr: "log_frame w v" using log_stays [of w ap l lv ev] by simp
  then have "\<forall>a\<in>set aps. accepts (appenders v a)" using Cons.prems accepts_frame by auto
  note IH = Cons.IH [OF this]
  have same: "(\<lambda>a. la_level (appenders v a) \<le> lv) = (\<lambda>a. la_level (appenders w a) \<le> lv)"
    using fr by (simp add: log_frame_def)
  show ?case
  proof (cases "la_level (appenders w ap) \<le> lv")
    case True
    with IH step same show ?thesis by (cases r) (simp_all add: comp_simps)
  next
    case False
    with log_filtered [of lv w ap l ev] Cons.prems step have "r = Inr ()" "v = w" by auto
    with False IH step same show ?thesis by (simp add: comp_simps)
  qed
qed

end

end
