(* ===== verification/Logger_Log.thy ===== *)
theory Logger_Log
  imports Logger_Invariant
begin

text \<open>
  \<open>Logger::log\<close>: the two appender classes and their virtual dispatch provide the interface, the
  recursion over root loggers has enough fuel, every call stays in the frame and is safe in a
  world that satisfies the invariant; then the step relation of the public operations, its
  invariant, and the properties of the module.
\<close>

section \<open>The appender classes provide the interface\<close>

lemma format_item_error: "format_item_text E name lv ev i = Inl e \<Longrightarrow> e = Undefined Indeterminate_Value"
  by (cases i) (auto simp: format_date_time_def split: option.splits)

lemma lf_format_error: "lf_format E name lv ev f = Inl e \<Longrightarrow> e = Undefined Indeterminate_Value"
proof -
  have "format_items E name lv ev is = Inl e \<Longrightarrow> e = Undefined Indeterminate_Value" for "is"
    by (induction "is") (auto split: sum.splits dest: format_item_error)
  then show "lf_format E name lv ev f = Inl e \<Longrightarrow> e = Undefined Indeterminate_Value"
    by (simp add: lf_format_def)
qed

definition is_stdout :: "log_appender \<Rightarrow> bool" where
  "is_stdout a = (la_class a = StdoutLogAppender)"

definition is_file :: "log_appender \<Rightarrow> bool" where
  "is_file a = (la_class a \<noteq> StdoutLogAppender)"

lemma print_frame [simp]: "log_frame w (print s v) = log_frame w v"
  by (simp add: log_frame_def)

lemma give_default_frame:
  "la_formatter (appenders w ap) = None \<Longrightarrow>
     log_frame w (upd_appender ap (la_formatter_update (\<lambda>_. fm)) w)"
  by (simp add: log_frame_def)

lemma stream_frame:
  "la_class (appenders w ap) = FileLogAppender fn st \<Longrightarrow>
     log_frame w (upd_appender ap (la_class_update (\<lambda>_. FileLogAppender fn st')) w)"
  by (simp add: log_frame_def)

lemma stdout_log_frame: "log_frame w (snd (stdout_log ap l lv ev w))"
  by (auto simp: stdout_log_def Let_def give_default_frame split: option.split sum.split)

lemma file_log_frame: "log_frame w (snd (file_log ap l lv ev w))"
  by (auto simp: file_log_def stream_frame split: option.split sum.split appender_class.split)

lemma log_frame_class: "log_frame w v \<Longrightarrow> same_kind (la_class (appenders w ap)) (la_class (appenders v ap))"
  by (simp add: log_frame_def)

lemma accepts_class_frame:
  assumes "log_frame w v"
  shows "is_stdout (appenders v ap) = is_stdout (appenders w ap)"
    and "is_file (appenders v ap) = is_file (appenders w ap)"
  using same_kind_stdout [OF log_frame_class [OF assms], of ap]
  by (simp_all add: is_stdout_def is_file_def)

lemma stdout_log_safe: "log_result_ok (fst (stdout_log ap l lv ev w))"
  by (auto simp: stdout_log_def Let_def log_result_ok_def dest: lf_format_error
      split: option.split sum.split)

lemma file_log_safe:
  assumes "is_file (appenders w ap)" "file_ready (appenders w ap)"
  shows "log_result_ok (fst (file_log ap l lv ev w))"
  using assms
  by (auto simp: file_log_def log_result_ok_def file_ready_def is_file_def dest: lf_format_error
      split: option.split sum.split appender_class.split)

lemma log_filtered_eqs:
  assumes "lv < la_level (appenders w ap)"
  shows "stdout_log ap l lv ev w = (Inr (), w)" and "file_log ap l lv ev w = (Inr (), w)"
proof -
  have "\<not> la_level (appenders w ap) \<le> lv" using assms by simp
  then show "stdout_log ap l lv ev w = (Inr (), w)" and "file_log ap l lv ev w = (Inr (), w)"
    by (simp_all only: stdout_log_def file_log_def if_False)
qed

interpretation stdout_appender: appender_interface stdout_log is_stdout
  by unfold_locales
    (simp_all add: stdout_log_frame stdout_log_safe accepts_class_frame log_filtered_eqs)

interpretation file_appender: appender_interface file_log is_file
  by unfold_locales
    (simp_all add: file_log_frame file_log_safe accepts_class_frame log_filtered_eqs)

interpretation any_appender: appender_interface appender_log "\<lambda>_. True"
proof
  show "log_frame w (snd (appender_log ap l lv ev w))" for w ap l lv ev
    by (simp add: appender_log_def stdout_appender.log_stays file_appender.log_stays
        split: appender_class.split)
  show "appender_log ap l lv ev w = (Inr (), w)"
    if "lv < la_level (appenders w ap)" for w ap l lv ev
    using that stdout_appender.log_filtered [of lv w ap l ev] file_appender.log_filtered [of lv w ap l ev]
    by (simp add: appender_log_def is_stdout_def is_file_def split: appender_class.split)
  show "log_result_ok (fst (appender_log ap l lv ev w))"
    if "file_ready (appenders w ap)" for w ap l lv ev
    using that stdout_appender.log_safe [of w ap l lv ev] file_appender.log_safe [of w ap l lv ev]
    by (simp add: appender_log_def is_stdout_def is_file_def split: appender_class.split)
qed simp

section \<open>\<open>Logger::log\<close>\<close>

lemma Logger_log_fuel_frame: "log_frame w (snd (Logger_log_fuel n l lv ev w))"
  by (induction n arbitrary: l)
    (auto simp: throw_apply any_appender.loop_stays split: option.split)

lemma Logger_log_frame: "log_frame w (snd (Logger_log l lv ev w))"
  unfolding Logger_log_def by (rule Logger_log_fuel_frame)

lemma Logger_log_inv [inv_intros]: "log_inv w \<Longrightarrow> log_inv (snd (Logger_log l lv ev w))"
  using Logger_log_frame by (rule log_frame_inv [rotated])

text \<open>
  The specification: which logger's appenders receive an event. A logger whose level is above the
  event's takes nothing; one without appenders passes it to its root, whose level counts again.
\<close>

definition route :: "world \<Rightarrow> logger_ptr \<Rightarrow> level \<Rightarrow> logger_ptr option" where
  "route w l lv =
     (if \<not> lg_level (loggers w l) \<le> lv then None
      else if lg_appenders (loggers w l) \<noteq> [] then Some l
      else case lg_root (loggers w l) of
        None \<Rightarrow> None
      | Some r \<Rightarrow>
          if lg_level (loggers w r) \<le> lv \<and> lg_appenders (loggers w r) \<noteq> [] then Some r else None)"

definition deliver :: "world \<Rightarrow> logger_ptr \<Rightarrow> level \<Rightarrow> log_event \<Rightarrow> (error + unit) \<times> world" where
  "deliver w l lv ev =
     (case route w l lv of
        None \<Rightarrow> (Inr (), w)
      | Some t \<Rightarrow>
          for_each (filter (\<lambda>ap. la_level (appenders w ap) \<le> lv) (lg_appenders (loggers w t)))
            (\<lambda>ap. appender_log ap t lv ev) w)"

lemma Logger_log_fuel_two:
  assumes "2 \<le> n" and "\<And>r. lg_root (loggers w l) = Some r \<Longrightarrow> lg_root (loggers w r) = None"
  shows "Logger_log_fuel n l lv ev w = deliver w l lv ev"
proof -
  obtain m where "n = Suc (Suc m)" using assms(1) by (metis add_2_eq_Suc le_Suc_ex)
  with assms(2) show ?thesis
    by (auto simp: deliver_def route_def any_appender.loop_filtered [symmetric] split: option.split)
qed

lemma Logger_log_deliver:
  assumes inv: "log_inv w" and l: "l < next_logger w"
  shows "Logger_log l lv ev w = deliver w l lv ev"
  unfolding Logger_log_def
proof (rule Logger_log_fuel_two)
  show "2 \<le> Suc (next_logger w)" using l by simp
next
  fix r
  assume "lg_root (loggers w l) = Some r"
  then show "lg_root (loggers w r) = None" using log_inv_root [OF inv l] by blast
qed

lemma route_in_heap:
  assumes "log_inv w" "l < next_logger w" "route w l lv = Some t"
  shows "t < next_logger w"
  using assms log_inv_root [OF assms(1,2)]
  by (auto simp: route_def split: if_splits option.splits)

lemma Logger_log_safe:
  assumes inv: "log_inv w" and l: "l < next_logger w"
  shows "log_result_ok (fst (Logger_log l lv ev w))"
proof (cases "route w l lv")
  case None
  then show ?thesis by (simp add: Logger_log_deliver [OF assms] deliver_def log_result_ok_def)
next
  case (Some t)
  have "\<forall>ap\<in>set (lg_appenders (loggers w t)). file_ready (appenders w ap)"
    using log_inv_appender [OF inv route_in_heap [OF inv l Some]] by blast
  with Some show ?thesis
    by (simp add: Logger_log_deliver [OF assms] deliver_def any_appender.loop_safe)
qed

section \<open>Public operations as steps\<close>

text \<open>
  One rule per public operation of the module, with arguments that exist; \<open>env\<close> is the rest of
  the machine: files, threads, the clock and the time zone change between calls. The formatter
  arguments are not null; theory \<open>Logger_Null\<close> adds the operations with null ones.
\<close>

inductive log_step :: "world \<Rightarrow> world \<Rightarrow> bool" where
  new_logger: "log_step w (snd (new_Logger name w))"
| new_stdout: "log_step w (snd (new_StdoutLogAppender w))"
| new_file: "log_step w (snd (new_FileLogAppender fn w))"
| add: "l < next_logger w \<Longrightarrow> ap < next_appender w \<Longrightarrow> log_step w (addAppender ap l w)"
| del: "l < next_logger w \<Longrightarrow> log_step w (delAppender ap l w)"
| clean: "l < next_logger w \<Longrightarrow> log_step w (cleanAppenders l w)"
| level: "l < next_logger w \<Longrightarrow> log_step w (setLevel lv l w)"
| formatter: "l < next_logger w \<Longrightarrow> log_step w (setFormatter (Some f) l w)"
| pattern: "l < next_logger w \<Longrightarrow> log_step w (setFormatter_pattern p l w)"
| ap_formatter: "ap < next_appender w \<Longrightarrow> log_step w (upd_appender ap (la_setFormatter (Some f)) w)"
| ap_level: "ap < next_appender w \<Longrightarrow> log_step w (upd_appender ap (la_setLevel lv) w)"
| ap_reopen: "ap < next_appender w \<Longrightarrow> log_step w (snd (reopen ap w))"
| get_root: "log_step w (snd (getRoot w))"
| get_logger: "log_step w (snd (getLogger name w))"
| emit: "l < next_logger w \<Longrightarrow> log_step w (snd (Logger_log l lv ev w))"
| env: "log_step w (w\<lparr>w_time := t, w_can_open := co, w_can_write := cw, w_tid := tid, w_now := now\<rparr>)"

inductive log_reachable :: "world \<Rightarrow> bool" where
  start: "next_logger w = 0 \<Longrightarrow> next_appender w = 0 \<Longrightarrow> \<not> mgr_built w \<Longrightarrow> log_reachable w"
| step: "log_reachable w \<Longrightarrow> log_step w v \<Longrightarrow> log_reachable v"

lemma reopen_inv [inv_intros]: "log_inv w \<Longrightarrow> log_inv (snd (reopen ap w))"
  by (auto simp: reopen_def file_ready_def intro!: upd_appender_inv
      split: appender_class.split prod.split)

lemma env_inv [inv_intros]:
  "log_inv w \<Longrightarrow>
     log_inv (w\<lparr>w_time := t, w_can_open := co, w_can_write := cw, w_tid := tid, w_now := now\<rparr>)"
  by (simp add: log_inv_def logger_ok_def mgr_ok_def)

lemma log_step_inv: "log_step w v \<Longrightarrow> log_inv w \<Longrightarrow> log_inv v"
  by (induction rule: log_step.induct) (simp_all add: inv_intros)

lemma log_reachable_inv: "log_reachable w \<Longrightarrow> log_inv w"
proof (induction rule: log_reachable.induct)
  case (start w)
  then show ?case by (simp add: log_inv_def mgr_ok_def)
next
  case (step w v)
  then show ?case by (blast intro: log_step_inv)
qed

lemma manager_getLogger_spec:
  assumes inv: "log_inv w" and built: "mgr_built w" and get: "manager_getLogger name w = (l, v)"
  shows "l < next_logger v \<and> lg_name (loggers v l) = name \<and> mgr_built v \<and>
    manager_getLogger name v = (l, v) \<and>
    (\<forall>n j. map_of (mgr_loggers w) n = Some j \<longrightarrow> map_of (mgr_loggers v) n = Some j \<and> loggers v j = loggers w j)"
proof (cases "map_of (mgr_loggers w) name")
  case (Some j)
  with get have "v = w" "l = j" by (simp_all add: manager_getLogger_def)
  with Some log_inv_find [OF inv built Some] built show ?thesis by (simp add: manager_getLogger_def)
next
  case None
  obtain k w1 where nl: "new_Logger name w = (k, w1)" by fastforce
  note f = new_Logger_facts [OF nl]
  have ok: "omap_ok (mgr_loggers w)" using inv built by (simp add: log_inv_def mgr_ok_def)
  have "j \<noteq> k" if "map_of (mgr_loggers w) n = Some j" for n j
    using log_inv_find [OF inv built that] f(1) by simp
  with get None ok omap.find_put_missing [OF ok None] built f(2-9) show ?thesis
    by (auto simp: manager_getLogger_def nl)
qed

text \<open>Loggers are never destroyed: their number only grows.\<close>

lemma upd_logger_count [simp]:
  "next_logger (setFormatter fm l w) = next_logger w"
  "next_logger (addAppender ap l w) = next_logger w"
  by (simp_all add: setFormatter_def addAppender_def Let_def)

lemma new_Logger_count: "next_logger w \<le> next_logger (snd (new_Logger name w))"
  by (simp add: new_Logger_def alloc_logger_def alloc_appender_def new_StdoutLogAppender_def Let_def)

lemma GetInstance_count: "next_logger w \<le> next_logger (GetInstance w)"
  by (simp add: manager_construction)

lemma getLogger_count: "next_logger w \<le> next_logger (snd (getLogger name w))"
proof -
  have "next_logger (GetInstance w) \<le> next_logger (snd (manager_getLogger name (GetInstance w)))"
    using new_Logger_count [of "GetInstance w" name]
    by (auto simp: manager_getLogger_def split: option.split prod.split)
  with GetInstance_count [of w] show ?thesis by (simp add: getLogger_def)
qed

lemma getRoot_count: "next_logger w \<le> next_logger (snd (getRoot w))"
  using GetInstance_count [of w] by (simp add: getRoot_def Let_def)

lemma log_step_count: "log_step w v \<Longrightarrow> next_logger w \<le> next_logger v"
proof (induction rule: log_step.induct)
  case (emit l w lv ev)
  show ?case using Logger_log_frame [of w l lv ev] by (simp add: log_frame_def)
next
  case (ap_reopen ap w)
  show ?case by (simp add: reopen_def split: appender_class.split prod.split)
qed (simp_all add: new_Logger_count getLogger_count getRoot_count new_StdoutLogAppender_def
    new_FileLogAppender_def alloc_appender_def delAppender_def cleanAppenders_def setLevel_def
    setFormatter_pattern_def print_def Let_def)

text \<open>A world to start from: nothing allocated, every file can be opened and written.\<close>

definition start_env :: time_env where
  "start_env = \<lparr>env_localtime = (\<lambda>s. Some \<lparr>tm_sec = 5, tm_min = 4, tm_hour = 3, tm_mday = 2,
     tm_mon = 0, tm_year = 121, tm_wday = 6, tm_yday = 1\<rparr>), env_strftime_ext = (\<lambda>s t. ([], 1))\<rparr>"

definition start_world :: world where
  "start_world =
     \<lparr>loggers = (\<lambda>_. \<lparr>lg_name = [], lg_level = UNKNOW, lg_appenders = [], lg_formatter = None, lg_root = None\<rparr>),
      next_logger = 0, appenders = (\<lambda>_. new_appender StdoutLogAppender), next_appender = 0,
      mgr_built = False, mgr_loggers = [], mgr_root = 0, std_out = [], w_time = start_env,
      w_can_open = (\<lambda>_. True), w_can_write = (\<lambda>_. True), w_tid = 42, w_now = 0, w_srcdir = ''/''\<rparr>"

lemma start_world_reachable: "log_reachable start_world"
  by (rule log_reachable.start) (simp_all add: start_world_def)

lemma start_world_env [simp]:
  "\<not> mgr_built start_world" "next_logger start_world = 0" "next_appender start_world = 0"
  "std_out start_world = []" "w_can_open start_world = (\<lambda>_. True)" "w_can_write start_world = (\<lambda>_. True)"
  "w_time start_world = start_env"
  by (simp_all add: start_world_def)

end
