(* ===== verification/Logger_Null.thy ===== *)
theory Logger_Null
  imports Logger_Log
begin

text \<open>
  Null formatters. \<open>Logger::setFormatter\<close> and \<open>LogAppender::setFormatter\<close> take any
  \<open>shared_ptr\<close>, so that the invariant of \<open>Logger_Invariant\<close> holds only as long as the program passes
  none that is null. Here are the operations with null formatters, the part of the invariant that is
  left, and what a call to \<open>log\<close> then does.
\<close>

section \<open>The operations with null formatters\<close>

inductive public_step :: "world \<Rightarrow> world \<Rightarrow> bool" where
  known: "log_step w v \<Longrightarrow> public_step w v"
| null_formatter: "l < next_logger w \<Longrightarrow> public_step w (setFormatter None l w)"
| null_ap_formatter: "ap < next_appender w \<Longrightarrow> public_step w (upd_appender ap (la_setFormatter None) w)"

inductive public_reachable :: "world \<Rightarrow> bool" where
  start: "next_logger w = 0 \<Longrightarrow> next_appender w = 0 \<Longrightarrow> \<not> mgr_built w \<Longrightarrow> public_reachable w"
| step: "public_reachable w \<Longrightarrow> public_step w v \<Longrightarrow> public_reachable v"

lemma log_reachable_public: "log_reachable w \<Longrightarrow> public_reachable w"
  by (induction rule: log_reachable.induct) (blast intro: public_reachable.intros public_step.known)+

section \<open>The invariant without formatters\<close>

text \<open>The world in which nothing lacks a formatter: the rest of the invariant is the invariant there.\<close>

definition mended :: "world \<Rightarrow> world" where
  "mended w = w\<lparr>loggers := (\<lambda>l. (loggers w l)\<lparr>lg_formatter := Some (LogFormatter default_pattern)\<rparr>),
     appenders := (\<lambda>a. (appenders w a)
       \<lparr>la_formatter := Some (LogFormatter default_pattern), la_hasFormatter := False\<rparr>)\<rparr>"

definition heap_inv :: "world \<Rightarrow> bool" where
  "heap_inv w = log_inv (mended w)"

lemma mended_simps [simp]:
  "next_logger (mended w) = next_logger w" "next_appender (mended w) = next_appender w"
  "mgr_built (mended w) = mgr_built w" "mgr_root (mended w) = mgr_root w" "mgr_loggers (mended w) = mgr_loggers w"
  "lg_appenders (loggers (mended w) l) = lg_appenders (loggers w l)" "lg_root (loggers (mended w) l) = lg_root (loggers w l)"
  "lg_name (loggers (mended w) l) = lg_name (loggers w l)" "mended (mended w) = mended w"
  by (simp_all add: mended_def)

lemma heap_inv_iff:
  "heap_inv w \<longleftrightarrow> mgr_ok w \<and> (\<forall>l<next_logger w. (\<forall>ap\<in>set (lg_appenders (loggers w l)). ap < next_appender w) \<and>
     (\<forall>r. lg_root (loggers w l) = Some r \<longrightarrow> mgr_built w \<and> r = mgr_root w))"
  by (auto simp: heap_inv_def mended_def log_inv_def logger_ok_def file_ready_def mgr_ok_def)

lemma log_inv_heap: "log_inv w \<Longrightarrow> heap_inv w"
  by (auto simp: heap_inv_iff log_inv_def logger_ok_def)

text \<open>Steps that create no logger: which appenders the loggers may then have.\<close>

lemma heap_inv_same_loggers:
  assumes "heap_inv w" and "next_logger v = next_logger w" "next_appender w \<le> next_appender v"
    "mgr_built v = mgr_built w" "mgr_root v = mgr_root w" "mgr_loggers v = mgr_loggers w"
    and "\<And>l. lg_name (loggers v l) = lg_name (loggers w l)" "\<And>l. lg_root (loggers v l) = lg_root (loggers w l)"
    and "\<And>l. l < next_logger w \<Longrightarrow>
      set (lg_appenders (loggers v l)) \<subseteq> set (lg_appenders (loggers w l)) \<union> {..<next_appender v}"
  shows "heap_inv v"
  unfolding heap_inv_iff
proof (intro conjI allI impI)
  show "mgr_ok v" using assms(1-8) by (simp add: heap_inv_iff mgr_ok_def)
  fix l
  assume "l < next_logger v"
  then have l: "l < next_logger w" using assms(2) by simp
  with assms(1) have "ap < next_appender w" if "ap \<in> set (lg_appenders (loggers w l))" for ap
    using that by (simp add: heap_inv_iff)
  then show "\<forall>ap\<in>set (lg_appenders (loggers v l)). ap < next_appender v"
    using assms(3) assms(9) [OF l] by fastforce
  fix r
  assume "lg_root (loggers v l) = Some r"
  then show "mgr_built v" "r = mgr_root v" using assms(1,4,5,8) l by (auto simp: heap_inv_iff)
qed

text \<open>Steps that create loggers do the same in the mended world.\<close>

lemma mended_steps:
  "mended (snd (new_Logger name (mended w))) = mended (snd (new_Logger name w))"
  "mended (GetInstance (mended w)) = mended (GetInstance w)"
  "mended (snd (manager_getLogger name (mended w))) = mended (snd (manager_getLogger name w))"
proof -
  show new: "mended (snd (new_Logger name (mended w))) = mended (snd (new_Logger name w))" for name w
    by (simp add: mended_def new_Logger_def new_StdoutLogAppender_def alloc_appender_def alloc_logger_def
        new_appender_def Let_def fun_eq_iff)
  show "mended (GetInstance (mended w)) = mended (GetInstance w)"
    by (simp add: mended_def manager_construction fun_eq_iff)
  show "mended (snd (manager_getLogger name (mended w))) = mended (snd (manager_getLogger name w))"
    by (simp add: mended_def manager_getLogger_def new_Logger_def new_StdoutLogAppender_def alloc_appender_def
        alloc_logger_def new_appender_def Let_def fun_eq_iff split: option.split)
qed

lemma mended_inv: "log_inv w \<Longrightarrow> log_inv (mended w)"
  using log_inv_heap by (simp add: heap_inv_def)

lemma heap_inv_creates:
  assumes "heap_inv w"
  shows "heap_inv (snd (new_Logger name w))" "heap_inv (GetInstance w)" "heap_inv (snd (getRoot w))"
    "heap_inv (snd (getLogger name w))"
proof -
  have w: "log_inv (mended w)" using assms by (simp add: heap_inv_def)
  show "heap_inv (snd (new_Logger name w))"
    using mended_inv [OF new_Logger_inv [OF w]] by (simp add: heap_inv_def mended_steps)
  show g: "heap_inv (GetInstance w)"
    using mended_inv [OF GetInstance_inv [OF w]] by (simp add: heap_inv_def mended_steps)
  then show "heap_inv (snd (getRoot w))" by (simp add: getRoot_def Let_def)
  have "log_inv (mended (GetInstance w))" using g by (simp add: heap_inv_def)
  from mended_inv [OF manager_getLogger_inv [OF this]] show "heap_inv (snd (getLogger name w))"
    by (simp add: heap_inv_def mended_steps getLogger_def)
qed

lemma heap_inv_log_step:
  assumes "log_step w v" and inv: "heap_inv w"
  shows "heap_inv v"
  using assms
proof (cases rule: log_step.cases)
  case (emit l lv ev)
  then show ?thesis using Logger_log_frame [of w l lv ev]
    by (intro heap_inv_same_loggers [OF inv]) (simp_all add: log_frame_def)
next
  case (ap_reopen ap)
  then show ?thesis
    by (intro heap_inv_same_loggers [OF inv]) (auto simp: reopen_def split: appender_class.split prod.split)
next
  case (del l ap)
  then show ?thesis using set_erase_first [of ap "lg_appenders (loggers w l)"]
    by (intro heap_inv_same_loggers [OF inv]) (auto simp: delAppender_def)
next
  case (new_logger name)
  then show ?thesis using heap_inv_creates(1) [OF inv] by simp
next
  case get_root
  then show ?thesis using heap_inv_creates(3) [OF inv] by simp
next
  case (get_logger name)
  then show ?thesis using heap_inv_creates(4) [OF inv] by simp
qed (rule heap_inv_same_loggers [OF inv];
     auto simp: new_StdoutLogAppender_def new_FileLogAppender_def alloc_appender_def addAppender_def
       cleanAppenders_def setLevel_def setFormatter_def setFormatter_pattern_def print_def Let_def)+

lemma public_reachable_inv: "public_reachable w \<Longrightarrow> heap_inv w"
proof (induction rule: public_reachable.induct)
  case (start w)
  then show ?case by (simp add: heap_inv_iff mgr_ok_def)
next
  case (step w v)
  from step.hyps(2) step.IH show ?case
  proof (cases rule: public_step.cases)
    case known
    with step.IH show ?thesis by (blast intro: heap_inv_log_step)
  qed (rule heap_inv_same_loggers [OF step.IH]; auto simp: setFormatter_def Let_def)+
qed

section \<open>Logging with null formatters\<close>

text \<open>An appender to a file that would take the event but has no formatter.\<close>

definition null_receiver :: "world \<Rightarrow> logger_ptr \<Rightarrow> level \<Rightarrow> bool" where
  "null_receiver w l lv =
     (\<exists>t ap. route w l lv = Some t \<and> ap \<in> set (lg_appenders (loggers w t)) \<and>
        la_level (appenders w ap) \<le> lv \<and> is_file (appenders w ap) \<and> la_formatter (appenders w ap) = None)"

lemma file_ready_iff: "file_ready a \<longleftrightarrow> \<not> (is_file a \<and> la_formatter a = None)"
  by (auto simp: file_ready_def is_file_def)

text \<open>A call to \<open>log\<close> of one appender gives no appender to a file a formatter.\<close>

lemma appender_log_null:
  assumes "is_file (appenders w ap)" and "la_formatter (appenders w ap) = None"
  shows "is_file (appenders (snd (appender_log a l lv ev w)) ap) \<and>
    la_formatter (appenders (snd (appender_log a l lv ev w)) ap) = None"
proof
  show "is_file (appenders (snd (appender_log a l lv ev w)) ap)"
    using accepts_class_frame(2) [OF any_appender.log_stays] assms(1) by blast
  show "la_formatter (appenders (snd (appender_log a l lv ev w)) ap) = None"
    using assms by (auto simp: appender_log_def stdout_log_def file_log_def is_file_def print_def Let_def
        split: appender_class.split option.split sum.split)
qed

lemma loop_null:
  assumes "ap \<in> set aps" and "is_file (appenders w ap)" "la_formatter (appenders w ap) = None"
    and "\<forall>a\<in>set aps. la_level (appenders w a) \<le> lv"
  shows "fst (for_each aps (\<lambda>a. appender_log a l lv ev) w) \<in>
    {Inl (Undefined Indeterminate_Value), Inl (Undefined Null_Dereference)}"
  using assms
proof (induction aps arbitrary: w)
  case (Cons a aps)
  obtain r v where step: "appender_log a l lv ev w = (r, v)" by fastforce
  have v: "is_file (appenders v ap)" "la_formatter (appenders v ap) = None"
    using appender_log_null [OF Cons.prems(2,3), of a l lv ev] step by simp_all
  have lev: "la_level (appenders v x) = la_level (appenders w x)" for x
    using any_appender.log_stays [of w a l lv ev] step by (simp add: log_frame_def)
  show ?case
  proof (cases "file_ready (appenders w a)")
    case False
    then have "r = Inl (Undefined Null_Dereference)"
      using step Cons.prems(4)
      by (auto simp: file_ready_def appender_log_def file_log_def split: appender_class.splits)
    with step show ?thesis by (simp add: comp_simps)
  next
    case True
    then have r: "log_result_ok r" using any_appender.log_safe [of w a l lv ev] step by simp
    have "a \<noteq> ap" using True Cons.prems(2,3) by (auto simp: file_ready_iff)
    with Cons.prems(1) have "ap \<in> set aps" by simp
    from Cons.IH [OF this v] Cons.prems(4) lev
    have "fst (for_each aps (\<lambda>a. appender_log a l lv ev) v) \<in>
      {Inl (Undefined Indeterminate_Value), Inl (Undefined Null_Dereference)}" by simp
    with r step show ?thesis by (auto simp: comp_simps log_result_ok_def)
  qed
qed simp

lemma Logger_log_null:
  assumes inv: "heap_inv w" and l: "l < next_logger w"
  shows "Logger_log l lv ev w = deliver w l lv ev"
    and "\<not> null_receiver w l lv \<Longrightarrow> log_result_ok (fst (Logger_log l lv ev w))"
    and "null_receiver w l lv \<Longrightarrow> fst (Logger_log l lv ev w) \<in>
      {Inl (Undefined Indeterminate_Value), Inl (Undefined Null_Dereference)}"
proof -
  have root: "lg_root (loggers w r) = None" if "lg_root (loggers w l) = Some r" for r
  proof -
    have "lg_root (loggers (mended w) r) = None"
      using log_inv_root [of "mended w" l r] inv l that unfolding heap_inv_def mended_simps by blast
    then show ?thesis by simp
  qed
  show deliver: "Logger_log l lv ev w = deliver w l lv ev"
    unfolding Logger_log_def by (rule Logger_log_fuel_two) (use l root in simp_all)
  show "log_result_ok (fst (Logger_log l lv ev w))" if "\<not> null_receiver w l lv"
  proof (cases "route w l lv")
    case None
    then show ?thesis by (simp add: deliver deliver_def log_result_ok_def)
  next
    case (Some t)
    with that show ?thesis
      unfolding deliver deliver_def
      by (auto intro!: any_appender.loop_safe simp: null_receiver_def file_ready_iff)
  qed
  show "fst (Logger_log l lv ev w) \<in> {Inl (Undefined Indeterminate_Value), Inl (Undefined Null_Dereference)}"
    if null: "null_receiver w l lv"
  proof -
    from null obtain t ap where route: "route w l lv = Some t" and ap: "ap \<in> set (lg_appenders (loggers w t))"
      "la_level (appenders w ap) \<le> lv" "is_file (appenders w ap)" "la_formatter (appenders w ap) = None"
      by (auto simp: null_receiver_def)
    have "fst (for_each (filter (\<lambda>a. la_level (appenders w a) \<le> lv) (lg_appenders (loggers w t)))
        (\<lambda>a. appender_log a t lv ev) w) \<in>
      {Inl (Undefined Indeterminate_Value), Inl (Undefined Null_Dereference)}"
      by (rule loop_null [of ap]) (use ap in simp_all)
    then show ?thesis by (simp only: deliver deliver_def route option.case)
  qed
qed

end
