(* ===== verification/Logger_Properties.thy ===== *)
theory Logger_Properties
  imports Logger_Null
begin

text \<open>
  The properties of the logging module in the worlds its public operations reach: safety of
  \<open>log\<close>, delivery, the registry of the manager, formatters, file streams.
\<close>

section \<open>Shared facts\<close>

lemma reachable_getLogger: "log_reachable w \<Longrightarrow> log_reachable (snd (getLogger name w))"
  by (rule log_reachable.step) (auto intro: log_step.intros)

lemma reachable_getRoot: "log_reachable w \<Longrightarrow> log_reachable (snd (getRoot w))"
  by (rule log_reachable.step) (auto intro: log_step.intros)

text \<open>The world of the first use of the macros: the manager and its root logger.\<close>

definition first_world :: world where
  "first_world = snd (getRoot start_world)"

lemma first_world_reachable: "log_reachable first_world"
  unfolding first_world_def by (rule reachable_getRoot [OF start_world_reachable])

lemma first_world_simps [simp]:
  "next_logger first_world = 1" "mgr_root first_world = 0" "mgr_built first_world"
  "next_appender first_world = 2" "mgr_loggers first_world = [(''root'', 0)]"
  "lg_appenders (loggers first_world 0) = [0, 1]" "lg_name (loggers first_world 0) = ''root''"
  "lg_level (loggers first_world 0) = DEBUG" "lg_root (loggers first_world 0) = None"
  "lg_formatter (loggers first_world 0) = Some (LogFormatter default_pattern)"
  "w_time first_world = start_env" "std_out first_world = []"
  by (simp_all add: first_world_def manager_construction)

lemma start_env_default:
  "\<exists>s. lf_format start_env name lv ev (LogFormatter default_pattern) = Inr s"
  by (simp add: default_formatter lf_format_def start_env_def format_date_time_def
      default_date_format_def strftime_default valid_tm_def)

text \<open>In that world a line to the root logger is printed without an error.\<close>

lemma first_world_logs: "DEBUG \<le> lv \<Longrightarrow> fst (log_root lv file line msg first_world) = Inr ()"
proof -
  assume lv: "DEBUG \<le> lv"
  have "getRoot first_world = (0, first_world)" by (simp add: getRoot_def GetInstance_def)
  moreover obtain s where "lf_format start_env ''root'' lv
      (stream_into msg (macro_event 0 lv file line first_world)) (LogFormatter default_pattern) = Inr s"
    using start_env_default by blast
  ultimately show ?thesis
    using lv
    by (simp add: log_root_def SYLAR_LOG_LEVEL_def LogEventWrap_destroy_def getLevel_def macro_event_def
        LogEvent_def stream_into_def Logger_log_def comp_simps appender_log_def stdout_log_def print_def
        first_world_def manager_construction)
qed

section \<open>Logging\<close>

text \<open>
  C2. In every world that the public operations reach, null formatters included, logging to any logger
  recurses finitely, and it ends in one of three ways: normally, with a date that the 64-byte buffer
  cannot hold, or by dereferencing a null formatter. It is safe from the last exactly when none of the
  appenders that receive the event is one to a file without a formatter: with one of them the call never
  ends normally. Such an appender exists only if the program has passed a null formatter: in the worlds
  reached by the operations with other arguments there is none, and they stay sound.
\<close>

theorem reachable_log_safe:
  assumes "public_reachable w" and "l < next_logger w"
  shows "public_reachable (snd (Logger_log l lv ev w)) \<and>
    (if null_receiver w l lv
     then fst (Logger_log l lv ev w) \<in> {Inl (Undefined Indeterminate_Value), Inl (Undefined Null_Dereference)}
     else fst (Logger_log l lv ev w) \<in> {Inr (), Inl (Undefined Indeterminate_Value)}) \<and>
    (log_reachable w \<longrightarrow> \<not> null_receiver w l lv \<and> log_inv (snd (Logger_log l lv ev w)))"
proof (intro conjI impI)
  note log = Logger_log_null [OF public_reachable_inv [OF assms(1)] assms(2)]
  show "public_reachable (snd (Logger_log l lv ev w))"
    using assms by (blast intro: public_reachable.step public_step.known log_step.emit)
  show "if null_receiver w l lv
     then fst (Logger_log l lv ev w) \<in> {Inl (Undefined Indeterminate_Value), Inl (Undefined Null_Dereference)}
     else fst (Logger_log l lv ev w) \<in> {Inr (), Inl (Undefined Indeterminate_Value)}"
    using log(2,3) by (auto simp: log_result_ok_def)
  assume "log_reachable w"
  then have inv: "log_inv w" by (rule log_reachable_inv)
  show "\<not> null_receiver w l lv"
  proof
    assume "null_receiver w l lv"
    then obtain t ap where "route w l lv = Some t" "ap \<in> set (lg_appenders (loggers w t))"
      "\<not> file_ready (appenders w ap)" by (auto simp: null_receiver_def file_ready_iff)
    with log_inv_appender [OF inv route_in_heap [OF inv assms(2)]] show False by blast
  qed
  show "log_inv (snd (Logger_log l lv ev w))" by (rule Logger_log_inv [OF inv])
qed

theorem reachable_log_safe_witness:
  "fst (Logger_log 0 INFO (LogEvent 0 INFO ''a.cc'' 7 0 42 0 0) first_world)
     \<in> {Inr (), Inl (Undefined Indeterminate_Value)} \<and>
   \<not> null_receiver first_world 0 INFO"
  using reachable_log_safe [OF log_reachable_public [OF first_world_reachable], of 0 INFO "LogEvent 0 INFO ''a.cc'' 7 0 42 0 0"]
    first_world_reachable by (auto split: if_splits)

text \<open>
  C3. \<open>Logger::log\<close> delivers as specified: to the logger's own appenders if it has any, otherwise
  to those of its root logger, provided that every logger on the way has a level not above the
  event's; of these exactly the appenders whose own level is not above the event's are written, in
  order.
\<close>

theorem log_delivers:
  assumes "log_reachable w" and "l < next_logger w"
  shows "Logger_log l lv ev w = deliver w l lv ev"
  using log_reachable_inv [OF assms(1)] assms(2) by (rule Logger_log_deliver)

theorem log_delivers_witness:
  "Logger_log 0 INFO (LogEvent 0 INFO ''a.cc'' 7 0 42 0 0) (setLevel WARN 0 first_world) =
     (Inr (), setLevel WARN 0 first_world)"
proof -
  let ?w = "setLevel WARN 0 first_world"
  have "log_reachable ?w"
    by (rule log_reachable.step [OF first_world_reachable]) (rule log_step.level, simp)
  moreover have "0 < next_logger ?w" by (simp add: setLevel_def)
  moreover have "route ?w 0 INFO = None" by (simp add: route_def setLevel_def less_eq_level_def)
  ultimately show ?thesis using log_delivers [of ?w 0 INFO] by (simp add: deliver_def)
qed

text \<open>
  The fallback to the root logger is logging to the root logger: the line carries the root
  logger's name, level filter and format, not those of the logger the program used.
\<close>

lemma fallback_is_root_log:
  assumes "log_reachable w" and "l < next_logger w" and "lg_root (loggers w l) = Some r"
    and "lg_appenders (loggers w l) = []" and "lg_level (loggers w l) \<le> lv"
  shows "Logger_log l lv ev w = Logger_log r lv ev w"
proof -
  note inv = log_reachable_inv [OF assms(1)]
  have r: "r < next_logger w" "lg_root (loggers w r) = None"
    using log_inv_root [OF inv assms(2,3)] by auto
  show ?thesis
    using assms(3-5) r(2)
    by (simp add: Logger_log_deliver [OF inv assms(2)] Logger_log_deliver [OF inv r(1)]
        deliver_def route_def)
qed

text \<open>
  The root logger of a fresh manager has two appenders to standard output, one from its own
  constructor and one from the manager's: every line logged to it is printed twice.
\<close>

lemma root_logs_twice:
  assumes "\<not> mgr_built w" and "getRoot w = (r, w1)" and "DEBUG \<le> lv"
    and "lf_format (w_time w) ''root'' lv ev (LogFormatter default_pattern) = Inr s"
  shows "fst (Logger_log r lv ev w1) = Inr () \<and>
    std_out (snd (Logger_log r lv ev w1)) = std_out w @ s @ [CHR 0x0A] @ s @ [CHR 0x0A]"
proof -
  have "r = next_logger w" and
    w1: "w1 = snd (getRoot w)" using assms(1,2) by (auto simp: manager_construction)
  with assms show ?thesis
    by (simp add: Logger_log_def manager_construction comp_simps appender_log_def stdout_log_def
        print_def)
qed

section \<open>The registry\<close>

text \<open>
  C5. \<open>getLogger\<close> is a registry: it returns a logger of the name asked for, the same one on every
  further call, creates it at most once and never disturbs a logger that is registered.
\<close>

theorem getLogger_registry:
  assumes "log_reachable w" and "getLogger name w = (l, v)"
  shows "l < next_logger v \<and> lg_name (loggers v l) = name \<and> getLogger name v = (l, v) \<and>
    (\<forall>n j. map_of (mgr_loggers (GetInstance w)) n = Some j \<longrightarrow>
       getLogger n v = (j, v) \<and> loggers v j = loggers (GetInstance w) j)"
proof -
  have "log_inv (GetInstance w)" using assms(1) by (simp add: GetInstance_inv log_reachable_inv)
  from manager_getLogger_spec [OF this, of name l v] assms(2) show ?thesis
    by (auto simp: getLogger_def manager_getLogger_def)
qed

theorem getLogger_registry_witness:
  "\<exists>v. getLogger ''system'' first_world = (1, v) \<and> getLogger ''system'' v = (1, v) \<and>
     getLogger ''root'' v = (0, v)"
proof -
  obtain v where v: "getLogger ''system'' first_world = (1, v)"
    by (simp add: getLogger_def manager_getLogger_def new_Logger_def alloc_logger_def Let_def)
  from getLogger_registry [OF first_world_reachable v] have "getLogger ''system'' v = (1, v)"
    "getLogger ''root'' v = (0, v)" by simp_all
  with v show ?thesis by blast
qed

section \<open>Formatters\<close>

text \<open>A world with one more appender, and the file appender attached to the root logger.\<close>

definition file_world :: world where
  "file_world = addAppender 2 0 (snd (new_FileLogAppender ''a.txt'' first_world))"

lemma file_world_reachable: "log_reachable file_world"
proof -
  let ?w = "snd (new_FileLogAppender ''a.txt'' first_world)"
  have "log_reachable ?w" using first_world_reachable log_step.new_file by (rule log_reachable.step)
  moreover have "0 < next_logger ?w" "2 < next_appender ?w"
    by (simp_all add: new_FileLogAppender_def alloc_appender_def)
  ultimately show ?thesis
    unfolding file_world_def by (blast intro: log_reachable.step log_step.add)
qed

lemma file_world_simps [simp]:
  "next_logger file_world = 1" "next_appender file_world = 3"
  "lg_appenders (loggers file_world 0) = [0, 1, 2]" "lg_level (loggers file_world 0) = DEBUG"
  "la_class (appenders file_world 2) =
     FileLogAppender ''a.txt'' \<lparr>os_open = True, os_good = True, os_text = []\<rparr>"
  "la_formatter (appenders file_world 2) = Some (LogFormatter default_pattern)"
  "la_level (appenders file_world 2) = DEBUG" "w_time file_world = start_env"
  "w_can_write file_world = (\<lambda>_. True)" "lg_name (loggers file_world 0) = ''root''"
  by (simp_all add: file_world_def new_FileLogAppender_def alloc_appender_def addAppender_def
      new_appender_def reopen_stream_def new_ofstream_def ofstream_close_def ofstream_open_def
      Let_def first_world_def manager_construction)

text \<open>
  A formatter set on an appender of its own is overwritten by the next formatter set on its
  logger: \<open>m_hasFormatter\<close>, which should protect it, is never set by any operation.
\<close>

lemma own_formatter_overwritten:
  assumes "log_reachable w" and "l < next_logger w" and "ap \<in> set (lg_appenders (loggers w l))"
  shows "la_formatter (appenders
      (setFormatter (Some f) l (upd_appender ap (la_setFormatter (Some g)) w)) ap) = Some f \<and>
    (\<forall>a<next_appender w. \<not> la_hasFormatter (appenders w a))"
proof -
  note inv = log_reachable_inv [OF assms(1)]
  have "ap < next_appender w" using log_inv_appender [OF inv assms(2,3)] by simp
  with log_inv_hasFormatter [OF inv] assms(3) show ?thesis
    by (simp add: setFormatter_def la_setFormatter_def appenders_fold_give_formatter)
qed

text \<open>
  \<open>Logger::setFormatter\<close> with a pattern: a pattern in error leaves every logger and every
  appender as it was and reports it; any other pattern becomes the formatter of the logger and of
  all its appenders, and of no other appender.
\<close>

lemma setFormatter_pattern_spec:
  fixes p :: string
  assumes "log_reachable w" and "l < next_logger w"
  defines "v \<equiv> setFormatter_pattern p l w"
  shows "if isError (LogFormatter p)
    then loggers v = loggers w \<and> appenders v = appenders w \<and>
      std_out v = std_out w @ LogFormatter_output p @ ''Logger  set  formatter name='' @
        lg_name (loggers w l) @ ''  value= '' @ p @ '' invalid formatter'' @ [CHR 0x0A]
    else lg_formatter (loggers v l) = Some (LogFormatter p) \<and>
      std_out v = std_out w @ LogFormatter_output p \<and>
      (\<forall>a. appenders v a = (if a \<in> set (lg_appenders (loggers w l))
         then (appenders w a)\<lparr>la_formatter := Some (LogFormatter p)\<rparr> else appenders w a))"
proof -
  note inv = log_reachable_inv [OF assms(1)]
  have "\<not> la_hasFormatter (appenders w a)" if "a \<in> set (lg_appenders (loggers w l))" for a
    using log_inv_hasFormatter [OF inv] log_inv_appender [OF inv assms(2) that] by blast
  then show ?thesis
    by (auto simp: v_def setFormatter_pattern_def setFormatter_def Let_def
        appenders_fold_give_formatter simp del: isError_LogFormatter)
qed

lemma erase_first_append: "x \<notin> set xs \<Longrightarrow> erase_first x (xs @ x # ys) = xs @ ys"
  by (induction xs) auto

text \<open>
  Attaching an appender: it keeps a formatter it has, gets the logger's otherwise, and is
  never left without one; it becomes the last appender of the logger, and deleting it again
  restores the list if it was not attached before.
\<close>

lemma addAppender_spec:
  assumes "log_reachable w" and "l < next_logger w" and "ap < next_appender w"
  shows "la_formatter (appenders (addAppender ap l w) ap) =
      (case la_formatter (appenders w ap) of Some g \<Rightarrow> Some g | None \<Rightarrow> lg_formatter (loggers w l)) \<and>
    la_formatter (appenders (addAppender ap l w) ap) \<noteq> None \<and>
    lg_appenders (loggers (addAppender ap l w) l) = lg_appenders (loggers w l) @ [ap] \<and>
    (ap \<notin> set (lg_appenders (loggers w l)) \<longrightarrow>
       loggers (delAppender ap l (addAppender ap l w)) = loggers w)"
proof -
  have "lg_formatter (loggers w l) \<noteq> None"
    using log_inv_loggerD [OF log_reachable_inv [OF assms(1)] assms(2)] by (simp add: logger_ok_def)
  then show ?thesis
    by (auto simp: addAppender_def delAppender_def Let_def erase_first_append fun_eq_iff
        split: option.split)
qed

text \<open>
  A null formatter set on a logger reaches its appenders, as \<open>m_hasFormatter\<close> is never set: the next
  event that an appender to a file takes dereferences it.
\<close>

lemma null_formatter_crash:
  assumes "log_reachable w" and "l < next_logger w" and "lg_appenders (loggers w l) = ap # aps"
    and "la_class (appenders w ap) = FileLogAppender fn st"
    and "la_level (appenders w ap) \<le> lv" and "lg_level (loggers w l) \<le> lv"
  shows "fst (Logger_log l lv ev (setFormatter None l w)) = Inl (Undefined Null_Dereference)"
proof -
  note inv = log_reachable_inv [OF assms(1)]
  have "ap < next_appender w" using log_inv_appender [OF inv assms(2)] assms(3) by simp
  then have flag: "\<not> la_hasFormatter (appenders w ap)" using log_inv_hasFormatter [OF inv] by simp
  define v where "v = setFormatter None l w"
  have "appenders v ap = (appenders w ap)\<lparr>la_formatter := None\<rparr>"
    using flag assms(3) unfolding v_def setFormatter_def Let_def appenders_fold_give_formatter by simp
  moreover have "loggers v l = (loggers w l)\<lparr>lg_formatter := None\<rparr>"
    by (simp add: v_def setFormatter_def Let_def)
  ultimately have "fst (Logger_log l lv ev v) = Inl (Undefined Null_Dereference)"
    using assms(3-6) by (simp add: Logger_log_def comp_simps appender_log_def file_log_def)
  then show ?thesis by (simp add: v_def)
qed

section \<open>File streams\<close>












text \<open>
  \<open>reopen\<close> on a healthy stream closes and opens the file again: it answers whether the file
  could be opened, and what the stream had written is gone, since the file is truncated. If the
  open failed, a later call succeeds as soon as the file can be opened.
\<close>

lemma reopen_healthy:
  assumes "os_good st = os_open st"
  shows "fst (reopen_stream can st) = can \<and>
    (can \<longrightarrow> snd (reopen_stream can st) = \<lparr>os_open = True, os_good = True, os_text = []\<rparr>) \<and>
    (\<not> can \<longrightarrow> fst (reopen_stream True (snd (reopen_stream can st))))"
  using assms
  by (auto simp: reopen_stream_def ofstream_close_def ofstream_open_def Let_def)

lemma upd_class_same:
  assumes "la_class (appenders w ap) = c"
  shows "upd_appender ap (la_class_update (\<lambda>_. c)) w = w"
proof -
  have "(appenders w ap)\<lparr>la_class := c\<rparr> = appenders w ap" using assms by simp
  then show ?thesis by (simp add: fun_upd_idem)
qed

text \<open>
  After one failed write the appender is dead: whatever happens to the file system afterwards,
  \<open>reopen\<close> answers false and changes nothing, because it does not close a stream in error and the
  open file makes \<open>open\<close> fail; later events are dropped in silence.
\<close>

lemma write_error_is_final:
  assumes "la_class (appenders w ap) = FileLogAppender fn \<lparr>os_open = True, os_good = True, os_text = t\<rparr>"
    and "la_formatter (appenders w ap) = Some f" and "la_level (appenders w ap) \<le> lv"
    and "lf_format (w_time w) (lg_name (loggers w l)) lv ev f = Inr s" and "s \<noteq> []"
    and "\<not> w_can_write w fn"
  defines "v \<equiv> (snd (appender_log ap l lv ev w))\<lparr>w_can_open := \<lambda>_. True, w_can_write := \<lambda>_. True\<rparr>"
  shows "reopen ap v = (False, v) \<and>
    appenders (snd (appender_log ap l lv2 ev2 v)) = appenders v \<and>
    la_class (appenders v ap) = FileLogAppender fn \<lparr>os_open = True, os_good = False, os_text = t\<rparr>"
proof -
  let ?st = "\<lparr>os_open = True, os_good = False, os_text = t\<rparr>"
  have wr: "ofstream_write False s \<lparr>os_open = True, os_good = True, os_text = t\<rparr> = ?st"
    using assms(5) by (simp add: ofstream_write_def)
  have cls: "la_class (appenders v ap) = FileLogAppender fn ?st"
    using assms(1-6) by (simp add: v_def appender_log_def file_log_def wr)
  have "reopen_stream c ?st = (False, ?st)" for c
    by (simp add: reopen_stream_def ofstream_open_def)
  with cls have "reopen ap v = (False, v)"
    using upd_class_same [OF cls] by (simp add: reopen_def)
  moreover have "appenders (snd (appender_log ap l lv2 ev2 v)) = appenders v"
  proof -
    have same: "(appenders v ap)\<lparr>la_class := FileLogAppender fn ?st\<rparr> = appenders v ap"
      using cls by simp
    show ?thesis
      using cls by (simp add: appender_log_def file_log_def ofstream_write_def same
          split: option.split sum.split)
  qed
  ultimately show ?thesis using cls by simp
qed

end
