(* ===== verification/Yaml.thy ===== *)
theory Yaml
  imports Prelude
begin

text \<open>
  The interface of the yaml-cpp library the sources call. A node is a tree; the parser, the
  emitter and the accessors are fields of a record that every definition using them takes as an
  argument, and the laws are what the library documents of them, restricted to what the sources
  rely on. An exception of the library is its \<open>what()\<close>. A small codec with the same laws, in
  prefix notation, shows that they can hold together; it is used by the witnesses only.
\<close>

section \<open>Nodes and the library\<close>

datatype yaml =
    YUndefined
  | YNull
  | YScalar string
  | YSeq "yaml list"
  | YMap "(yaml \<times> yaml) list"

text \<open>\<open>IsDefined\<close>, \<open>IsScalar\<close> and \<open>IsMap\<close>.\<close>

definition IsDefined :: "yaml \<Rightarrow> bool" where
  "IsDefined n = (n \<noteq> YUndefined)"

fun IsScalar :: "yaml \<Rightarrow> bool" where
  "IsScalar (YScalar _) = True"
| "IsScalar _ = False"

fun IsMap :: "yaml \<Rightarrow> bool" where
  "IsMap (YMap _) = True"
| "IsMap _ = False"

record yaml_lib =
  y_load :: "string \<Rightarrow> string + yaml"               \<comment> \<open>\<open>YAML::Load(s)\<close>\<close>
  y_emit :: "yaml \<Rightarrow> string"                        \<comment> \<open>\<open>ss << node\<close>\<close>
  y_as_string :: "yaml \<Rightarrow> string + string"          \<comment> \<open>\<open>node.as<std::string>()\<close>\<close>
  y_scalar :: "yaml \<Rightarrow> string + string"             \<comment> \<open>\<open>node.Scalar()\<close>\<close>
  y_get :: "yaml \<Rightarrow> string \<Rightarrow> string + yaml"         \<comment> \<open>\<open>node["key"]\<close>\<close>
  y_at :: "yaml \<Rightarrow> nat \<Rightarrow> string + yaml"             \<comment> \<open>\<open>node[i]\<close>\<close>
  y_size :: "yaml \<Rightarrow> nat"                           \<comment> \<open>\<open>node.size()\<close>\<close>
  y_items :: "yaml \<Rightarrow> (yaml \<times> yaml) list"           \<comment> \<open>iteration: \<open>it->first, it->second\<close>\<close>
  y_set :: "yaml \<Rightarrow> string \<Rightarrow> yaml \<Rightarrow> yaml"          \<comment> \<open>\<open>node["key"] = v\<close>\<close>
  y_push :: "yaml \<Rightarrow> yaml \<Rightarrow> yaml"                   \<comment> \<open>\<open>node.push_back(v)\<close>\<close>

definition map_get :: "(yaml \<times> yaml) list \<Rightarrow> string \<Rightarrow> yaml" where
  "map_get ps k = (case map_of ps (YScalar k) of None \<Rightarrow> YUndefined | Some v \<Rightarrow> v)"

fun map_set :: "(yaml \<times> yaml) list \<Rightarrow> string \<Rightarrow> yaml \<Rightarrow> (yaml \<times> yaml) list" where
  "map_set [] k v = [(YScalar k, v)]"
| "map_set (p # ps) k v = (if fst p = YScalar k then (YScalar k, v) # ps else p # map_set ps k v)"

text \<open>Text the emitter writes and the parser reads back unchanged: printable ASCII.\<close>

definition plain :: "string \<Rightarrow> bool" where
  "plain s = (\<forall>c\<in>set s. 32 \<le> byte c \<and> byte c \<le> 126)"

fun printable :: "yaml \<Rightarrow> bool" where
  "printable YUndefined = False"
| "printable YNull = True"
| "printable (YScalar s) = plain s"
| "printable (YSeq xs) = (\<forall>x\<in>set xs. printable x)"
| "printable (YMap ps) = (\<forall>p\<in>set ps. printable (fst p) \<and> printable (snd p))"

definition yaml_laws :: "yaml_lib \<Rightarrow> bool" where
  "yaml_laws Y =
     ((\<forall>n. printable n \<longrightarrow> y_load Y (y_emit Y n) = Inr n) \<and>
      (\<forall>s. y_as_string Y (YScalar s) = Inr s) \<and>
      (\<forall>s. y_scalar Y (YScalar s) = Inr s) \<and>
      (\<forall>ps k. y_get Y (YMap ps) k = Inr (map_get ps k)) \<and>
      (\<forall>xs i. i < length xs \<longrightarrow> y_at Y (YSeq xs) i = Inr (xs ! i)) \<and>
      (\<forall>xs. y_size Y (YSeq xs) = length xs) \<and> y_size Y YNull = 0 \<and>
      (\<forall>ps. y_items Y (YMap ps) = ps) \<and> y_items Y YNull = [] \<and>
      (\<forall>k v. y_set Y YNull k v = YMap [(YScalar k, v)]) \<and>
      (\<forall>ps k v. y_set Y (YMap ps) k v = YMap (map_set ps k v)) \<and>
      (\<forall>v. y_push Y YNull v = YSeq [v]) \<and> (\<forall>v. y_push Y YUndefined v = YSeq [v]) \<and>
      (\<forall>xs v. y_push Y (YSeq xs) v = YSeq (xs @ [v])))"

named_theorems yaml_simps \<open>the laws of the library as rewrite rules\<close>

lemma yaml_lawsD [yaml_simps]:
  assumes "yaml_laws Y"
  shows "printable n \<Longrightarrow> y_load Y (y_emit Y n) = Inr n"
    and "y_as_string Y (YScalar s) = Inr s" and "y_scalar Y (YScalar s) = Inr s"
    and "y_get Y (YMap ps) k = Inr (map_get ps k)"
    and "i < length xs \<Longrightarrow> y_at Y (YSeq xs) i = Inr (xs ! i)"
    and "y_size Y (YSeq xs) = length xs" and "y_size Y YNull = 0"
    and "y_items Y (YMap ps) = ps" and "y_items Y YNull = []"
    and "y_set Y YNull k v = YMap [(YScalar k, v)]"
    and "y_set Y (YMap ps) k v = YMap (map_set ps k v)"
    and "y_push Y YNull v = YSeq [v]" and "y_push Y YUndefined v = YSeq [v]"
    and "y_push Y (YSeq xs) v = YSeq (xs @ [v])"
  using assms by (simp_all add: yaml_laws_def)

section \<open>A codec that satisfies the laws\<close>

fun flatten_pairs :: "('a \<times> 'a) list \<Rightarrow> 'a list" where
  "flatten_pairs [] = []"
| "flatten_pairs ((a, b) # ps) = a # b # flatten_pairs ps"

fun pair_up :: "'a list \<Rightarrow> ('a \<times> 'a) list" where
  "pair_up (a # b # xs) = (a, b) # pair_up xs"
| "pair_up _ = []"

lemma pair_up_flatten [simp]: "pair_up (flatten_pairs ps) = ps"
  by (induction ps rule: flatten_pairs.induct) auto

lemma set_flatten_pairs: "set (flatten_pairs ps) = fst ` set ps \<union> snd ` set ps"
  by (induction ps rule: flatten_pairs.induct) auto

definition enc_chars :: "string \<Rightarrow> string" where
  "enc_chars s = concat (map (\<lambda>c. [CHR ''c'', c]) s) @ ''e''"

fun enc :: "yaml \<Rightarrow> string" where
  "enc YUndefined = ''U''"
| "enc YNull = ''N''"
| "enc (YScalar s) = CHR ''S'' # enc_chars s"
| "enc (YSeq xs) = CHR ''Q'' # concat (map (\<lambda>x. CHR ''i'' # enc x) xs) @ ''e''"
| "enc (YMap ps) =
     CHR ''M'' # concat (map (\<lambda>p. CHR ''i'' # enc (fst p) @ CHR ''i'' # enc (snd p)) ps) @ ''e''"

fun dec_chars :: "string \<Rightarrow> string \<times> string" where
  "dec_chars (t # c # r) =
     (if t = CHR ''c'' then (c # fst (dec_chars r), snd (dec_chars r)) else ([], c # r))"
| "dec_chars [t] = ([], [])"
| "dec_chars [] = ([], [])"

fun dec :: "nat \<Rightarrow> string \<Rightarrow> (yaml \<times> string) option"
  and dec_items :: "nat \<Rightarrow> string \<Rightarrow> (yaml list \<times> string) option" where
  "dec (Suc n) (h # r) =
     (if h = CHR ''U'' then Some (YUndefined, r)
      else if h = CHR ''N'' then Some (YNull, r)
      else if h = CHR ''S'' then Some (YScalar (fst (dec_chars r)), snd (dec_chars r))
      else if h = CHR ''Q'' then map_option (apfst YSeq) (dec_items n r)
      else if h = CHR ''M'' then map_option (apfst (\<lambda>xs. YMap (pair_up xs))) (dec_items n r)
      else None)"
| "dec _ _ = None"
| "dec_items (Suc n) (h # r) =
     (if h = CHR ''i'' then
        (case dec n r of None \<Rightarrow> None
         | Some (x, r1) \<Rightarrow> map_option (apfst (\<lambda>xs. x # xs)) (dec_items n r1))
      else Some ([], r))"
| "dec_items _ _ = None"

lemma dec_chars_enc: "dec_chars (enc_chars s @ r) = (s, r)"
  by (induction s) (auto simp: enc_chars_def elim: list.set_cases intro: list.exhaust [of r])

definition enc_items :: "yaml list \<Rightarrow> string" where
  "enc_items xs = concat (map (\<lambda>x. CHR ''i'' # enc x) xs) @ ''e''"

lemma enc_Seq: "enc (YSeq xs) = CHR ''Q'' # enc_items xs"
  by (simp add: enc_items_def)

lemma enc_Map: "enc (YMap ps) = CHR ''M'' # enc_items (flatten_pairs ps)"
  by (induction ps rule: flatten_pairs.induct) (auto simp: enc_items_def)

lemma dec_items_enc:
  assumes "\<And>x n r. x \<in> set xs \<Longrightarrow> length (enc x) \<le> n \<Longrightarrow> dec n (enc x @ r) = Some (x, r)"
    and "length (enc_items xs) \<le> n"
  shows "dec_items n (enc_items xs @ r) = Some (xs, r)"
  using assms
proof (induction xs arbitrary: n)
  case Nil
  then show ?case by (cases n) (simp_all add: enc_items_def)
next
  case (Cons x xs)
  from Cons.prems(2) obtain m where n: "n = Suc m"
    and len: "length (enc x) \<le> m" "length (enc_items xs) \<le> m"
    by (cases n) (auto simp: enc_items_def)
  have "dec_items m (enc_items xs @ r) = Some (xs, r)"
    using Cons.IH [OF _ len(2)] Cons.prems(1) by simp
  moreover have "dec m (enc x @ enc_items xs @ r) = Some (x, enc_items xs @ r)"
    using Cons.prems(1) len(1) by simp
  ultimately show ?case by (simp add: n enc_items_def)
qed

lemma dec_enc: "length (enc x) \<le> n \<Longrightarrow> dec n (enc x @ r) = Some (x, r)"
proof (induction x arbitrary: n r)
  case (YScalar s)
  then show ?case by (cases n) (simp_all add: dec_chars_enc)
next
  case (YSeq xs)
  then obtain m where "n = Suc m" "length (enc_items xs) \<le> m" by (cases n) (auto simp: enc_Seq simp del: enc.simps)
  with dec_items_enc [of xs m r] YSeq.IH show ?case by (simp add: enc_Seq del: enc.simps)
next
  case (YMap ps)
  then obtain m where "n = Suc m" "length (enc_items (flatten_pairs ps)) \<le> m"
    by (cases n) (auto simp: enc_Map simp del: enc.simps)
  moreover have "dec n (enc x @ r) = Some (x, r)"
    if "x \<in> set (flatten_pairs ps)" "length (enc x) \<le> n" for x n r
    using that YMap.IH by (force simp: set_flatten_pairs)
  ultimately show ?case
    using dec_items_enc [of "flatten_pairs ps" m r] by (simp add: enc_Map del: enc.simps)
qed (case_tac n; simp)+

definition codec_yaml :: yaml_lib where
  "codec_yaml =
     \<lparr>y_load = (\<lambda>s. case dec (length s) s of Some (n, []) \<Rightarrow> Inr n | _ \<Rightarrow> Inl ''parse error''),
      y_emit = enc,
      y_as_string = (\<lambda>n. case n of YScalar s \<Rightarrow> Inr s | _ \<Rightarrow> Inl ''bad conversion''),
      y_scalar = (\<lambda>n. case n of YScalar s \<Rightarrow> Inr s | _ \<Rightarrow> Inr []),
      y_get = (\<lambda>n k. case n of YMap ps \<Rightarrow> Inr (map_get ps k) | YScalar _ \<Rightarrow> Inl ''bad subscript''
                     | _ \<Rightarrow> Inr YUndefined),
      y_at = (\<lambda>n i. case n of YSeq xs \<Rightarrow> Inr (if i < length xs then xs ! i else YUndefined)
                    | _ \<Rightarrow> Inr YUndefined),
      y_size = (\<lambda>n. case n of YSeq xs \<Rightarrow> length xs | YMap ps \<Rightarrow> length ps | _ \<Rightarrow> 0),
      y_items = (\<lambda>n. case n of YMap ps \<Rightarrow> ps | _ \<Rightarrow> []),
      y_set = (\<lambda>n k v. case n of YMap ps \<Rightarrow> YMap (map_set ps k v) | _ \<Rightarrow> YMap [(YScalar k, v)]),
      y_push = (\<lambda>n v. case n of YSeq xs \<Rightarrow> YSeq (xs @ [v]) | _ \<Rightarrow> YSeq [v])\<rparr>"

lemma codec_yaml_load: "y_load codec_yaml (y_emit codec_yaml n) = Inr n"
  using dec_enc [of n "length (enc n)" "[]"] by (simp add: codec_yaml_def)

lemma codec_yaml_laws: "yaml_laws codec_yaml"
  unfolding yaml_laws_def using codec_yaml_load by (simp add: codec_yaml_def)

end
