(* ===== verification/Lexical_Cast.thy ===== *)
theory Lexical_Cast
  imports Yaml Ordered_Map "HOL-Library.Multiset"
begin

text \<open>
  The \<open>LexicalCast\<close> templates of \<open>sylar/config.h\<close>. A cast is a computation, since a user-defined
  one may print or throw; the casts of the element type are arguments, as they are template
  arguments in the source. The six container specialisations differ in how an element is added
  and in what order the elements are visited; the locale states that contract, and the round trip
  through YAML text is proved once from it.
\<close>

type_synonym ('w, 'a) from_str = "string \<Rightarrow> ('w, 'a) comp"
type_synonym ('w, 'a) to_str = "'a \<Rightarrow> ('w, string) comp"

text \<open>The primary template: \<open>boost::lexical_cast<T>(v)\<close>, an argument of the model.\<close>

definition base_cast :: "('f \<Rightarrow> string + 't) \<Rightarrow> 'f \<Rightarrow> ('w, 't) comp" where
  "base_cast boost v = lib_call (boost v)"

section \<open>The loops of the specialisations\<close>

text \<open>\<open>for (i = 0; i < node.size(); ++i)\<close>: emit the element, cast it, add it.\<close>

fun read_elems ::
  "yaml_lib \<Rightarrow> ('w, 'a) from_str \<Rightarrow> ('a \<Rightarrow> 'c \<Rightarrow> 'c) \<Rightarrow> yaml \<Rightarrow> nat list \<Rightarrow> 'c \<Rightarrow> ('w, 'c) comp" where
  "read_elems Y cast ins node [] acc = return acc"
| "read_elems Y cast ins node (i # is) acc =
     bind_comp (lib_call (y_at Y node i)) (\<lambda>x.
     bind_comp (cast (y_emit Y x)) (\<lambda>a.
     read_elems Y cast ins node is (ins a acc)))"

definition read_sequence ::
  "yaml_lib \<Rightarrow> ('w, 'a) from_str \<Rightarrow> ('a \<Rightarrow> 'c \<Rightarrow> 'c) \<Rightarrow> 'c \<Rightarrow> ('w, 'c) from_str" where
  "read_sequence Y cast ins emp v =
     bind_comp (lib_call (y_load Y v)) (\<lambda>node.
     read_elems Y cast ins node [0..<y_size Y node] emp)"

text \<open>\<open>for (auto &i : v) node.push_back(YAML::Load(cast(i)))\<close>.\<close>

fun write_elems :: "yaml_lib \<Rightarrow> ('w, 'a) to_str \<Rightarrow> 'a list \<Rightarrow> yaml \<Rightarrow> ('w, yaml) comp" where
  "write_elems Y cast [] node = return node"
| "write_elems Y cast (a # as) node =
     bind_comp (cast a) (\<lambda>s.
     bind_comp (lib_call (y_load Y s)) (\<lambda>n.
     write_elems Y cast as (y_push Y node n)))"

definition write_sequence :: "yaml_lib \<Rightarrow> ('w, 'a) to_str \<Rightarrow> ('w, 'a list) to_str" where
  "write_sequence Y cast as = bind_comp (write_elems Y cast as YNull) (\<lambda>node. return (y_emit Y node))"

text \<open>The same for maps: iteration over the pairs, and \<open>node[i.first] = YAML::Load(...)\<close>.\<close>

fun read_pairs ::
  "yaml_lib \<Rightarrow> ('w, 'a) from_str \<Rightarrow> (string \<Rightarrow> 'a \<Rightarrow> 'c \<Rightarrow> 'c) \<Rightarrow> (yaml \<times> yaml) list \<Rightarrow> 'c \<Rightarrow> ('w, 'c) comp" where
  "read_pairs Y cast ins [] acc = return acc"
| "read_pairs Y cast ins (p # ps) acc =
     bind_comp (lib_call (y_scalar Y (fst p))) (\<lambda>k.
     bind_comp (cast (y_emit Y (snd p))) (\<lambda>a.
     read_pairs Y cast ins ps (ins k a acc)))"

definition read_mapping ::
  "yaml_lib \<Rightarrow> ('w, 'a) from_str \<Rightarrow> (string \<Rightarrow> 'a \<Rightarrow> 'c \<Rightarrow> 'c) \<Rightarrow> 'c \<Rightarrow> ('w, 'c) from_str" where
  "read_mapping Y cast ins emp v =
     bind_comp (lib_call (y_load Y v)) (\<lambda>node. read_pairs Y cast ins (y_items Y node) emp)"

fun write_pairs :: "yaml_lib \<Rightarrow> ('w, 'a) to_str \<Rightarrow> (string \<times> 'a) list \<Rightarrow> yaml \<Rightarrow> ('w, yaml) comp" where
  "write_pairs Y cast [] node = return node"
| "write_pairs Y cast (p # ps) node =
     bind_comp (cast (snd p)) (\<lambda>s.
     bind_comp (lib_call (y_load Y s)) (\<lambda>n.
     write_pairs Y cast ps (y_set Y node (fst p) n)))"

definition write_mapping :: "yaml_lib \<Rightarrow> ('w, 'a) to_str \<Rightarrow> ('w, (string \<times> 'a) list) to_str" where
  "write_mapping Y cast ps = bind_comp (write_pairs Y cast ps YNull) (\<lambda>node. return (y_emit Y node))"

section \<open>The containers\<close>

text \<open>\<open>std::vector\<close> and \<open>std::list\<close>: \<open>push_back\<close>.\<close>

definition push_back :: "'a \<Rightarrow> 'a list \<Rightarrow> 'a list" where
  "push_back a xs = xs @ [a]"

text \<open>
  \<open>std::set\<close> under an \<open>operator<\<close> that compares a key: the elements in ascending order; an
  element equivalent to one that is there is not inserted.
\<close>

fun set_insert :: "('a \<Rightarrow> 'k::linorder) \<Rightarrow> 'a \<Rightarrow> 'a list \<Rightarrow> 'a list" where
  "set_insert key x [] = [x]"
| "set_insert key x (y # ys) =
     (if key y < key x then y # set_insert key x ys
      else if key x < key y then x # y # ys
      else y # ys)"

definition set_ok :: "('a \<Rightarrow> 'k::linorder) \<Rightarrow> 'a list \<Rightarrow> bool" where
  "set_ok key xs = sorted_wrt (\<lambda>a b. key a < key b) xs"

text \<open>
  The unordered containers: the elements in the implementation's iteration order, which is not
  specified. \<open>place\<close> is the implementation's choice of where a new element comes.
\<close>

definition place_ok :: "('a \<Rightarrow> 'a list \<Rightarrow> 'a list) \<Rightarrow> bool" where
  "place_ok place = (\<forall>a xs. mset (place a xs) = add_mset a (mset xs))"

definition uset_insert :: "('a \<Rightarrow> 'a list \<Rightarrow> 'a list) \<Rightarrow> 'a \<Rightarrow> 'a list \<Rightarrow> 'a list" where
  "uset_insert place a xs = (if a \<in> set xs then xs else place a xs)"

definition umap_insert ::
  "(string \<times> 'a \<Rightarrow> (string \<times> 'a) list \<Rightarrow> (string \<times> 'a) list) \<Rightarrow> string \<Rightarrow> 'a \<Rightarrow>
     (string \<times> 'a) list \<Rightarrow> (string \<times> 'a) list" where
  "umap_insert place k a xs = (if k \<in> fst ` set xs then xs else place (k, a) xs)"

section \<open>The specialisations\<close>

definition vector_from_string :: "yaml_lib \<Rightarrow> ('w, 'a) from_str \<Rightarrow> ('w, 'a list) from_str" where
  "vector_from_string Y cast = read_sequence Y cast push_back []"

definition vector_to_string :: "yaml_lib \<Rightarrow> ('w, 'a) to_str \<Rightarrow> ('w, 'a list) to_str" where
  "vector_to_string Y cast = write_sequence Y cast"

definition list_from_string :: "yaml_lib \<Rightarrow> ('w, 'a) from_str \<Rightarrow> ('w, 'a list) from_str" where
  "list_from_string Y cast = read_sequence Y cast push_back []"

definition list_to_string :: "yaml_lib \<Rightarrow> ('w, 'a) to_str \<Rightarrow> ('w, 'a list) to_str" where
  "list_to_string Y cast = write_sequence Y cast"

definition set_from_string ::
  "yaml_lib \<Rightarrow> ('a \<Rightarrow> 'k::linorder) \<Rightarrow> ('w, 'a) from_str \<Rightarrow> ('w, 'a list) from_str" where
  "set_from_string Y key cast = read_sequence Y cast (set_insert key) []"

definition set_to_string :: "yaml_lib \<Rightarrow> ('w, 'a) to_str \<Rightarrow> ('w, 'a list) to_str" where
  "set_to_string Y cast = write_sequence Y cast"

definition unordered_set_from_string ::
  "yaml_lib \<Rightarrow> ('a \<Rightarrow> 'a list \<Rightarrow> 'a list) \<Rightarrow> ('w, 'a) from_str \<Rightarrow> ('w, 'a list) from_str" where
  "unordered_set_from_string Y place cast = read_sequence Y cast (uset_insert place) []"

definition unordered_set_to_string :: "yaml_lib \<Rightarrow> ('w, 'a) to_str \<Rightarrow> ('w, 'a list) to_str" where
  "unordered_set_to_string Y cast = write_sequence Y cast"

definition map_from_string :: "yaml_lib \<Rightarrow> ('w, 'a) from_str \<Rightarrow> ('w, (string, 'a) omap) from_str" where
  "map_from_string Y cast = read_mapping Y cast omap_insert []"

definition map_to_string :: "yaml_lib \<Rightarrow> ('w, 'a) to_str \<Rightarrow> ('w, (string, 'a) omap) to_str" where
  "map_to_string Y cast = write_mapping Y cast"

definition unordered_map_from_string ::
  "yaml_lib \<Rightarrow> (string \<times> 'a \<Rightarrow> (string \<times> 'a) list \<Rightarrow> (string \<times> 'a) list) \<Rightarrow> ('w, 'a) from_str \<Rightarrow>
     ('w, (string \<times> 'a) list) from_str" where
  "unordered_map_from_string Y place cast = read_mapping Y cast (umap_insert place) []"

definition unordered_map_to_string :: "yaml_lib \<Rightarrow> ('w, 'a) to_str \<Rightarrow> ('w, (string \<times> 'a) list) to_str" where
  "unordered_map_to_string Y cast = write_mapping Y cast"

section \<open>The contract of a container and the round trip\<close>

text \<open>
  A value that survives its own casts, alone and as an element: the text it is written as is a
  document, and reading the text, or the document emitted again, gives the value back.
\<close>

definition codec :: "yaml_lib \<Rightarrow> ('w, 'a) to_str \<Rightarrow> ('w, 'a) from_str \<Rightarrow> 'a \<Rightarrow> bool" where
  "codec Y to from a =
     (\<exists>s n. to a = return s \<and> y_load Y s = Inr n \<and> printable n \<and>
        from s = return a \<and> from (y_emit Y n) = return a)"

lemma write_elems_codec:
  assumes laws: "yaml_laws Y" and "\<forall>a\<in>set as. codec Y to from a"
    and "node = (if ms = [] then YNull else YSeq ms)"
  shows "\<exists>ns. write_elems Y to as node = return (if ms @ ns = [] then YNull else YSeq (ms @ ns)) \<and>
    list_all2 (\<lambda>a n. printable n \<and> from (y_emit Y n) = return a) as ns"
  using assms(2,3)
proof (induction as arbitrary: ms node)
  case Nil
  then show ?case by (intro exI [of _ "[]"]) simp
next
  case (Cons a as)
  then obtain s n where sn: "to a = return s" "y_load Y s = Inr n" "printable n"
    "from (y_emit Y n) = return a" by (auto simp: codec_def)
  have "y_push Y node n = (if ms @ [n] = [] then YNull else YSeq (ms @ [n]))"
    using Cons.prems(2) laws by (simp add: yaml_simps)
  with Cons.IH [of "y_push Y node n" "ms @ [n]"] Cons.prems(1) obtain ns where
    "write_elems Y to as (y_push Y node n) = return (YSeq (ms @ n # ns))"
    "list_all2 (\<lambda>a n. printable n \<and> from (y_emit Y n) = return a) as ns" by auto
  with sn show ?case by (intro exI [of _ "n # ns"]) simp
qed

lemma read_elems_codec:
  assumes laws: "yaml_laws Y" and "list_all2 (\<lambda>a n. from (y_emit Y n) = return a) as ns"
  shows "read_elems Y from ins (YSeq (ms @ ns)) [length ms..<length ms + length ns] acc =
    return (fold ins as acc)"
  using assms(2)
proof (induction as ns arbitrary: ms acc rule: list_all2_induct)
  case Nil
  then show ?case by simp
next
  case (Cons a as n ns)
  have "[length ms..<length ms + length (n # ns)] =
      length ms # [length (ms @ [n])..<length (ms @ [n]) + length ns]"
    by (subst upt_conv_Cons) simp_all
  with Cons Cons.IH [of "ms @ [n]"] laws show ?case by (simp add: yaml_simps)
qed

lemma map_get_set: "map_set ps k v = (if YScalar k \<in> fst ` set ps then map_set ps k v else ps @ [(YScalar k, v)])"
  by (induction ps) auto

lemma write_pairs_codec:
  assumes laws: "yaml_laws Y" and "\<forall>p\<in>set ps. plain (fst p) \<and> codec Y to from (snd p)"
    and "node = (if ms = [] then YNull else YMap ms)"
    and "distinct (map fst ps)" and "\<forall>p\<in>set ps. YScalar (fst p) \<notin> fst ` set ms"
  shows "\<exists>ns. write_pairs Y to ps node = return (if ms @ ns = [] then YNull else YMap (ms @ ns)) \<and>
    list_all2 (\<lambda>p n. fst n = YScalar (fst p) \<and> plain (fst p) \<and> printable (snd n) \<and>
      from (y_emit Y (snd n)) = return (snd p)) ps ns"
  using assms(2-5)
proof (induction ps arbitrary: ms node)
  case Nil
  then show ?case by (intro exI [of _ "[]"]) simp
next
  case (Cons p ps)
  then obtain s n where sn: "to (snd p) = return s" "y_load Y s = Inr n" "printable n"
    "from (y_emit Y n) = return (snd p)" by (auto simp: codec_def)
  let ?e = "(YScalar (fst p), n)"
  have "map_set ms (fst p) n = ms @ [?e]" using Cons.prems(4) map_get_set [of ms "fst p" n] by simp
  then have "y_set Y node (fst p) n = (if ms @ [?e] = [] then YNull else YMap (ms @ [?e]))"
    using Cons.prems(2) laws by (simp add: yaml_simps)
  moreover have "\<forall>q\<in>set ps. YScalar (fst q) \<notin> fst ` set (ms @ [?e])"
    using Cons.prems(3,4) by (auto simp: rev_image_eqI)
  ultimately obtain ns where
    "write_pairs Y to ps (y_set Y node (fst p) n) = return (YMap (ms @ ?e # ns))"
    "list_all2 (\<lambda>p n. fst n = YScalar (fst p) \<and> plain (fst p) \<and> printable (snd n) \<and>
      from (y_emit Y (snd n)) = return (snd p)) ps ns"
    using Cons.IH [of "y_set Y node (fst p) n" "ms @ [?e]"] Cons.prems(1,3) by auto
  with sn Cons.prems(1) show ?case by (intro exI [of _ "?e # ns"]) simp
qed

lemma read_pairs_codec:
  assumes laws: "yaml_laws Y"
    and "list_all2 (\<lambda>p n. fst n = YScalar (fst p) \<and> from (y_emit Y (snd n)) = return (snd p)) ps ns"
  shows "read_pairs Y from ins ns acc = return (fold (\<lambda>p. ins (fst p) (snd p)) ps acc)"
  using assms(2)
  by (induction ps ns arbitrary: acc rule: list_all2_induct) (simp_all add: yaml_lawsD [OF laws])

locale container =
  fixes emp :: 'c
    and ins :: "'a \<Rightarrow> 'c \<Rightarrow> 'c"
    and elems :: "'c \<Rightarrow> 'a list"
    and ok :: "'c \<Rightarrow> bool"
    and same :: "'c \<Rightarrow> 'c \<Rightarrow> bool"
  assumes rebuild: "ok c \<Longrightarrow> same (fold ins (elems c) emp) c"
begin

lemma sequence_round_trip:
  assumes laws: "yaml_laws Y" and ok: "ok c" and el: "\<forall>a\<in>set (elems c). codec Y to from a"
  shows "\<exists>s n d. write_sequence Y to (elems c) = return s \<and> s = y_emit Y n \<and> y_load Y s = Inr n \<and>
    printable n \<and> read_sequence Y from ins emp s = return d \<and> same d c"
proof -
  obtain ns where w: "write_elems Y to (elems c) YNull = return (if ns = [] then YNull else YSeq ns)"
    and ns: "list_all2 (\<lambda>a n. printable n \<and> from (y_emit Y n) = return a) (elems c) ns"
    using write_elems_codec [OF laws el, of YNull "[]"] unfolding append_Nil by auto
  let ?n = "if ns = [] then YNull else YSeq ns"
  have pr: "printable ?n" using ns by (auto simp: list_all2_conv_all_nth in_set_conv_nth)
  then have load: "y_load Y (y_emit Y ?n) = Inr ?n" using laws by (rule yaml_lawsD(1) [rotated])
  have "list_all2 (\<lambda>a n. from (y_emit Y n) = return a) (elems c) ns"
    using ns by (rule list_all2_mono) simp
  from read_elems_codec [OF laws this, of ins "[]" emp] have
    "read_elems Y from ins ?n [0..<y_size Y ?n] emp = return (fold ins (elems c) emp)"
    using laws ns by (auto simp: yaml_simps)
  with load have "read_sequence Y from ins emp (y_emit Y ?n) = return (fold ins (elems c) emp)"
    by (simp add: read_sequence_def)
  moreover have "write_sequence Y to (elems c) = return (y_emit Y ?n)"
    by (simp add: write_sequence_def w)
  ultimately show ?thesis using pr load rebuild [OF ok] by blast
qed

end

text \<open>A keyed container holds pairs with distinct keys.\<close>

locale keyed_container =
  container emp "\<lambda>p. ins (fst p) (snd p)" elems ok same
  for emp :: 'c
    and ins :: "string \<Rightarrow> 'a \<Rightarrow> 'c \<Rightarrow> 'c"
    and elems :: "'c \<Rightarrow> (string \<times> 'a) list"
    and ok :: "'c \<Rightarrow> bool"
    and same :: "'c \<Rightarrow> 'c \<Rightarrow> bool" +
  assumes keys_distinct: "ok c \<Longrightarrow> distinct (map fst (elems c))"
begin

lemma mapping_round_trip:
  assumes laws: "yaml_laws Y" and ok: "ok c"
    and el: "\<forall>p\<in>set (elems c). plain (fst p) \<and> codec Y to from (snd p)"
  shows "\<exists>s n d. write_mapping Y to (elems c) = return s \<and> s = y_emit Y n \<and> y_load Y s = Inr n \<and>
    printable n \<and> read_mapping Y from ins emp s = return d \<and> same d c"
proof -
  obtain ns where w: "write_pairs Y to (elems c) YNull = return (if ns = [] then YNull else YMap ns)"
    and ns: "list_all2 (\<lambda>p n. fst n = YScalar (fst p) \<and> plain (fst p) \<and> printable (snd n) \<and>
      from (y_emit Y (snd n)) = return (snd p)) (elems c) ns"
    using write_pairs_codec [OF laws el, of YNull "[]"] keys_distinct [OF ok]
    unfolding append_Nil by auto
  let ?n = "if ns = [] then YNull else YMap ns"
  from ns have "\<forall>n\<in>set ns. printable (fst n) \<and> printable (snd n)"
    by (induction rule: list_all2_induct) auto
  then have pr: "printable ?n" by simp
  then have load: "y_load Y (y_emit Y ?n) = Inr ?n" using laws by (rule yaml_lawsD(1) [rotated])
  have "list_all2 (\<lambda>p n. fst n = YScalar (fst p) \<and> from (y_emit Y (snd n)) = return (snd p)) (elems c) ns"
    using ns by (rule list_all2_mono) simp
  from read_pairs_codec [OF laws this, of ins emp] have
    "read_pairs Y from ins (y_items Y ?n) emp = return (fold (\<lambda>p. ins (fst p) (snd p)) (elems c) emp)"
    using laws ns by (auto simp: yaml_simps)
  with load have "read_mapping Y from ins emp (y_emit Y ?n) =
      return (fold (\<lambda>p. ins (fst p) (snd p)) (elems c) emp)"
    by (simp add: read_mapping_def)
  moreover have "write_mapping Y to (elems c) = return (y_emit Y ?n)"
    by (simp add: write_mapping_def w)
  ultimately show ?thesis using pr load rebuild [OF ok] by blast
qed

end

section \<open>The six containers provide the contract\<close>

lemma fold_push_back: "fold push_back xs ys = ys @ xs"
  by (induction xs arbitrary: ys) (auto simp: push_back_def)

lemma set_insert_last: "\<forall>y\<in>set ys. key y < key x \<Longrightarrow> set_insert key x ys = ys @ [x]"
  by (induction ys) auto

lemma fold_set_insert: "set_ok key (ys @ xs) \<Longrightarrow> fold (set_insert key) xs ys = ys @ xs"
proof (induction xs arbitrary: ys)
  case Nil
  then show ?case by simp
next
  case (Cons x xs)
  then have "set_insert key x ys = ys @ [x]"
    by (intro set_insert_last) (simp add: set_ok_def sorted_wrt_append)
  with Cons show ?case by simp
qed

lemma set_set_insert: "set (set_insert key x ys) \<subseteq> insert x (set ys)"
  by (induction ys) auto

lemma set_ok_insert: "set_ok key ys \<Longrightarrow> set_ok key (set_insert key x ys)"
proof (induction ys)
  case Nil
  then show ?case by (simp add: set_ok_def)
next
  case (Cons y ys)
  then show ?case using set_set_insert [of key x ys] by (fastforce simp: set_ok_def)
qed

lemma place_ok_Cons: "place_ok (#)"
  by (simp add: place_ok_def)

lemma place_set: "place_ok place \<Longrightarrow> set (place a xs) = insert a (set xs)"
  unfolding place_ok_def by (metis set_mset_add_mset_insert set_mset_mset)

lemma place_distinct: "place_ok place \<Longrightarrow> distinct (place a xs) = distinct (a # xs)"
  by (rule mset_eq_imp_distinct_iff) (simp add: place_ok_def)

lemma fold_uset_insert:
  "place_ok place \<Longrightarrow> distinct (ys @ xs) \<Longrightarrow> mset (fold (uset_insert place) xs ys) = mset (ys @ xs)"
proof (induction xs arbitrary: ys)
  case Nil
  then show ?case by simp
next
  case (Cons x xs)
  have "uset_insert place x ys = place x ys" using Cons.prems(2) by (simp add: uset_insert_def)
  moreover have "distinct (place x ys @ xs)"
    using Cons.prems place_set [of place x ys] place_distinct [of place x ys] by auto
  ultimately show ?case using Cons.IH [of "place x ys"] Cons.prems(1) by (simp add: place_ok_def)
qed

lemma fold_umap_insert:
  "place_ok place \<Longrightarrow> distinct (map fst (ys @ xs)) \<Longrightarrow>
     mset (fold (\<lambda>p. umap_insert place (fst p) (snd p)) xs ys) = mset (ys @ xs)"
proof (induction xs arbitrary: ys)
  case Nil
  then show ?case by simp
next
  case (Cons x xs)
  have "umap_insert place (fst x) (snd x) ys = place x ys"
    using Cons.prems(2) by (simp add: umap_insert_def)
  moreover have "mset (place x ys) = mset (x # ys)"
    using Cons.prems(1) unfolding place_ok_def by (simp only: mset.simps)
  then have "mset (map fst (place x ys)) = mset (map fst (x # ys))" by (simp only: mset_map)
  then have "distinct (map fst (place x ys)) = distinct (map fst (x # ys))"
    by (rule mset_eq_imp_distinct_iff)
  then have "distinct (map fst (place x ys @ xs))"
    using Cons.prems place_set [of place x ys] by auto
  ultimately show ?case
    using Cons.IH [of "place x ys"] Cons.prems(1) \<open>mset (place x ys) = mset (x # ys)\<close> by simp
qed

lemma omap_put_last: "\<forall>e\<in>set m. fst e < k \<Longrightarrow> omap_put k v m = m @ [(k, v)]"
  by (induction m) auto

lemma fold_omap_insert:
  "omap_ok (ys @ xs) \<Longrightarrow> fold (\<lambda>p. omap_insert (fst p) (snd p)) xs ys = ys @ xs"
proof (induction xs arbitrary: ys)
  case Nil
  then show ?case by simp
next
  case (Cons x xs)
  then have less: "\<forall>e\<in>set ys. fst e < fst x" by (auto simp: omap_ok_def sorted_wrt_append)
  then have "map_of ys (fst x) = None" by (auto simp: map_of_eq_None_iff)
  with less have "omap_insert (fst x) (snd x) ys = ys @ [x]"
    by (simp add: omap_insert_def omap_put_last)
  with Cons show ?case by simp
qed

interpretation vector: container "[]" push_back "\<lambda>c. c" "\<lambda>_. True" "(=)"
  by unfold_locales (simp add: fold_push_back)

interpretation ordered_set: container "[]" "set_insert key" "\<lambda>c. c" "set_ok key" "(=)"
  for key :: "'a \<Rightarrow> 'k::linorder"
  by unfold_locales (simp add: fold_set_insert)

interpretation unordered_set: container "[]" "uset_insert place" "\<lambda>c. c"
  "\<lambda>c. place_ok place \<and> distinct c" "\<lambda>c d. mset c = mset d"
  for place :: "'a \<Rightarrow> 'a list \<Rightarrow> 'a list"
  by unfold_locales (simp add: fold_uset_insert)

interpretation ordered_map: keyed_container "[]" omap_insert "\<lambda>c. c" omap_ok "(=)"
  by unfold_locales (simp_all add: fold_omap_insert, simp add: omap_ok_def strict_sorted_iff)

interpretation unordered_map: keyed_container "[]" "umap_insert place" "\<lambda>c. c"
  "\<lambda>c. place_ok place \<and> distinct (map fst c)" "\<lambda>c d. mset c = mset d"
  for place :: "string \<times> 'a \<Rightarrow> (string \<times> 'a) list \<Rightarrow> (string \<times> 'a) list"
  by unfold_locales (simp_all add: fold_umap_insert)

section \<open>Round trips\<close>

text \<open>
  A list of strings as \<open>std::vector<std::string>\<close>, for the witnesses: \<open>boost::lexical_cast\<close>
  between strings is the identity. An element must read as a document by itself; the codec of
  the witnesses does for the texts it writes.
\<close>

definition string_cast :: "string \<Rightarrow> ('w, string) comp" where
  "string_cast = base_cast Inr"

lemma codec_yaml_emit [simp]: "y_emit codec_yaml = enc"
  by (simp add: codec_yaml_def)

lemma string_codec:
  "yaml_laws Y \<Longrightarrow> printable n \<Longrightarrow> codec Y string_cast string_cast (y_emit Y n)"
  by (auto simp: codec_def string_cast_def base_cast_def yaml_lawsD(1))

lemma witness_codecs:
  "codec codec_yaml string_cast string_cast ''N''"
  "codec codec_yaml string_cast string_cast ''Scae''"
  "codec codec_yaml string_cast string_cast ''Scbe''"
  using string_codec [OF codec_yaml_laws, of YNull] string_codec [OF codec_yaml_laws, of "YScalar ''a''"]
    string_codec [OF codec_yaml_laws, of "YScalar ''b''"]
  by (simp_all add: enc_chars_def plain_def)

text \<open>
  C25. Vectors, lists and ordered sets survive the trip through their YAML text, for every element
  type whose values do, and the text itself reads as a document: the casts nest. An unordered set
  comes back with the same elements, in some order.
\<close>

theorem sequence_casts_round_trip:
  assumes laws: "yaml_laws Y" and el: "\<forall>a\<in>set xs. codec Y to from a" and place: "place_ok place"
  shows "codec Y (vector_to_string Y to) (vector_from_string Y from) xs \<and>
    codec Y (list_to_string Y to) (list_from_string Y from) xs \<and>
    (set_ok key xs \<longrightarrow> codec Y (set_to_string Y to) (set_from_string Y key from) xs) \<and>
    (distinct xs \<longrightarrow>
       (\<exists>s d. unordered_set_to_string Y to xs = return s \<and>
          unordered_set_from_string Y place from s = return d \<and> mset d = mset xs))"
  using vector.sequence_round_trip [OF laws TrueI el]
    ordered_set.sequence_round_trip [where key = key, OF laws _ el]
    unordered_set.sequence_round_trip [where place = place, OF laws _ el] place
  by (auto simp: codec_def vector_to_string_def vector_from_string_def list_to_string_def
      list_from_string_def set_to_string_def set_from_string_def unordered_set_to_string_def
      unordered_set_from_string_def)

theorem sequence_casts_round_trip_witness:
  "codec codec_yaml (vector_to_string codec_yaml (vector_to_string codec_yaml string_cast))
     (vector_from_string codec_yaml (vector_from_string codec_yaml string_cast))
     [[''Scae'', ''N''], [], [''Scbe'']]"
proof -
  have "\<forall>a\<in>set xs. codec codec_yaml string_cast string_cast a"
    if "xs \<in> {[''Scae'', ''N''], [], [''Scbe'']}" for xs
    using that witness_codecs by auto
  then have "\<forall>a\<in>set [[''Scae'', ''N''], [], [''Scbe'']].
      codec codec_yaml (vector_to_string codec_yaml string_cast) (vector_from_string codec_yaml string_cast) a"
    using sequence_casts_round_trip [OF codec_yaml_laws _ place_ok_Cons, where key = id]
    by (metis insert_iff list.set)
  then show ?thesis using sequence_casts_round_trip [OF codec_yaml_laws _ place_ok_Cons, where key = id] by blast
qed

text \<open>
  C26. Maps with printable keys survive the trip as well, and an unordered map comes back with the
  same entries, in some order.
\<close>

theorem map_casts_round_trip:
  assumes laws: "yaml_laws Y" and place: "place_ok place"
    and el: "\<forall>p\<in>set ps. plain (fst p) \<and> codec Y to from (snd p)"
  shows "(omap_ok ps \<longrightarrow> codec Y (map_to_string Y to) (map_from_string Y from) ps) \<and>
    (distinct (map fst ps) \<longrightarrow>
       (\<exists>s d. unordered_map_to_string Y to ps = return s \<and>
          unordered_map_from_string Y place from s = return d \<and> mset d = mset ps))"
proof
  show "omap_ok ps \<longrightarrow> codec Y (map_to_string Y to) (map_from_string Y from) ps"
    using ordered_map.mapping_round_trip [OF laws _ el]
    by (auto simp: codec_def map_to_string_def map_from_string_def)
  show "distinct (map fst ps) \<longrightarrow>
      (\<exists>s d. unordered_map_to_string Y to ps = return s \<and>
         unordered_map_from_string Y place from s = return d \<and> mset d = mset ps)"
    using unordered_map.mapping_round_trip [OF laws _ el, of place] place
    by (auto simp: unordered_map_to_string_def unordered_map_from_string_def)
qed

theorem map_casts_round_trip_witness:
  "\<exists>s d. unordered_map_to_string codec_yaml (string_cast :: (unit, string) to_str)
       [(''k'', ''N''), (''b'', ''Scbe'')] = return s \<and>
     unordered_map_from_string codec_yaml (#) (string_cast :: (unit, string) from_str) s = return d \<and>
     mset d = mset [(''k'', ''N''), (''b'', ''Scbe'')]"
proof -
  have el: "\<forall>p\<in>set [(''k'', ''N''), (''b'', ''Scbe'')]. plain (fst p) \<and>
      codec codec_yaml (string_cast :: (unit, string) to_str) string_cast (snd p)"
    using witness_codecs by (auto simp: plain_def)
  from map_casts_round_trip [OF codec_yaml_laws place_ok_Cons el] show ?thesis by simp
qed

end
