(* ===== verification/Config.thy ===== *)
theory Config
  imports Logger_Log Lexical_Cast
begin

text \<open>
  The configuration module (\<open>sylar/config.h\<close> from \<open>ConfigVarBase\<close> on, \<open>sylar/config.cc\<close>):
  variables with change listeners, the registry, and loading a YAML document. A value of any C++
  type \<open>T\<close> is a value of the type parameter \<open>'v\<close>; what the templates take from \<open>T\<close> (its
  name, the two casts, its \<open>operator==\<close>) is a record. A \<open>shared_ptr\<close> to a variable is the
  number of the variable in a heap.
\<close>

section \<open>Variables\<close>

record 'v config_type =
  ct_name :: string                          \<comment> \<open>\<open>typeid(T).name()\<close>\<close>
  ct_from :: "(world, 'v) from_str"          \<comment> \<open>\<open>FromStr\<close>\<close>
  ct_to :: "(world, 'v) to_str"              \<comment> \<open>\<open>ToStr\<close>\<close>
  ct_eq :: "'v \<Rightarrow> 'v \<Rightarrow> bool"                \<comment> \<open>\<open>operator==\<close>\<close>

text \<open>A type whose casts are the primary template, such as \<open>int\<close>, \<open>float\<close> or \<open>std::string\<close>.\<close>

definition base_type ::
  "string \<Rightarrow> (string \<Rightarrow> string + 'v) \<Rightarrow> ('v \<Rightarrow> string + string) \<Rightarrow> ('v \<Rightarrow> 'v \<Rightarrow> bool) \<Rightarrow> 'v config_type" where
  "base_type name boost_from boost_to eq =
     \<lparr>ct_name = name, ct_from = base_cast boost_from, ct_to = base_cast boost_to, ct_eq = eq\<rparr>"

text \<open>\<open>on_change_cb\<close>: an empty \<open>std::function\<close> is \<open>None\<close>, and calling it throws.\<close>

type_synonym 'v on_change_cb = "('v \<Rightarrow> 'v \<Rightarrow> (world, unit) comp) option"

fun call_cb :: "'v on_change_cb \<Rightarrow> 'v \<Rightarrow> 'v \<Rightarrow> (world, unit) comp" where
  "call_cb None old_value new_value = throw (Std_Exception ''bad_function_call'')"
| "call_cb (Some f) old_value new_value = f old_value new_value"

record 'v config_var =
  cv_name :: string
  cv_description :: string
  cv_type :: "'v config_type"
  cv_val :: 'v
  cv_cbs :: "(u64, 'v on_change_cb) omap"

text \<open>The constructors \<open>ConfigVar\<close> and \<open>ConfigVarBase\<close>: the name is stored in lower case.\<close>

definition ConfigVar :: "'v config_type \<Rightarrow> string \<Rightarrow> 'v \<Rightarrow> string \<Rightarrow> 'v config_var" where
  "ConfigVar T name default_value description =
     \<lparr>cv_name = map tolower name, cv_description = description, cv_type = T,
      cv_val = default_value, cv_cbs = []\<rparr>"

text \<open>The listeners.\<close>

definition addListener :: "u64 \<Rightarrow> 'v on_change_cb \<Rightarrow> 'v config_var \<Rightarrow> 'v config_var" where
  "addListener key cb x = x\<lparr>cv_cbs := omap_put key cb (cv_cbs x)\<rparr>"

definition delListener :: "u64 \<Rightarrow> 'v config_var \<Rightarrow> 'v config_var" where
  "delListener key x = x\<lparr>cv_cbs := omap_erase key (cv_cbs x)\<rparr>"

definition getListener :: "u64 \<Rightarrow> 'v config_var \<Rightarrow> 'v on_change_cb" where
  "getListener key x = (case map_of (cv_cbs x) key of None \<Rightarrow> None | Some cb \<Rightarrow> cb)"

definition cleanListener :: "'v config_var \<Rightarrow> 'v config_var" where
  "cleanListener x = x\<lparr>cv_cbs := []\<rparr>"

section \<open>The state\<close>

text \<open>The logging world, the heap of variables and the registry \<open>s_datas\<close>.\<close>

type_synonym var_ptr = nat

record 'v system =
  sys_world :: world
  vars :: "var_ptr \<Rightarrow> 'v config_var"
  next_var :: nat
  datas :: "(string, var_ptr) omap"

definition in_world :: "(world, 'a) comp \<Rightarrow> ('v system, 'a) comp" where
  "in_world m = (\<lambda>s. case m (sys_world s) of (r, w) \<Rightarrow> (r, s\<lparr>sys_world := w\<rparr>))"

abbreviation upd_var :: "var_ptr \<Rightarrow> ('v config_var \<Rightarrow> 'v config_var) \<Rightarrow> 'v system \<Rightarrow> 'v system" where
  "upd_var p f s \<equiv> s\<lparr>vars := (vars s)(p := f (vars s p))\<rparr>"

section \<open>Operations of a variable\<close>

definition getValue :: "var_ptr \<Rightarrow> 'v system \<Rightarrow> 'v" where
  "getValue p s = cv_val (vars s p)"

definition getName :: "var_ptr \<Rightarrow> 'v system \<Rightarrow> string" where
  "getName p s = cv_name (vars s p)"

definition getDescription :: "var_ptr \<Rightarrow> 'v system \<Rightarrow> string" where
  "getDescription p s = cv_description (vars s p)"

definition getTypeName :: "var_ptr \<Rightarrow> 'v system \<Rightarrow> string" where
  "getTypeName p s = ct_name (cv_type (vars s p))"

text \<open>
  \<open>setValue\<close>: nothing when the value is equal; otherwise the listeners in the order of their keys,
  with the old and the new value, and then the assignment.
\<close>

definition run_cbs :: "'v config_var \<Rightarrow> 'v \<Rightarrow> (world, unit) comp" where
  "run_cbs x v = for_each (cv_cbs x) (\<lambda>i. call_cb (snd i) (cv_val x) v)"

definition setValue :: "var_ptr \<Rightarrow> 'v \<Rightarrow> ('v system, unit) comp" where
  "setValue p v = (\<lambda>s.
     if ct_eq (cv_type (vars s p)) v (cv_val (vars s p)) then (Inr (), s)
     else bind_comp (in_world (run_cbs (vars s p) v))
            (\<lambda>_. modify (upd_var p (cv_val_update (\<lambda>_. v)))) s)"

definition toString :: "var_ptr \<Rightarrow> ('v system, string) comp" where
  "toString p = (\<lambda>s.
     let T = cv_type (vars s p) in
     catch_std (in_world (ct_to T (cv_val (vars s p))))
       (\<lambda>e. bind_comp (in_world (log_root ERROR ''sylar/config.h'' 341
                (''ConfigVar::toString exception'' @ e @ '' Convert '' @ ct_name T @ '' to String'')))
              (\<lambda>_. return [])) s)"

definition fromString :: "var_ptr \<Rightarrow> string \<Rightarrow> ('v system, bool) comp" where
  "fromString p val = (\<lambda>s.
     let T = cv_type (vars s p) in
     catch_std (bind_comp (in_world (ct_from T val)) (\<lambda>v. bind_comp (setValue p v) (\<lambda>_. return True)))
       (\<lambda>e. bind_comp (in_world (log_root ERROR ''sylar/config.h'' 356
                (''ConfigVar::fromString exception'' @ e @ '' Convert string to'' @ ct_name T)))
              (\<lambda>_. return False)) s)"

section \<open>The registry\<close>

definition config_chars :: string where
  "config_chars = ''abcdefghijklmnopqrstuvwxyz._0123456789''"

text \<open>\<open>Lookup<T>(name)\<close>: the \<open>dynamic_pointer_cast\<close> gives null for another type.\<close>

definition Lookup_find :: "'v config_type \<Rightarrow> string \<Rightarrow> 'v system \<Rightarrow> var_ptr option" where
  "Lookup_find T name s =
     (case map_of (datas s) name of
        None \<Rightarrow> None
      | Some p \<Rightarrow> if ct_name (cv_type (vars s p)) = ct_name T then Some p else None)"

text \<open>
  A log statement on the root logger whose message has to be computed: it is computed only when
  the level of the logger lets the event pass.
\<close>

definition log_root_computed ::
  "level \<Rightarrow> string \<Rightarrow> i32 \<Rightarrow> ('v system, string) comp \<Rightarrow> ('v system, unit) comp" where
  "log_root_computed lv file line msg = (\<lambda>s.
     case getRoot (sys_world s) of (r, w) \<Rightarrow>
       if getLevel r w \<le> lv
       then bind_comp msg (\<lambda>t. in_world (\<lambda>w.
              LogEventWrap_destroy (stream_into t (macro_event r lv file line w)) w)) (s\<lparr>sys_world := w\<rparr>)
       else (Inr (), s\<lparr>sys_world := w\<rparr>))"

text \<open>\<open>Lookup<T>(name, default_value, description)\<close>.\<close>

definition Lookup :: "'v config_type \<Rightarrow> string \<Rightarrow> 'v \<Rightarrow> string \<Rightarrow> ('v system, var_ptr option) comp" where
  "Lookup T name default_value description = (\<lambda>s.
     case map_of (datas s) name of
       Some p \<Rightarrow>
         if ct_name (cv_type (vars s p)) = ct_name T then
           bind_comp (in_world (log_root INFO ''sylar/config.h'' 434 (''Lookup name ='' @ name @ '' exists'')))
             (\<lambda>_. return (Some p)) s
         else
           bind_comp (log_root_computed ERROR ''sylar/config.h'' 440
               (bind_comp (toString p) (\<lambda>t. return (''Lookup name ='' @ name @ '' exists but type not'' @
                  ct_name T @ '' real type='' @ ct_name (cv_type (vars s p)) @ '' real value:'' @ t))))
             (\<lambda>_. return None) s
     | None \<Rightarrow>
         if has_char_not_of name config_chars then
           bind_comp (in_world (log_root ERROR ''sylar/config.h'' 448 (''Lookup name invalid = '' @ name)))
             (\<lambda>_. throw (Std_Exception name)) s
         else
           (Inr (Some (next_var s)),
            s\<lparr>vars := (vars s)(next_var s := ConfigVar T name default_value description),
              next_var := Suc (next_var s), datas := omap_put name (next_var s) (datas s)\<rparr>))"

definition LookupBase :: "string \<Rightarrow> 'v system \<Rightarrow> var_ptr option" where
  "LookupBase name s = map_of (datas s) name"

section \<open>Loading a document\<close>

text \<open>
  \<open>ListAllMember\<close>: every node of the document with its dotted path. A path with a character
  that names may not have is reported and skipped with everything below it.
\<close>

definition child_path :: "string \<Rightarrow> string \<Rightarrow> string" where
  "child_path prefix k = (if prefix = [] then k else prefix @ ''.'' @ k)"

function ListAllMember ::
    "yaml_lib \<Rightarrow> string \<Rightarrow> yaml \<Rightarrow> (string \<times> yaml) list \<Rightarrow> (world, (string \<times> yaml) list) comp"
  and ListAllMember_items ::
    "yaml_lib \<Rightarrow> string \<Rightarrow> (yaml \<times> yaml) list \<Rightarrow> (string \<times> yaml) list \<Rightarrow>
       (world, (string \<times> yaml) list) comp" where
  "ListAllMember Y prefix node output =
     (if has_char_not_of prefix config_chars then
        bind_comp (log_root INFO ''sylar/config.cc'' 22
            (''Config invalid name: '' @ prefix @ '' : '' @ y_emit Y node))
          (\<lambda>_. return output)
      else
        (case node of
           YMap ps \<Rightarrow> ListAllMember_items Y prefix ps (output @ [(prefix, node)])
         | _ \<Rightarrow> return (output @ [(prefix, node)])))"
| "ListAllMember_items Y prefix [] output = return output"
| "ListAllMember_items Y prefix (p # ps) output =
     bind_comp (lib_call (y_scalar Y (fst p))) (\<lambda>k.
     bind_comp (ListAllMember Y (child_path prefix k) (snd p) output) (\<lambda>out.
     ListAllMember_items Y prefix ps out))"
  by pat_completeness auto

termination
  by (relation "measure (\<lambda>x. case x of Inl (_, _, node, _) \<Rightarrow> size node
      | Inr (_, _, ps, _) \<Rightarrow> size_list (\<lambda>p. Suc (size (fst p) + size (snd p))) ps)")
    (auto simp: size_prod_simp split: yaml.splits)

declare ListAllMember.simps [simp del]

text \<open>\<open>LoadFromYaml\<close>: the text of a node is its scalar, or what the emitter writes.\<close>

definition load_member :: "yaml_lib \<Rightarrow> string \<times> yaml \<Rightarrow> ('v system, unit) comp" where
  "load_member Y it = (\<lambda>s.
     if fst it = [] then (Inr (), s)
     else (case LookupBase (map tolower (fst it)) s of
        None \<Rightarrow> (Inr (), s)
      | Some p \<Rightarrow>
          bind_comp (if IsScalar (snd it) then lib_call (y_scalar Y (snd it)) else return (y_emit Y (snd it)))
            (\<lambda>t. bind_comp (fromString p t) (\<lambda>_. return ())) s))"

definition LoadFromYaml :: "yaml_lib \<Rightarrow> yaml \<Rightarrow> ('v system, unit) comp" where
  "LoadFromYaml Y root =
     bind_comp (in_world (ListAllMember Y [] root [])) (\<lambda>all_nodes. for_each all_nodes (load_member Y))"

end
