(* ===== verification/Config_Invariant.thy ===== *)
theory Config_Invariant
  imports Config
begin

text \<open>
  The registry's invariant, the contract between the configuration and the types and listeners of
  its variables, and the public operations as a step relation whose reachable states satisfy both.
\<close>

section \<open>Computations that keep the logging invariant\<close>

text \<open>
  What an operation may do to its state: anything that keeps the invariant; it may throw, but the only behaviour outside the language is a date that does not fit the buffer.
\<close>

definition safe_result :: "error + 'a \<Rightarrow> bool" where
  "safe_result r = (case r of Inl (Undefined u) \<Rightarrow> u = Indeterminate_Value | _ \<Rightarrow> True)"

definition keeps :: "('s \<Rightarrow> bool) \<Rightarrow> ('s, 'a) comp \<Rightarrow> bool" where
  "keeps P m = (\<forall>s. P s \<longrightarrow> P (snd (m s)) \<and> safe_result (fst (m s)))"

text \<open>The invariant of the logging world; loggers that exist are never destroyed.\<close>

definition log_grown :: "nat \<Rightarrow> world \<Rightarrow> bool" where
  "log_grown n w = (log_inv w \<and> n \<le> next_logger w)"

abbreviation safe_comp :: "(world, 'a) comp \<Rightarrow> bool" where
  "safe_comp m \<equiv> \<forall>n. keeps (log_grown n) m"

named_theorems safe_intros \<open>computations that keep an invariant\<close>

lemma safe_result_simps [simp]:
  "safe_result (Inr x)" "safe_result (Inl (Std_Exception e))"
  "safe_result (Inl (Undefined u)) = (u = Indeterminate_Value)"
  by (simp_all add: safe_result_def)

lemma keepsI: "(\<And>s. P s \<Longrightarrow> P (snd (m s)) \<and> safe_result (fst (m s))) \<Longrightarrow> keeps P m"
  by (simp add: keeps_def)

lemma keepsD: "keeps P m \<Longrightarrow> P s \<Longrightarrow> P (snd (m s)) \<and> safe_result (fst (m s))"
  by (simp add: keeps_def)

lemma keeps_return [safe_intros]: "keeps P (return x)"
  by (simp add: keeps_def return_apply)

lemma keeps_throw [safe_intros]: "keeps P (throw (Std_Exception e))"
  by (simp add: keeps_def throw_apply)

lemma keeps_if [safe_intros]: "keeps P m \<Longrightarrow> keeps P k \<Longrightarrow> keeps P (if b then m else k)"
  by simp

lemma keeps_lib_call [safe_intros]: "keeps P (lib_call r)"
  by (cases r) (simp_all add: safe_intros)

lemma keeps_bind_value:
  assumes "keeps P m" and "\<And>s x. P s \<Longrightarrow> fst (m s) = Inr x \<Longrightarrow> keeps P (f x)"
  shows "keeps P (bind_comp m f)"
proof (rule keepsI)
  fix s
  assume s: "P s"
  obtain r v where m: "m s = (r, v)" by fastforce
  with keepsD [OF assms(1) s] have r: "P v" "safe_result r" by simp_all
  show "P (snd (bind_comp m f s)) \<and> safe_result (fst (bind_comp m f s))"
  proof (cases r)
    case (Inl e)
    with m r show ?thesis by (cases e) (simp_all add: comp_simps)
  next
    case (Inr x)
    then have "keeps P (f x)" using assms(2) [of s x] m s by simp
    from keepsD [OF this r(1)] Inr m show ?thesis by (simp add: comp_simps)
  qed
qed

lemma keeps_bind [safe_intros]: "keeps P m \<Longrightarrow> (\<And>x. keeps P (f x)) \<Longrightarrow> keeps P (bind_comp m f)"
  by (rule keeps_bind_value)

lemma keeps_catch [safe_intros]:
  assumes "keeps P m" and "\<And>e. keeps P (h e)"
  shows "keeps P (catch_std m h)"
proof (rule keepsI)
  fix s
  assume s: "P s"
  obtain r v where m: "m s = (r, v)" by fastforce
  with keepsD [OF assms(1) s] have r: "P v" "safe_result r" by simp_all
  with m keepsD [OF assms(2) r(1)]
  show "P (snd (catch_std m h s)) \<and> safe_result (fst (catch_std m h s))"
    by (auto simp: comp_simps split: sum.split error.split)
qed

lemma keeps_for_each [safe_intros]:
  "(\<And>x. x \<in> set xs \<Longrightarrow> keeps P (f x)) \<Longrightarrow> keeps P (for_each xs f)"
  by (induction xs) (auto intro: safe_intros)

lemma safe_compD:
  "safe_comp m \<Longrightarrow> log_inv w \<Longrightarrow>
     log_inv (snd (m w)) \<and> next_logger w \<le> next_logger (snd (m w)) \<and> safe_result (fst (m w))"
  using keepsD [of "log_grown (next_logger w)" m w] by (simp add: log_grown_def)

lemma safe_print [safe_intros]: "keeps (log_grown n) (modify (print t))"
  by (simp add: keeps_def modify_apply print_inv log_grown_def)

lemma log_result_safe: "log_result_ok r \<Longrightarrow> safe_result r"
  by (auto simp: log_result_ok_def safe_result_def split: sum.splits error.splits)

lemma GetInstance_root:
  "log_inv w \<Longrightarrow> log_inv (GetInstance w) \<and> mgr_root (GetInstance w) < next_logger (GetInstance w)"
  using GetInstance_inv log_inv_mgr by (fastforce simp: mgr_ok_def)

lemma GetInstance_grows: "next_logger w \<le> next_logger (GetInstance w)"
  by (simp add: manager_construction)

lemma safe_destroy:
  assumes "log_inv w" "m_logger ev < next_logger w"
  shows "log_inv (snd (LogEventWrap_destroy ev w)) \<and>
    next_logger (snd (LogEventWrap_destroy ev w)) = next_logger w \<and>
    safe_result (fst (LogEventWrap_destroy ev w))"
  using assms Logger_log_frame [of w "m_logger ev" "m_level ev" ev]
  by (simp add: LogEventWrap_destroy_def Logger_log_inv Logger_log_safe log_result_safe log_frame_def)

lemma macro_event_logger [simp]: "m_logger (stream_into t (macro_event r lv file line w)) = r"
  by (simp add: stream_into_def macro_event_def LogEvent_def)

lemma safe_log_root [safe_intros]: "keeps (log_grown n) (log_root lv file line msg)"
proof (rule keepsI)
  fix w
  assume "log_grown n w"
  with GetInstance_root [of w] GetInstance_grows [of w] safe_destroy [of "GetInstance w"]
  show "log_grown n (snd (log_root lv file line msg w)) \<and> safe_result (fst (log_root lv file line msg w))"
    by (simp add: log_root_def getRoot_def Let_def SYLAR_LOG_LEVEL_def log_grown_def)
qed

section \<open>The contracts\<close>

text \<open>
  What the configuration relies on of a type \<open>T\<close> whose proper values are \<open>good\<close>, and of a
  listener on a variable of that type.
\<close>

locale config_type_contract =
  fixes T :: "'v config_type" and good :: "'v \<Rightarrow> bool"
  assumes from_safe: "safe_comp (ct_from T t)"
    and from_good: "log_inv w \<Longrightarrow> fst (ct_from T t w) = Inr v \<Longrightarrow> good v"
    and to_safe: "good v \<Longrightarrow> safe_comp (ct_to T v)"

locale listener_contract = config_type_contract +
  fixes cb :: "'v \<Rightarrow> 'v \<Rightarrow> (world, unit) comp"
  assumes cb_safe: "good old_value \<Longrightarrow> good new_value \<Longrightarrow> safe_comp (cb old_value new_value)"
begin

lemma call_safe: "good old_value \<Longrightarrow> good new_value \<Longrightarrow> safe_comp (call_cb (Some cb) old_value new_value)"
  by (simp add: cb_safe)

end

interpretation base_type: config_type_contract "base_type name boost_from boost_to eq" "\<lambda>_. True"
  by unfold_locales (simp_all add: base_type_def base_cast_def safe_intros)

definition listener_ok :: "'v config_type \<Rightarrow> ('v \<Rightarrow> bool) \<Rightarrow> 'v on_change_cb \<Rightarrow> bool" where
  "listener_ok T good cb = (\<forall>f. cb = Some f \<longrightarrow> listener_contract T good f)"

lemma listener_ok_call:
  assumes "listener_ok T good cb" "good old_value" "good new_value"
  shows "safe_comp (call_cb cb old_value new_value)"
proof (cases cb)
  case None
  then show ?thesis by (simp add: safe_intros)
next
  case (Some f)
  with assms listener_contract.call_safe show ?thesis by (fastforce simp: listener_ok_def)
qed

text \<open>A variable whose type and listeners keep the contract, with a proper value.\<close>

definition var_safe_for :: "('v \<Rightarrow> bool) \<Rightarrow> 'v config_var \<Rightarrow> bool" where
  "var_safe_for good x =
     (config_type_contract (cv_type x) good \<and> good (cv_val x) \<and>
      (\<forall>e\<in>set (cv_cbs x). listener_ok (cv_type x) good (snd e)))"

definition var_safe :: "'v config_var \<Rightarrow> bool" where
  "var_safe x = (\<exists>good. var_safe_for good x)"

lemma run_cbs_safe: "var_safe_for good x \<Longrightarrow> good v \<Longrightarrow> safe_comp (run_cbs x v)"
  unfolding run_cbs_def var_safe_for_def
  by (auto intro!: keeps_for_each listener_ok_call [of "cv_type x" good, THEN spec])

section \<open>The invariant of the registry\<close>

definition valid_name :: "string \<Rightarrow> bool" where
  "valid_name name = (\<not> has_char_not_of name config_chars)"

lemma lower_config_chars: "c \<in> set config_chars \<Longrightarrow> tolower c = c"
  by (auto simp: config_chars_def tolower_def)

lemma valid_name_lower: "valid_name name \<Longrightarrow> map tolower name = name"
  by (induction name) (auto simp: valid_name_def has_char_not_of_def lower_config_chars)

definition registry_ok :: "'v system \<Rightarrow> bool" where
  "registry_ok s =
     (omap_ok (datas s) \<and> distinct (map snd (datas s)) \<and>
      (\<forall>e\<in>set (datas s). snd e < next_var s \<and> cv_name (vars s (snd e)) = fst e \<and> valid_name (fst e)))"

definition sys_inv :: "'v system \<Rightarrow> bool" where
  "sys_inv s =
     (registry_ok s \<and> log_inv (sys_world s) \<and> (\<forall>p<next_var s. var_safe (vars s p)))"

lemma registry_find:
  "registry_ok s \<Longrightarrow> map_of (datas s) k = Some p \<Longrightarrow>
     p < next_var s \<and> cv_name (vars s p) = k \<and> valid_name k"
  by (fastforce simp: registry_ok_def dest: map_of_SomeD)

lemma registry_inj:
  assumes "registry_ok s" "map_of (datas s) j = Some p" "map_of (datas s) k = Some p"
  shows "j = k"
  using registry_find [OF assms(1,2)] registry_find [OF assms(1,3)] by simp

section \<open>What an operation on one variable may change\<close>

text \<open>
  Every member of a variable but its value: nothing that loads, sets or prints values touches it,
  and the loggers that exist stay.
\<close>

definition same_registry :: "'v system \<Rightarrow> 'v system \<Rightarrow> bool" where
  "same_registry s t =
     (datas t = datas s \<and> next_var t = next_var s \<and>
      next_logger (sys_world s) \<le> next_logger (sys_world t) \<and>
      (\<forall>p. \<exists>v. vars t p = (vars s p)\<lparr>cv_val := v\<rparr>))"

lemma val_same [simp]: "\<exists>v. x = x\<lparr>cv_val := v\<rparr>"
  by (rule exI [of _ "cv_val x"]) simp

lemma same_registry_refl [simp]: "same_registry s s"
  by (simp add: same_registry_def)

lemma same_registry_trans:
  assumes "same_registry s t" "same_registry t u"
  shows "same_registry s u"
proof -
  have "\<exists>v. vars u p = (vars s p)\<lparr>cv_val := v\<rparr>" for p
  proof -
    obtain a where "vars t p = (vars s p)\<lparr>cv_val := a\<rparr>" using assms(1) by (auto simp: same_registry_def)
    moreover obtain b where "vars u p = (vars t p)\<lparr>cv_val := b\<rparr>" using assms(2) by (auto simp: same_registry_def)
    ultimately show ?thesis by auto
  qed
  with assms show ?thesis by (simp add: same_registry_def)
qed

lemma same_registry_simps:
  assumes "same_registry s t"
  shows "datas t = datas s" "next_var t = next_var s" "cv_name (vars t p) = cv_name (vars s p)"
    "cv_type (vars t p) = cv_type (vars s p)" "cv_cbs (vars t p) = cv_cbs (vars s p)"
    "cv_description (vars t p) = cv_description (vars s p)"
proof -
  obtain v where "vars t p = (vars s p)\<lparr>cv_val := v\<rparr>" using assms by (auto simp: same_registry_def)
  then show "datas t = datas s" "next_var t = next_var s" "cv_name (vars t p) = cv_name (vars s p)"
    "cv_type (vars t p) = cv_type (vars s p)" "cv_cbs (vars t p) = cv_cbs (vars s p)"
    "cv_description (vars t p) = cv_description (vars s p)"
    using assms by (simp_all add: same_registry_def)
qed

lemma same_registry_ok: "same_registry s t \<Longrightarrow> registry_ok t = registry_ok s"
  by (simp add: registry_ok_def same_registry_simps)

lemma in_world_fst [simp]: "fst (in_world m s) = fst (m (sys_world s))"
  by (simp add: in_world_def split: prod.split)

lemma in_world_snd [simp]: "snd (in_world m s) = s\<lparr>sys_world := snd (m (sys_world s))\<rparr>"
  by (simp add: in_world_def split: prod.split)

lemma in_world_eq: "in_world m s = (fst (m (sys_world s)), s\<lparr>sys_world := snd (m (sys_world s))\<rparr>)"
  by (simp add: in_world_def split: prod.split)

lemma same_registry_world:
  "next_logger (sys_world s) \<le> next_logger w \<Longrightarrow> same_registry s (s\<lparr>sys_world := w\<rparr>)"
  by (simp add: same_registry_def)

lemma same_registry_val [simp]: "same_registry s (upd_var p (cv_val_update (\<lambda>_. v)) s)"
  unfolding same_registry_def
proof (intro conjI allI)
  fix q
  show "\<exists>u. vars (upd_var p (cv_val_update (\<lambda>_. v)) s) q = (vars s q)\<lparr>cv_val := u\<rparr>"
    by (cases "q = p") (auto intro: exI [of _ v] exI [of _ "cv_val (vars s q)"])
qed simp_all

section \<open>The operations keep the invariant\<close>

text \<open>
  A state reached from \<open>s0\<close> by changing values and the world only, in which the values of
  variable \<open>p\<close> are \<open>good\<close>.
\<close>

definition var_inv :: "'v system \<Rightarrow> var_ptr \<Rightarrow> ('v \<Rightarrow> bool) \<Rightarrow> 'v system \<Rightarrow> bool" where
  "var_inv s0 p good s =
     (sys_inv s \<and> same_registry s0 s \<and> p < next_var s \<and> var_safe_for good (vars s p))"

lemma var_safe_value: "var_safe_for good x \<Longrightarrow> good v \<Longrightarrow> var_safe_for good (x\<lparr>cv_val := v\<rparr>)"
  by (simp add: var_safe_for_def)

lemma var_inv_contract: "var_inv s0 p good s \<Longrightarrow> config_type_contract (cv_type (vars s p)) good"
  by (simp add: var_inv_def var_safe_for_def)

lemma var_inv_good: "var_inv s0 p good s \<Longrightarrow> good (cv_val (vars s p))"
  by (simp add: var_inv_def var_safe_for_def)

lemma var_inv_type: "var_inv s0 p good s \<Longrightarrow> cv_type (vars s p) = cv_type (vars s0 p)"
  by (simp add: var_inv_def same_registry_simps)

lemma var_inv_start:
  assumes "sys_inv s" "p < next_var s"
  obtains good where "var_inv s p good s"
  using assms by (auto simp: sys_inv_def var_inv_def var_safe_def)

lemma sys_inv_world: "sys_inv s \<Longrightarrow> log_inv w \<Longrightarrow> sys_inv (s\<lparr>sys_world := w\<rparr>)"
  by (simp add: sys_inv_def registry_ok_def)

lemma var_inv_world:
  "var_inv s0 p good s \<Longrightarrow> log_grown (next_logger (sys_world s)) w \<Longrightarrow> var_inv s0 p good (s\<lparr>sys_world := w\<rparr>)"
  by (auto simp: var_inv_def sys_inv_world log_grown_def intro: same_registry_trans [OF _ same_registry_world])

lemma var_inv_val:
  assumes "var_inv s0 p good s" "good v"
  shows "var_inv s0 p good (upd_var p (cv_val_update (\<lambda>_. v)) s)"
proof -
  let ?t = "upd_var p (cv_val_update (\<lambda>_. v)) s"
  have safe: "var_safe_for good ((vars s p)\<lparr>cv_val := v\<rparr>)"
    using assms by (simp add: var_inv_def var_safe_value)
  have "registry_ok ?t"
    using assms(1) same_registry_ok [OF same_registry_val [of s p v]] by (simp add: var_inv_def sys_inv_def)
  with assms(1) safe have "sys_inv ?t" by (auto simp: var_inv_def sys_inv_def var_safe_def)
  moreover have "same_registry s0 ?t"
    using assms(1) same_registry_trans [OF _ same_registry_val] by (auto simp: var_inv_def)
  ultimately show ?thesis using assms(1) safe by (simp add: var_inv_def)
qed

lemma keeps_in_world:
  assumes "safe_comp m" and "\<And>s. P s \<Longrightarrow> log_inv (sys_world s)"
    and "\<And>s w. P s \<Longrightarrow> log_grown (next_logger (sys_world s)) w \<Longrightarrow> P (s\<lparr>sys_world := w\<rparr>)"
  shows "keeps P (in_world m)"
  using safe_compD [OF assms(1,2)] assms(3) by (auto simp: keeps_def in_world_eq log_grown_def)

lemma var_inv_in_world [safe_intros]: "safe_comp m \<Longrightarrow> keeps (var_inv s0 p good) (in_world m)"
  by (rule keeps_in_world) (auto simp: var_inv_world, simp add: var_inv_def sys_inv_def)

lemma keeps_modify: "(\<And>s. P s \<Longrightarrow> P (f s)) \<Longrightarrow> keeps P (modify f)"
  by (simp add: keeps_def modify_apply)

lemma setValue_keeps:
  assumes good: "good v"
  shows "keeps (var_inv s0 p good) (setValue p v)"
proof (rule keepsI)
  fix s
  assume s: "var_inv s0 p good s"
  then have "safe_comp (run_cbs (vars s p) v)" using good by (intro run_cbs_safe [of good]) (simp_all add: var_inv_def)
  then have "keeps (var_inv s0 p good) (bind_comp (in_world (run_cbs (vars s p) v))
      (\<lambda>_. modify (upd_var p (cv_val_update (\<lambda>_. v)))))"
    using good by (intro safe_intros keeps_modify var_inv_val)
  from keepsD [OF this s] s
  show "var_inv s0 p good (snd (setValue p v s)) \<and> safe_result (fst (setValue p v s))"
    by (simp add: setValue_def)
qed

lemma toString_keeps: "keeps (var_inv s0 p good) (toString p)"
proof (rule keepsI)
  fix s
  assume s: "var_inv s0 p good s"
  have "safe_comp (ct_to (cv_type (vars s p)) (cv_val (vars s p)))"
    using config_type_contract.to_safe [OF var_inv_contract [OF s]] var_inv_good [OF s] by simp
  then have "keeps (var_inv s0 p good)
      (catch_std (in_world (ct_to (cv_type (vars s p)) (cv_val (vars s p))))
       (\<lambda>e. bind_comp (in_world (log_root ERROR ''sylar/config.h'' 341
                (''ConfigVar::toString exception'' @ e @ '' Convert '' @ ct_name (cv_type (vars s p)) @ '' to String'')))
              (\<lambda>_. return [])))"
    by (auto intro!: safe_intros)
  from keepsD [OF this s]
  show "var_inv s0 p good (snd (toString p s)) \<and> safe_result (fst (toString p s))"
    by (simp add: toString_def Let_def)
qed

lemma fromString_body_keeps:
  assumes s: "var_inv s0 p good s"
  shows "keeps (var_inv s0 p good) (bind_comp (in_world (ct_from (cv_type (vars s p)) val))
    (\<lambda>v. bind_comp (setValue p v) (\<lambda>_. return True)))"
proof (rule keeps_bind_value)
  show "keeps (var_inv s0 p good) (in_world (ct_from (cv_type (vars s p)) val))"
    using config_type_contract.from_safe [OF var_inv_contract [OF s]] by (intro safe_intros)
next
  fix t v
  assume "var_inv s0 p good t" "fst (in_world (ct_from (cv_type (vars s p)) val) t) = Inr v"
  then have "good v"
    using config_type_contract.from_good [OF var_inv_contract [OF s], of "sys_world t" val v]
    by (simp add: var_inv_def sys_inv_def)
  then show "keeps (var_inv s0 p good) (bind_comp (setValue p v) (\<lambda>_. return True))"
    by (intro safe_intros setValue_keeps)
qed

lemma fromString_keeps: "keeps (var_inv s0 p good) (fromString p val)"
proof (rule keepsI)
  fix s
  assume s: "var_inv s0 p good s"
  have "keeps (var_inv s0 p good)
      (catch_std (bind_comp (in_world (ct_from (cv_type (vars s p)) val))
         (\<lambda>v. bind_comp (setValue p v) (\<lambda>_. return True)))
       (\<lambda>e. bind_comp (in_world (log_root ERROR ''sylar/config.h'' 356
                (''ConfigVar::fromString exception'' @ e @ '' Convert string to'' @ ct_name (cv_type (vars s p)))))
              (\<lambda>_. return False)))"
    by (rule keeps_catch [OF fromString_body_keeps [OF s]]) (intro safe_intros allI)
  from keepsD [OF this s]
  show "var_inv s0 p good (snd (fromString p val s)) \<and> safe_result (fst (fromString p val s))"
    by (simp add: fromString_def Let_def)
qed

text \<open>The same for a whole state: all variables of the registry keep their contract.\<close>

definition sys_from :: "'v system \<Rightarrow> 'v system \<Rightarrow> bool" where
  "sys_from s0 s = (sys_inv s \<and> same_registry s0 s)"

lemma sys_from_refl: "sys_from s s = sys_inv s"
  by (simp add: sys_from_def)

lemma sys_from_world [safe_intros]: "safe_comp m \<Longrightarrow> keeps (sys_from s0) (in_world m)"
  by (rule keeps_in_world)
    (auto simp: sys_from_def sys_inv_world log_grown_def intro: same_registry_trans [OF _ same_registry_world],
      simp add: sys_inv_def)

lemma keeps_var_sys:
  assumes "p < next_var s0" and "\<And>good t. keeps (var_inv t p good) m"
  shows "keeps (sys_from s0) m"
proof (rule keepsI)
  fix s
  assume s: "sys_from s0 s"
  then have "same_registry s0 s" by (simp add: sys_from_def)
  with assms(1) have "p < next_var s" by (simp add: same_registry_simps)
  with s obtain good where "var_inv s p good s"
    by (auto simp: sys_from_def elim: var_inv_start)
  from keepsD [OF assms(2) this] s
  show "sys_from s0 (snd (m s)) \<and> safe_result (fst (m s))"
    by (auto simp: sys_from_def var_inv_def intro: same_registry_trans)
qed

lemma fromString_sys [safe_intros]: "p < next_var s0 \<Longrightarrow> keeps (sys_from s0) (fromString p t)"
  by (rule keeps_var_sys) (auto intro: fromString_keeps)

lemma toString_sys [safe_intros]: "p < next_var s0 \<Longrightarrow> keeps (sys_from s0) (toString p)"
  by (rule keeps_var_sys) (auto intro: toString_keeps)

lemma ListAllMember_safe:
  "keeps (log_grown n) (ListAllMember Y prefix node out)"
  "keeps (log_grown n) (ListAllMember_items Y prefix ps out)"
proof (induction Y prefix node out and Y prefix ps out rule: ListAllMember_ListAllMember_items.induct)
  case (1 Y prefix node out)
  then show ?case
    unfolding ListAllMember.simps [of Y prefix node] by (cases node) (auto intro!: safe_intros)
qed (auto intro!: safe_intros)

lemma load_member_keeps: "keeps (sys_from s0) (load_member Y it)"
proof (rule keepsI)
  fix s
  assume s: "sys_from s0 s"
  show "sys_from s0 (snd (load_member Y it s)) \<and> safe_result (fst (load_member Y it s))"
  proof (cases "fst it = [] \<or> LookupBase (map tolower (fst it)) s = None")
    case True
    with s show ?thesis by (auto simp: load_member_def)
  next
    case False
    then obtain p where p: "LookupBase (map tolower (fst it)) s = Some p" by auto
    with s have "p < next_var s0"
      using registry_find by (fastforce simp: LookupBase_def sys_from_def sys_inv_def same_registry_simps)
    then have "keeps (sys_from s0)
        (bind_comp (if IsScalar (snd it) then lib_call (y_scalar Y (snd it)) else return (y_emit Y (snd it)))
          (\<lambda>t. bind_comp (fromString p t) (\<lambda>_. return ())))"
      by (auto intro!: safe_intros)
    from keepsD [OF this s] False p show ?thesis by (simp add: load_member_def)
  qed
qed

lemma LoadFromYaml_keeps: "keeps (sys_from s0) (LoadFromYaml Y root)"
  unfolding LoadFromYaml_def by (intro safe_intros allI ListAllMember_safe load_member_keeps)

lemma log_root_computed_keeps:
  assumes "\<And>s0. p < next_var s0 \<Longrightarrow> keeps (sys_from s0) msg" and "p < next_var s0"
  shows "keeps (sys_from s0) (log_root_computed lv file line msg)"
proof (rule keepsI)
  fix s
  assume s: "sys_from s0 s"
  let ?w = "GetInstance (sys_world s)"
  let ?s1 = "s\<lparr>sys_world := ?w\<rparr>"
  have inv: "log_inv (sys_world s)" using s by (simp add: sys_from_def sys_inv_def)
  have same1: "same_registry s0 ?s1"
    using s same_registry_trans [OF _ same_registry_world [OF GetInstance_grows]]
    by (auto simp: sys_from_def)
  have s1: "sys_from s0 ?s1" "sys_from ?s1 ?s1"
    using s sys_inv_world [OF _ GetInstance_inv [OF inv]] same1 by (auto simp: sys_from_def)
  have destroy: "keeps (sys_from ?s1) (in_world (\<lambda>w.
      LogEventWrap_destroy (stream_into t (macro_event (mgr_root ?w) lv file line w)) w))" for t
  proof (rule keepsI)
    fix u
    assume u: "sys_from ?s1 u"
    then have "log_inv (sys_world u)" "mgr_root ?w < next_logger (sys_world u)"
      using GetInstance_root [OF inv] by (auto simp: sys_from_def sys_inv_def same_registry_def)
    from safe_destroy [OF this(1), of "stream_into t (macro_event (mgr_root ?w) lv file line (sys_world u))"]
      this u sys_inv_world [of u]
    show "sys_from ?s1 (snd (in_world (\<lambda>w.
        LogEventWrap_destroy (stream_into t (macro_event (mgr_root ?w) lv file line w)) w) u)) \<and>
      safe_result (fst (in_world (\<lambda>w.
        LogEventWrap_destroy (stream_into t (macro_event (mgr_root ?w) lv file line w)) w) u))"
      by (auto simp: sys_from_def intro: same_registry_trans [OF _ same_registry_world])
  qed
  have "keeps (sys_from ?s1) msg" using assms same_registry_simps(2) [OF same1] by simp
  from keepsD [OF keeps_bind [OF this destroy] s1(2)] s1(1) same_registry_trans [OF same1]
  show "sys_from s0 (snd (log_root_computed lv file line msg s)) \<and>
    safe_result (fst (log_root_computed lv file line msg s))"
    by (auto simp: log_root_computed_def getRoot_def Let_def sys_from_def)
qed

section \<open>The public operations as steps\<close>

definition default_ok :: "'v config_type \<Rightarrow> 'v \<Rightarrow> bool" where
  "default_ok T v = (\<exists>good. config_type_contract T good \<and> good v)"

text \<open>What is registered stays registered, under its name and with its type, for ever.\<close>

definition registry_grows :: "'v system \<Rightarrow> 'v system \<Rightarrow> bool" where
  "registry_grows s t =
     (\<forall>k p. map_of (datas s) k = Some p \<longrightarrow> map_of (datas t) k = Some p \<and>
        cv_name (vars t p) = cv_name (vars s p) \<and> cv_type (vars t p) = cv_type (vars s p) \<and>
        cv_description (vars t p) = cv_description (vars s p))"

lemma registry_grows_refl [simp]: "registry_grows s s"
  by (simp add: registry_grows_def)

lemma registry_grows_trans: "registry_grows s t \<Longrightarrow> registry_grows t u \<Longrightarrow> registry_grows s u"
  by (fastforce simp: registry_grows_def)

lemma same_registry_grows: "same_registry s t \<Longrightarrow> registry_grows s t"
  by (simp add: registry_grows_def same_registry_simps)

lemma sys_from_step: "sys_inv s \<Longrightarrow> keeps (sys_from s) m \<Longrightarrow> sys_inv (snd (m s)) \<and> registry_grows s (snd (m s))"
  using keepsD [of "sys_from s" m s] by (auto simp: sys_from_def intro: same_registry_grows)

lemma new_var_inv:
  assumes s: "sys_inv s" and new: "map_of (datas s) name = None" "valid_name name" "default_ok T v"
  shows "sys_inv (s\<lparr>vars := (vars s)(next_var s := ConfigVar T name v d),
      next_var := Suc (next_var s), datas := omap_put name (next_var s) (datas s)\<rparr>)" (is "sys_inv ?t")
proof -
  have reg: "registry_ok s" using s by (simp add: sys_inv_def)
  have ok: "omap_ok (datas s)" and bound: "\<forall>e\<in>set (datas s). snd e < next_var s"
    and old: "\<forall>e\<in>set (datas s). snd e < Suc (next_var s) \<and> cv_name (vars ?t (snd e)) = fst e \<and> valid_name (fst e)"
    using reg by (auto simp: registry_ok_def)
  have "cv_name (vars ?t (next_var s)) = name"
    using new(2) by (simp add: ConfigVar_def valid_name_lower)
  with ball_omap_put [OF old, of name "next_var s"] new(2)
  have "\<forall>e\<in>set (datas ?t). snd e < next_var ?t \<and> cv_name (vars ?t (snd e)) = fst e \<and> valid_name (fst e)"
    by simp
  moreover have "distinct (map snd (omap_put name (next_var s) m))"
    if "distinct (map snd m)" "\<forall>e\<in>set m. snd e < next_var s" "map_of m name = None" for m :: "(string, var_ptr) omap"
    using that set_omap_put [of name "next_var s"]
    by (induction m) (fastforce simp: image_iff split: if_splits)+
  ultimately have "registry_ok ?t" using reg bound new(1) ok by (simp add: registry_ok_def)
  moreover have "var_safe (ConfigVar T name v d)"
    using new(3) by (auto simp: default_ok_def var_safe_def var_safe_for_def ConfigVar_def)
  ultimately show ?thesis using s by (simp add: sys_inv_def less_Suc_eq)
qed

lemma Lookup_inv:
  assumes s: "sys_inv s" and T: "default_ok T v"
  shows "sys_inv (snd (Lookup T name v d s)) \<and> registry_grows s (snd (Lookup T name v d s)) \<and>
    safe_result (fst (Lookup T name v d s))"
proof (cases "map_of (datas s) name")
  case None
  show ?thesis
  proof (cases "valid_name name")
    case True
    have reg: "registry_ok s" using s by (simp add: sys_inv_def)
    then have "omap_ok (datas s)" and "map_of (datas s) k \<noteq> Some (next_var s)" for k
      using registry_find [OF reg, of k "next_var s"] by (auto simp: registry_ok_def)
    with new_var_inv [OF s None True T, of d] None True show ?thesis
      by (auto simp: Lookup_def registry_grows_def valid_name_def)
  next
    case False
    have "keeps (sys_from s) (bind_comp (in_world (log_root ERROR ''sylar/config.h'' 448
        (''Lookup name invalid = '' @ name))) (\<lambda>_. throw (Std_Exception name :: error) :: (_, var_ptr option) comp))"
      by (intro safe_intros allI)
    from keepsD [OF this, of s] sys_from_step [OF s this] False None s show ?thesis
      by (simp add: Lookup_def valid_name_def sys_from_refl)
  qed
next
  case (Some p)
  then have p: "p < next_var s" using s registry_find by (auto simp: sys_inv_def)
  have found: "keeps (sys_from s) (bind_comp (in_world (log_root INFO ''sylar/config.h'' 434
      (''Lookup name ='' @ name @ '' exists''))) (\<lambda>_. return (Some p)))"
    by (intro safe_intros allI)
  have other: "keeps (sys_from s) (bind_comp (log_root_computed ERROR ''sylar/config.h'' 440
      (bind_comp (toString p) (\<lambda>t. return (''Lookup name ='' @ name @ '' exists but type not'' @
         ct_name T @ '' real type='' @ ct_name (cv_type (vars s p)) @ '' real value:'' @ t))))
      (\<lambda>_. return None :: (_, var_ptr option) comp))"
    by (intro keeps_bind log_root_computed_keeps [OF _ p] toString_sys safe_intros)
  show ?thesis
    using Some keepsD [OF found, of s] sys_from_step [OF s found] keepsD [OF other, of s]
      sys_from_step [OF s other] s
    by (simp add: Lookup_def sys_from_refl)
qed

text \<open>Changing the listeners of a variable.\<close>

lemma upd_cbs_inv:
  assumes s: "sys_inv s" and safe: "var_safe ((vars s p)\<lparr>cv_cbs := cbs\<rparr>)"
  shows "sys_inv (upd_var p (cv_cbs_update (\<lambda>_. cbs)) s) \<and>
    registry_grows s (upd_var p (cv_cbs_update (\<lambda>_. cbs)) s)"
  using assms by (auto simp: sys_inv_def registry_ok_def registry_grows_def)

lemma addListener_inv:
  assumes "sys_inv s" "var_safe_for good (vars s p)" "listener_ok (cv_type (vars s p)) good cb"
  shows "sys_inv (upd_var p (addListener key cb) s) \<and> registry_grows s (upd_var p (addListener key cb) s)"
proof -
  have "var_safe_for good ((vars s p)\<lparr>cv_cbs := omap_put key cb (cv_cbs (vars s p))\<rparr>)"
    using assms(2,3) set_omap_put [of key cb "cv_cbs (vars s p)"] by (auto simp: var_safe_for_def)
  then have "var_safe ((vars s p)\<lparr>cv_cbs := omap_put key cb (cv_cbs (vars s p))\<rparr>)"
    by (auto simp: var_safe_def)
  from upd_cbs_inv [OF assms(1) this] show ?thesis by (simp add: addListener_def)
qed

lemma fewer_cbs_safe:
  "var_safe x \<Longrightarrow> set cbs \<subseteq> set (cv_cbs x) \<Longrightarrow> var_safe (x\<lparr>cv_cbs := cbs\<rparr>)"
  unfolding var_safe_def var_safe_for_def by auto

lemma delListener_inv:
  assumes "sys_inv s" "p < next_var s"
  shows "sys_inv (upd_var p (delListener key) s) \<and> registry_grows s (upd_var p (delListener key) s)"
    and "sys_inv (upd_var p cleanListener s) \<and> registry_grows s (upd_var p cleanListener s)"
proof -
  have x: "var_safe (vars s p)" using assms by (simp add: sys_inv_def)
  have "set (omap_erase key (cv_cbs (vars s p))) \<subseteq> set (cv_cbs (vars s p))" by (auto simp: omap_erase_def)
  from upd_cbs_inv [OF assms(1) fewer_cbs_safe [OF x this]]
  show "sys_inv (upd_var p (delListener key) s) \<and> registry_grows s (upd_var p (delListener key) s)"
    by (simp add: delListener_def)
  from upd_cbs_inv [OF assms(1) fewer_cbs_safe [OF x, of "[]"]]
  show "sys_inv (upd_var p cleanListener s) \<and> registry_grows s (upd_var p cleanListener s)"
    by (simp add: cleanListener_def)
qed

inductive cfg_step :: "'v system \<Rightarrow> 'v system \<Rightarrow> bool" where
  look_up: "default_ok T v \<Longrightarrow> cfg_step s (snd (Lookup T name v d s))"
| set_value: "p < next_var s \<Longrightarrow> var_safe_for good (vars s p) \<Longrightarrow> good v \<Longrightarrow> cfg_step s (snd (setValue p v s))"
| from_string: "p < next_var s \<Longrightarrow> cfg_step s (snd (fromString p t s))"
| to_string: "p < next_var s \<Longrightarrow> cfg_step s (snd (toString p s))"
| add_listener: "p < next_var s \<Longrightarrow> var_safe_for good (vars s p) \<Longrightarrow>
    listener_ok (cv_type (vars s p)) good cb \<Longrightarrow> cfg_step s (upd_var p (addListener key cb) s)"
| del_listener: "p < next_var s \<Longrightarrow> cfg_step s (upd_var p (delListener key) s)"
| clean_listener: "p < next_var s \<Longrightarrow> cfg_step s (upd_var p cleanListener s)"
| load: "cfg_step s (snd (LoadFromYaml Y root s))"
| logging: "log_step (sys_world s) w \<Longrightarrow> cfg_step s (s\<lparr>sys_world := w\<rparr>)"

inductive cfg_reachable :: "'v system \<Rightarrow> bool" where
  start: "log_reachable (sys_world s) \<Longrightarrow> next_var s = 0 \<Longrightarrow> datas s = [] \<Longrightarrow> cfg_reachable s"
| step: "cfg_reachable s \<Longrightarrow> cfg_step s t \<Longrightarrow> cfg_reachable t"

lemma cfg_step_inv: "cfg_step s t \<Longrightarrow> sys_inv s \<Longrightarrow> sys_inv t \<and> registry_grows s t"
proof (induction rule: cfg_step.induct)
  case (look_up T v s name d)
  then show ?case by (simp add: Lookup_inv)
next
  case (set_value p s good v)
  then have "var_inv s p good s" by (simp add: var_inv_def)
  from keepsD [OF setValue_keeps [of good v s p] this] set_value(3) show ?case
    by (auto simp: var_inv_def intro: same_registry_grows)
next
  case (from_string p s t)
  then show ?case by (intro sys_from_step fromString_sys)
next
  case (to_string p s)
  then show ?case by (intro sys_from_step toString_sys)
next
  case (add_listener p s good cb key)
  then show ?case by (intro addListener_inv)
next
  case (logging s w)
  then show ?case using log_step_inv [OF logging(1)]
    by (simp add: sys_inv_def registry_ok_def registry_grows_def)
qed (simp_all add: delListener_inv sys_from_step LoadFromYaml_keeps)

lemma cfg_reachable_inv: "cfg_reachable s \<Longrightarrow> sys_inv s"
proof (induction rule: cfg_reachable.induct)
  case (start s)
  then show ?case using log_reachable_inv by (simp add: sys_inv_def registry_ok_def)
next
  case (step s t)
  then show ?case using cfg_step_inv by blast
qed

end
