(* ===== verification/Config_Properties.thy ===== *)
theory Config_Properties
  imports Config_Invariant Logger_Properties
begin

text \<open>
  The properties of the configuration: the registry, changing a value, and what loading a document
  does, against a pure description of the document's members.
\<close>

section \<open>Computations with one possible result\<close>

text \<open>
  \<open>m\<close> keeps \<open>P\<close> and gives \<open>r\<close>, unless a log line on its way has a date that the buffer cannot hold.
\<close>

definition yields :: "('s \<Rightarrow> bool) \<Rightarrow> ('s, 'a) comp \<Rightarrow> 'a \<Rightarrow> bool" where
  "yields P m r =
     (\<forall>s. P s \<longrightarrow> P (snd (m s)) \<and> fst (m s) \<in> {Inr r, Inl (Undefined Indeterminate_Value)})"

lemma yieldsD:
  "yields P m r \<Longrightarrow> P s \<Longrightarrow> P (snd (m s)) \<and> fst (m s) \<in> {Inr r, Inl (Undefined Indeterminate_Value)}"
  by (simp add: yields_def)

lemma yieldsI:
  "(\<And>s. P s \<Longrightarrow> P (snd (m s)) \<and> fst (m s) \<in> {Inr r, Inl (Undefined Indeterminate_Value)}) \<Longrightarrow> yields P m r"
  by (simp add: yields_def)

lemma yields_return: "yields P (return r) r"
  by (simp add: yields_def return_apply)

lemma yields_bind:
  assumes "yields P m x" "yields P (f x) r"
  shows "yields P (bind_comp m f) r"
proof (rule yieldsI)
  fix s
  assume s: "P s"
  obtain q t where m: "m s = (q, t)" by fastforce
  with yieldsD [OF assms(1) s] have "P t" "q = Inr x \<or> q = Inl (Undefined Indeterminate_Value)" by auto
  with m yieldsD [OF assms(2), of t]
  show "P (snd (bind_comp m f s)) \<and> fst (bind_comp m f s) \<in> {Inr r, Inl (Undefined Indeterminate_Value)}"
    by (auto simp: comp_simps)
qed

text \<open>Computations that never end by an exception: logging, and what catches all of them.\<close>

definition never_throws :: "('s, 'a) comp \<Rightarrow> bool" where
  "never_throws m = (\<forall>s w. fst (m s) \<noteq> Inl (Std_Exception w))"

lemma never_return: "never_throws (return x)"
  by (simp add: never_throws_def return_apply)

lemma never_bind:
  assumes "never_throws m" "\<And>x. never_throws (f x)"
  shows "never_throws (bind_comp m f)"
  unfolding never_throws_def
proof (intro allI)
  fix s w
  obtain r t where m: "m s = (r, t)" by fastforce
  with assms(1) have "r \<noteq> Inl (Std_Exception w)" by (metis fst_conv never_throws_def)
  with m assms(2) show "fst (bind_comp m f s) \<noteq> Inl (Std_Exception w)"
    by (cases r) (simp_all add: comp_simps never_throws_def)
qed

lemma never_for_each: "(\<And>x. never_throws (f x)) \<Longrightarrow> never_throws (for_each xs f)"
  by (induction xs) (auto intro: never_return never_bind)

lemma never_catch: "(\<And>e. never_throws (h e)) \<Longrightarrow> never_throws (catch_std m h)"
  by (auto simp: never_throws_def comp_simps split: sum.split prod.split error.split)

lemma never_in_world: "never_throws m \<Longrightarrow> never_throws (in_world m)"
  by (simp add: never_throws_def)

lemma appender_log_never: "never_throws (appender_log ap l lv ev)"
  unfolding never_throws_def
  by (auto simp: appender_log_def stdout_log_def file_log_def Let_def dest: lf_format_error
      split: appender_class.split option.split sum.split)

lemma Logger_log_never: "never_throws (Logger_log l lv ev)"
proof -
  have "fst (Logger_log_fuel n l lv ev w) \<noteq> Inl (Std_Exception e)" for n l w e
    using never_for_each [of "\<lambda>ap. appender_log ap l lv ev" for l] appender_log_never
    by (induction n arbitrary: l) (auto simp: never_throws_def throw_apply split: option.split)
  then show ?thesis by (simp add: never_throws_def Logger_log_def del: Logger_log_fuel.simps)
qed

lemma log_root_never: "never_throws (log_root lv file line msg)"
  using Logger_log_never
  by (auto simp: never_throws_def log_root_def SYLAR_LOG_LEVEL_def LogEventWrap_destroy_def split: prod.split)

lemma yields_unit:
  assumes "keeps P m" "never_throws m"
  shows "yields P m ()"
proof (rule yieldsI)
  fix s
  assume "P s"
  from keepsD [OF assms(1) this] have k: "P (snd (m s))" "safe_result (fst (m s))" by simp_all
  have "fst (m s) \<noteq> Inl (Std_Exception w)" for w using assms(2) by (simp add: never_throws_def)
  with k show "P (snd (m s)) \<and> fst (m s) \<in> {Inr (), Inl (Undefined Indeterminate_Value)}"
    by (auto simp: safe_result_def split: sum.splits error.splits)
qed

lemma yields_log_root: "yields (log_grown n) (log_root lv file line msg) ()"
  by (intro yields_unit safe_log_root log_root_never)

lemma yields_in_world:
  assumes "\<And>n. yields (log_grown n) m r" and "\<And>s. P s \<Longrightarrow> log_inv (sys_world s)"
    and "\<And>s w. P s \<Longrightarrow> log_grown (next_logger (sys_world s)) w \<Longrightarrow> P (s\<lparr>sys_world := w\<rparr>)"
  shows "yields P (in_world m) r"
proof (rule yieldsI)
  fix s
  assume s: "P s"
  then have "log_grown (next_logger (sys_world s)) (sys_world s)" using assms(2) by (simp add: log_grown_def)
  from yieldsD [OF assms(1) this] assms(3) [OF s]
  show "P (snd (in_world m s)) \<and> fst (in_world m s) \<in> {Inr r, Inl (Undefined Indeterminate_Value)}"
    by auto
qed

lemma sys_from_grown:
  "sys_from s0 s \<Longrightarrow> log_grown (next_logger (sys_world s)) w \<Longrightarrow> sys_from s0 (s\<lparr>sys_world := w\<rparr>)"
  by (auto simp: sys_from_def sys_inv_world log_grown_def intro: same_registry_trans [OF _ same_registry_world])

lemma sys_from_log: "sys_from s0 s \<Longrightarrow> log_inv (sys_world s)"
  by (simp add: sys_from_def sys_inv_def)

lemma var_inv_log: "var_inv s0 p good s \<Longrightarrow> log_inv (sys_world s)"
  by (simp add: var_inv_def sys_inv_def)

section \<open>The members of a document\<close>

text \<open>
  The specification of \<open>ListAllMember\<close>: a node, and below a map the members of its values, under
  the dotted path; nothing of a path with an invalid character.
\<close>

fun key_text :: "yaml \<Rightarrow> string" where
  "key_text (YScalar k) = k"
| "key_text _ = []"

function members :: "string \<Rightarrow> yaml \<Rightarrow> (string \<times> yaml) list" where
  "members prefix node =
     (if valid_name prefix then
        (prefix, node) #
        (case node of
           YMap ps \<Rightarrow> concat (map (\<lambda>p. members (child_path prefix (key_text (fst p))) (snd p)) ps)
         | _ \<Rightarrow> [])
      else [])"
  by pat_completeness auto

termination
proof (relation "measure (\<lambda>(prefix, node). size node)")
  show "((child_path prefix (key_text (fst p)), snd p), prefix, node) \<in> measure (\<lambda>(prefix, node). size node)"
    if "node = YMap ps" "p \<in> set ps" for prefix node ps p
    using that size_list_estimation [of p ps "size (snd p)" "\<lambda>x. Suc (size (fst x) + size (snd x))"]
    by (simp add: size_prod_simp)
qed simp

declare members.simps [simp del]

fun scalar_keys :: "yaml \<Rightarrow> bool" where
  "scalar_keys (YMap ps) = (\<forall>p\<in>set ps. (\<exists>k. fst p = YScalar k) \<and> scalar_keys (snd p))"
| "scalar_keys _ = True"

lemma ListAllMember_yields:
  shows "yaml_laws Y \<Longrightarrow> scalar_keys node \<Longrightarrow>
      yields (log_grown n) (ListAllMember Y prefix node out) (out @ members prefix node)"
    and "yaml_laws Y \<Longrightarrow> \<forall>p\<in>set ps. (\<exists>k. fst p = YScalar k) \<and> scalar_keys (snd p) \<Longrightarrow>
      yields (log_grown n) (ListAllMember_items Y prefix ps out)
        (out @ concat (map (\<lambda>p. members (child_path prefix (key_text (fst p))) (snd p)) ps))"
proof (induction Y prefix node out and Y prefix ps out rule: ListAllMember_ListAllMember_items.induct)
  case (1 Y prefix node out)
  show ?case
  proof (cases "valid_name prefix")
    case False
    then show ?thesis
      using yields_bind [OF yields_log_root yields_return]
      by (simp add: ListAllMember.simps members.simps [of prefix node] valid_name_def)
  next
    case True
    with 1 show ?thesis
      by (cases node) (simp_all add: ListAllMember.simps members.simps [of prefix] valid_name_def
          yields_return)
  qed
next
  case (2 Y prefix out)
  then show ?case by (simp add: yields_return)
next
  case (3 Y prefix p ps out)
  then obtain k where k: "fst p = YScalar k" by auto
  have "yields (log_grown n) (bind_comp (ListAllMember Y (child_path prefix k) (snd p) out)
      (ListAllMember_items Y prefix ps))
    ((out @ members (child_path prefix k) (snd p)) @
       concat (map (\<lambda>p. members (child_path prefix (key_text (fst p))) (snd p)) ps))"
    using 3 by (intro yields_bind [of _ _ "out @ members (child_path prefix k) (snd p)"]; simp del: append_assoc)
  with k 3(3) show ?case by (simp add: yaml_simps)
qed

lemma members_valid: "(k, n) \<in> set (members prefix node) \<Longrightarrow> valid_name k"
proof (induction prefix node rule: members.induct)
  case (1 prefix node)
  then show ?case by (cases node) (auto simp: members.simps [of prefix] split: if_splits)
qed

lemma members_valid_all: "\<forall>it\<in>set (members prefix node). valid_name (fst it)"
  using members_valid by auto

section \<open>Changing one variable\<close>

text \<open>A property of the state that a computation does not touch, however it ends.\<close>

definition untouched :: "('s \<Rightarrow> bool) \<Rightarrow> ('s, 'a) comp \<Rightarrow> bool" where
  "untouched P m = (\<forall>s. P s \<longrightarrow> P (snd (m s)))"

lemma untouched_bind: "untouched P m \<Longrightarrow> (\<And>x. untouched P (f x)) \<Longrightarrow> untouched P (bind_comp m f)"
  by (auto simp: untouched_def comp_simps split: sum.split prod.split)

lemma untouched_catch: "untouched P m \<Longrightarrow> (\<And>e. untouched P (h e)) \<Longrightarrow> untouched P (catch_std m h)"
  by (auto simp: untouched_def comp_simps split: sum.split prod.split error.split)

lemma untouched_return: "untouched P (return x)"
  by (simp add: untouched_def return_apply)

lemma untouched_in_world: "untouched (\<lambda>s. P (datas s) (vars s)) (in_world m)"
  by (simp add: untouched_def)

lemma untouched_lib_call: "untouched P (lib_call r)"
  by (cases r) (simp_all add: untouched_def comp_simps)

lemmas untouched_intros = untouched_bind untouched_catch untouched_return untouched_in_world

lemma setValue_other: "q \<noteq> p \<Longrightarrow> untouched (\<lambda>s. datas s = d \<and> vars s q = x) (setValue p v)"
  by (auto simp: untouched_def setValue_def comp_simps in_world_eq split: sum.split)

lemma fromString_other:
  assumes "q \<noteq> p"
  shows "untouched (\<lambda>s. datas s = d \<and> vars s q = (x :: 'v config_var)) (fromString p t)"
  unfolding untouched_def
proof (intro allI impI)
  fix s :: "'v system"
  assume s: "datas s = d \<and> vars s q = x"
  let ?T = "cv_type (vars s p)"
  have "untouched (\<lambda>s. datas s = d \<and> vars s q = x)
      (catch_std (bind_comp (in_world (ct_from ?T t)) (\<lambda>v. bind_comp (setValue p v) (\<lambda>_. return True)))
       (\<lambda>e. bind_comp (in_world (log_root ERROR ''sylar/config.h'' 356
                (''ConfigVar::fromString exception'' @ e @ '' Convert string to'' @ ct_name ?T)))
              (\<lambda>_. return False)))"
    using untouched_in_world [where P = "\<lambda>m f. m = d \<and> f q = x"] by (intro untouched_intros setValue_other [OF assms])
  with s show "datas (snd (fromString p t s)) = d \<and> vars (snd (fromString p t s)) q = x"
    by (simp add: untouched_def fromString_def Let_def)
qed

text \<open>\<open>fromString\<close> and \<open>toString\<close> catch every exception.\<close>

lemmas never_intros = never_bind never_catch never_return never_in_world log_root_never

lemma catch_log_never:
  "fst (catch_std m (\<lambda>e. bind_comp (in_world (log_root lv f l (g e))) (\<lambda>_. return x)) s) \<noteq> Inl (Std_Exception w)"
proof -
  have "never_throws (catch_std m (\<lambda>e. bind_comp (in_world (log_root lv f l (g e))) (\<lambda>_. return x)))"
    by (intro never_intros)
  then show ?thesis by (simp add: never_throws_def)
qed

lemma fromString_never: "never_throws (fromString p t)"
  unfolding never_throws_def fromString_def Let_def by (intro allI catch_log_never)

lemma toString_never: "never_throws (toString p)"
  unfolding never_throws_def toString_def Let_def by (intro allI catch_log_never)

text \<open>Listeners that never fail, and the assignment they are told of.\<close>

definition quiet_cbs :: "'v config_var \<Rightarrow> bool" where
  "quiet_cbs x = (\<forall>e\<in>set (cv_cbs x). \<exists>f. snd e = Some f \<and> (\<forall>a b w. fst (f a b w) = Inr ()))"

lemma quiet_run: "quiet_cbs x \<Longrightarrow> fst (run_cbs x v w) = Inr ()"
proof -
  assume quiet: "quiet_cbs x"
  have "\<exists>w'. run_cbs x v w = (Inr (), w') \<and> True"
    unfolding run_cbs_def
  proof (rule for_each_total)
    fix e w
    assume "e \<in> set (cv_cbs x)"
    with quiet obtain f where "snd e = Some f" "\<forall>a b w. fst (f a b w) = Inr ()"
      by (auto simp: quiet_cbs_def)
    then show "\<exists>w'. call_cb (snd e) (cv_val x) v w = (Inr (), w') \<and> True"
      by (metis call_cb.simps(2) prod.collapse)
  qed simp
  then show ?thesis by auto
qed

lemma fromString_assigns:
  assumes "ct_from (cv_type (vars s p)) t = return v" "quiet_cbs (vars s p)"
  shows "fst (fromString p t s) = Inr True \<and>
    cv_val (vars (snd (fromString p t s)) p) =
      (if ct_eq (cv_type (vars s p)) v (cv_val (vars s p)) then cv_val (vars s p) else v)"
  using assms quiet_run [OF assms(2), of v "sys_world s"]
  by (simp add: fromString_def Let_def comp_simps in_world_eq setValue_def split: sum.split prod.split)

section \<open>Loading the members\<close>

text \<open>The text of a node that \<open>fromString\<close> is given.\<close>

definition node_text :: "yaml_lib \<Rightarrow> yaml \<Rightarrow> string" where
  "node_text Y n = (case n of YScalar t \<Rightarrow> t | _ \<Rightarrow> y_emit Y n)"

lemma load_member_none:
  "fst it = [] \<or> LookupBase (map tolower (fst it)) s = None \<Longrightarrow> load_member Y it s = (Inr (), s)"
  by (auto simp: load_member_def)

lemma load_member_some:
  assumes "yaml_laws Y" "k \<noteq> []" "valid_name k" "map_of (datas s) k = Some p"
  shows "load_member Y (k, n) s = bind_comp (fromString p (node_text Y n)) (\<lambda>_. return ()) s"
  using assms by (cases n) (simp_all add: load_member_def LookupBase_def valid_name_lower node_text_def yaml_simps)

lemma sys_from_datas: "sys_from s0 s \<Longrightarrow> datas s = datas s0"
  by (simp add: sys_from_def same_registry_simps)

lemma load_member_yields:
  assumes laws: "yaml_laws Y" and k: "valid_name (fst it)"
  shows "yields (sys_from (s0 :: 'v system)) (load_member Y it) ()"
proof (rule yields_unit [OF load_member_keeps], unfold never_throws_def, intro allI)
  fix s :: "'v system" and w
  show "fst (load_member Y it s) \<noteq> Inl (Std_Exception w)"
  proof (cases "fst it = [] \<or> LookupBase (map tolower (fst it)) s = None")
    case True
    then show ?thesis by (simp add: load_member_none)
  next
    case False
    then obtain p where p: "map_of (datas s) (fst it) = Some p"
      using k by (auto simp: LookupBase_def valid_name_lower)
    have "never_throws (bind_comp (fromString p (node_text Y (snd it))) (\<lambda>_. return ()) :: ('v system, unit) comp)"
      by (intro never_bind fromString_never never_return)
    with False load_member_some [OF laws _ k p, of "snd it"] show ?thesis
      by (simp add: never_throws_def)
  qed
qed

lemma load_member_other:
  assumes reg: "registry_ok s0" and p: "map_of (datas s0) k = Some p" and it: "fst it \<noteq> k" "valid_name (fst it)"
  shows "untouched (\<lambda>s. datas s = datas s0 \<and> vars s p = (x :: 'v config_var)) (load_member Y it)"
  unfolding untouched_def
proof (intro allI impI)
  fix s :: "'v system"
  assume s: "datas s = datas s0 \<and> vars s p = x"
  show "datas (snd (load_member Y it s)) = datas s0 \<and> vars (snd (load_member Y it s)) p = x"
  proof (cases "fst it = [] \<or> LookupBase (map tolower (fst it)) s = None")
    case True
    with s show ?thesis by (simp add: load_member_none)
  next
    case False
    then obtain q where q: "map_of (datas s0) (fst it) = Some q"
      using it(2) s by (auto simp: LookupBase_def valid_name_lower)
    then have "p \<noteq> q" using registry_inj [OF reg p] it(1) by auto
    then have "untouched (\<lambda>s. datas s = datas s0 \<and> vars s p = x)
        (bind_comp (if IsScalar (snd it) then lib_call (y_scalar Y (snd it)) else return (y_emit Y (snd it)))
          (\<lambda>t. bind_comp (fromString q t) (\<lambda>_. return ())))"
      by (intro untouched_bind fromString_other untouched_return) (simp_all add: untouched_lib_call untouched_return)
    with False q it(2) s show ?thesis
      by (simp add: untouched_def load_member_def LookupBase_def valid_name_lower)
  qed
qed

lemma yields_for_each:
  "(\<And>x. x \<in> set xs \<Longrightarrow> yields P (f x) ()) \<Longrightarrow> yields P (for_each xs f) ()"
  by (induction xs) (auto intro: yields_return yields_bind)

lemma untouched_for_each:
  "(\<And>x. x \<in> set xs \<Longrightarrow> untouched P (f x)) \<Longrightarrow> untouched P (for_each xs f)"
  by (induction xs) (auto intro: untouched_intros)

lemma ListAllMember_in_world:
  assumes "yaml_laws Y" "scalar_keys doc"
  shows "yields (sys_from s0) (in_world (ListAllMember Y [] doc [])) (members [] doc)"
  using ListAllMember_yields(1) [OF assms, of _ "[]" "[]"]
  by (intro yields_in_world) (auto intro: sys_from_log sys_from_grown)

lemma load_members_yields:
  assumes "yaml_laws Y" "\<forall>it\<in>set its. valid_name (fst it)"
  shows "yields (sys_from s0) (for_each its (load_member Y)) ()"
  using assms by (intro yields_for_each load_member_yields) auto

lemma LoadFromYaml_yields:
  assumes "yaml_laws Y" "scalar_keys doc"
  shows "yields (sys_from s0) (LoadFromYaml Y doc) ()"
  unfolding LoadFromYaml_def
  using members_valid [of _ _ "[]" doc] assms
  by (intro yields_bind [OF ListAllMember_in_world] load_members_yields) auto

text \<open>
  One member that assigns: before it the members \<open>xs\<close>, after it members \<open>ys\<close> with other paths.
\<close>

lemma load_members_assign:
  assumes laws: "yaml_laws Y" and s: "sys_inv s"
    and valid: "\<forall>it\<in>set (xs @ (k, n) # ys). valid_name (fst it)" and k: "k \<noteq> []" "k \<notin> fst ` set ys"
    and p: "map_of (datas s) k = Some p"
    and cast: "ct_from (cv_type (vars s p)) (node_text Y n) = return v"
    and eq: "\<forall>a b. ct_eq (cv_type (vars s p)) a b = (a = b)" and quiet: "quiet_cbs (vars s p)"
    and ends: "for_each (xs @ (k, n) # ys) (load_member Y) s = (Inr (), t)"
  shows "cv_val (vars t p) = v"
proof -
  from ends obtain s1 where s1: "for_each xs (load_member Y) s = (Inr (), s1)"
    and rest: "for_each ((k, n) # ys) (load_member Y) s1 = (Inr (), t)"
    unfolding for_each_append by (auto simp: bind_comp_apply split: sum.splits prod.splits)
  have from1: "sys_from s s1"
    using yieldsD [OF load_members_yields [OF laws], of xs s s] valid s s1 by (simp add: sys_from_refl)
  then have same: "same_registry s s1" "datas s1 = datas s" by (auto simp: sys_from_def same_registry_simps)
  have x1: "cv_type (vars s1 p) = cv_type (vars s p)" "quiet_cbs (vars s1 p)"
    using quiet same_registry_simps [OF same(1)] by (simp_all add: quiet_cbs_def)
  obtain s2 where s2: "load_member Y (k, n) s1 = (Inr (), s2)"
    and ys: "for_each ys (load_member Y) s2 = (Inr (), t)"
    using rest by (auto simp: bind_comp_apply split: sum.splits prod.splits)
  have "load_member Y (k, n) s1 = bind_comp (fromString p (node_text Y n)) (\<lambda>_. return ()) s1"
    using valid p same(2) by (intro load_member_some [OF laws k(1)]) simp_all
  moreover have "cv_val (vars (snd (fromString p (node_text Y n) s1)) p) = v"
    "fst (fromString p (node_text Y n) s1) = Inr True"
    using fromString_assigns [of s1 p "node_text Y n" v] cast eq x1 by auto
  ultimately have val: "cv_val (vars s2 p) = v"
    using s2 by (auto simp: comp_simps split: prod.splits)
  have "sys_from s s2"
    using keepsD [OF load_member_keeps from1, of Y "(k, n)"] s2 by simp
  then have "datas s2 = datas s" by (rule sys_from_datas)
  moreover have "untouched (\<lambda>u. datas u = datas s \<and> vars u p = vars s2 p) (for_each ys (load_member Y))"
    using s k(2) valid by (intro untouched_for_each load_member_other [OF _ p]) (force simp: sys_inv_def)+
  ultimately show ?thesis using ys val by (auto simp: untouched_def)
qed

section \<open>A concrete system\<close>

text \<open>Variables of type \<open>std::string\<close>, whose casts are the identity, and one of them.\<close>

definition string_type :: "string config_type" where
  "string_type = base_type ''std::string'' Inr Inr (=)"

definition start_system :: "string system" where
  "start_system = \<lparr>sys_world = start_world, vars = (\<lambda>_. ConfigVar string_type [] [] []),
     next_var = 0, datas = []\<rparr>"

definition port_system :: "string system" where
  "port_system = snd (Lookup string_type ''system.port'' ''8080'' ''port'' start_system)"

definition port_doc :: "string \<Rightarrow> string \<Rightarrow> yaml" where
  "port_doc k v = YMap [(YScalar ''system'', YMap [(YScalar k, YScalar v)])]"

lemma start_system_reachable: "cfg_reachable start_system"
  by (rule cfg_reachable.start) (simp_all add: start_system_def start_world_reachable)

lemma string_default: "default_ok string_type v"
  unfolding default_ok_def string_type_def
  by (rule exI [of _ "\<lambda>_. True"]) (simp add: base_type.config_type_contract_axioms)

lemma port_system_reachable: "cfg_reachable port_system"
  unfolding port_system_def
  by (rule cfg_reachable.step [OF start_system_reachable cfg_step.look_up [OF string_default]])

lemma valid_port: "valid_name ''system.port''" "valid_name ''system''" "valid_name []"
  by (simp_all add: valid_name_def has_char_not_of_def config_chars_def)

lemma port_system_simps [simp]:
  "datas port_system = [(''system.port'', 0)]" "next_var port_system = 1"
  "vars port_system 0 = ConfigVar string_type ''system.port'' ''8080'' ''port''"
  "sys_world port_system = start_world"
  using valid_port(1) by (simp_all add: port_system_def start_system_def Lookup_def valid_name_def)

section \<open>The registry\<close>

text \<open>
  C22. In every state the public operations reach, the registry holds each variable under its own
  name, which is lower case and of the permitted characters, and no two names share a variable;
  and no operation ever removes, renames or replaces a variable or changes its type: a pointer
  \<open>Lookup\<close> has returned stays the one \<open>Lookup\<close> returns.
\<close>

theorem registry_stable:
  assumes "cfg_reachable s" and "cfg_step s t"
  shows "registry_ok t \<and> log_inv (sys_world t) \<and> registry_grows s t \<and>
    (\<forall>T k p. Lookup_find T k s = Some p \<longrightarrow> Lookup_find T k t = Some p \<and> getName p t = k \<and> map tolower k = k)"
proof -
  have inv: "sys_inv t" "registry_grows s t"
    using cfg_step_inv [OF assms(2) cfg_reachable_inv [OF assms(1)]] by simp_all
  then have reg: "registry_ok t" by (simp add: sys_inv_def)
  have "Lookup_find T k t = Some p \<and> getName p t = k \<and> map tolower k = k"
    if "Lookup_find T k s = Some p" for T k p
  proof -
    have "map_of (datas s) k = Some p" "ct_name (cv_type (vars s p)) = ct_name T"
      using that by (auto simp: Lookup_find_def split: option.splits if_splits)
    then have t: "map_of (datas t) k = Some p" "ct_name (cv_type (vars t p)) = ct_name T"
      using inv(2) by (auto simp: registry_grows_def)
    with registry_find [OF reg t(1)] show ?thesis
      by (simp add: Lookup_find_def getName_def valid_name_lower)
  qed
  with inv reg show ?thesis by (simp add: sys_inv_def)
qed

theorem registry_stable_witness:
  "registry_ok (snd (LoadFromYaml codec_yaml (port_doc ''port'' ''9900'') port_system)) \<and>
   Lookup_find string_type ''system.port''
     (snd (LoadFromYaml codec_yaml (port_doc ''port'' ''9900'') port_system)) = Some 0"
proof -
  have "Lookup_find string_type ''system.port'' port_system = Some 0"
    by (simp add: Lookup_find_def ConfigVar_def)
  with registry_stable [OF port_system_reachable cfg_step.load] show ?thesis by blast
qed

lemma toString_untouched: "untouched (\<lambda>s. P (datas s) (vars s)) (toString p :: ('v system, string) comp)"
  unfolding untouched_def
proof (intro allI impI)
  fix s :: "'v system"
  let ?T = "cv_type (vars s p)"
  assume "P (datas s) (vars s)"
  moreover have "untouched (\<lambda>s. P (datas s) (vars s)) (catch_std (in_world (ct_to ?T (cv_val (vars s p))))
      (\<lambda>e. bind_comp (in_world (log_root ERROR ''sylar/config.h'' 341
                (''ConfigVar::toString exception'' @ e @ '' Convert '' @ ct_name ?T @ '' to String'')))
              (\<lambda>_. return [])))"
    by (intro untouched_intros)
  ultimately show "P (datas (snd (toString p s))) (vars (snd (toString p s)))"
    by (simp add: untouched_def toString_def Let_def)
qed

lemma log_root_computed_untouched:
  assumes "untouched (\<lambda>s. P (datas s) (vars s)) m"
  shows "untouched (\<lambda>s. P (datas s) (vars s)) (log_root_computed lv file line m)"
proof -
  have "untouched (\<lambda>s. P (datas s) (vars s)) (bind_comp m (\<lambda>t. in_world (\<lambda>w.
      LogEventWrap_destroy (stream_into t (macro_event r lv file line w)) w)))" for r
    by (intro untouched_intros assms)
  then show ?thesis by (auto simp: untouched_def log_root_computed_def split: prod.split)
qed

lemma log_root_computed_never:
  assumes "never_throws m"
  shows "never_throws (log_root_computed lv file line m)"
proof -
  have "never_throws (\<lambda>w. LogEventWrap_destroy (stream_into t (macro_event r lv file line w)) w)" for r t
    using Logger_log_never by (simp add: never_throws_def LogEventWrap_destroy_def)
  then have "never_throws (bind_comp m (\<lambda>t. in_world (\<lambda>w.
      LogEventWrap_destroy (stream_into t (macro_event r lv file line w)) w)))" for r
    by (intro never_bind never_in_world assms)
  then show ?thesis by (auto simp: never_throws_def log_root_computed_def split: prod.split)
qed

lemma Lookup_existing:
  assumes s: "sys_inv (s :: 'v system)" and p: "map_of (datas s) name = Some p"
  shows "vars (snd (Lookup T name v d s)) = vars s \<and> datas (snd (Lookup T name v d s)) = datas s \<and>
    fst (Lookup T name v d s) \<in>
      {Inr (if ct_name (cv_type (vars s p)) = ct_name T then Some p else None), Inl (Undefined Indeterminate_Value)}"
proof -
  define found :: "('v system, var_ptr option) comp" where "found =
    bind_comp (in_world (log_root INFO ''sylar/config.h'' 434 (''Lookup name ='' @ name @ '' exists'')))
      (\<lambda>_. return (Some p))"
  define msg :: "('v system, string) comp" where "msg =
    bind_comp (toString p) (\<lambda>t. return (''Lookup name ='' @ name @ '' exists but type not'' @
      ct_name T @ '' real type='' @ ct_name (cv_type (vars s p)) @ '' real value:'' @ t))"
  define other :: "('v system, var_ptr option) comp" where "other =
    bind_comp (log_root_computed ERROR ''sylar/config.h'' 440 msg) (\<lambda>_. return None)"
  have same: "Lookup T name v d s = (if ct_name (cv_type (vars s p)) = ct_name T then found s else other s)"
    using p by (simp add: Lookup_def found_def other_def msg_def del: append.simps)
  have np: "p < next_var s" using s p registry_find by (auto simp: sys_inv_def)
  have "untouched (\<lambda>t. datas t = datas s \<and> vars t = vars s) found"
    using untouched_in_world [where P = "\<lambda>m f. m = datas s \<and> f = vars s"]
    unfolding found_def by (intro untouched_intros)
  moreover have "untouched (\<lambda>t. datas t = datas s \<and> vars t = vars s) other"
    unfolding other_def msg_def
    by (intro untouched_bind untouched_return
        log_root_computed_untouched [where P = "\<lambda>m f. m = datas s \<and> f = vars s"]
        toString_untouched [where P = "\<lambda>m f. m = datas s \<and> f = vars s"])
  moreover have "yields (sys_from s) found (Some p)"
    unfolding found_def
    by (intro yields_bind [OF yields_in_world [OF yields_log_root] yields_return] sys_from_log sys_from_grown)
  moreover have "yields (sys_from s) other None"
    unfolding other_def
  proof (rule yields_bind [OF yields_unit yields_return])
    show "keeps (sys_from s) (log_root_computed ERROR ''sylar/config.h'' 440 msg)"
      unfolding msg_def by (intro log_root_computed_keeps [OF _ np] keeps_bind toString_sys keeps_return)
    show "never_throws (log_root_computed ERROR ''sylar/config.h'' 440 msg)"
      unfolding msg_def by (intro log_root_computed_never never_bind toString_never never_return)
  qed
  ultimately show ?thesis
    using s yieldsD [of "sys_from s" found "Some p" s] yieldsD [of "sys_from s" other None s]
    by (simp add: same untouched_def sys_from_refl)
qed

text \<open>
  C28. \<open>Lookup\<close> with a default finds or creates: a new valid name gets a variable with the default
  value, a second lookup with the same type returns the same variable and ignores its default, a
  lookup with another type returns null, and a new invalid name throws; the last three change no
  variable. (A log line whose date does not fit its buffer is the only other outcome.)
\<close>

theorem Lookup_find_or_create:
  assumes "cfg_reachable s" and "map_of (datas s) name = None" and "default_ok T v"
  shows "if valid_name name then
      (\<exists>p t. Lookup T name v d s = (Inr (Some p), t) \<and> getValue p t = v \<and> getDescription p t = d \<and>
         (\<forall>k. k \<noteq> name \<longrightarrow> map_of (datas t) k = map_of (datas s) k) \<and>
         (\<forall>T' v' d' r u. Lookup T' name v' d' t = (r, u) \<longrightarrow> vars u = vars t \<and> datas u = datas t \<and>
            r \<in> {Inr (if ct_name T' = ct_name T then Some p else None), Inl (Undefined Indeterminate_Value)}))
    else (\<exists>r t. Lookup T name v d s = (r, t) \<and> vars t = vars s \<and> datas t = datas s \<and>
         r \<in> {Inl (Std_Exception name), Inl (Undefined Indeterminate_Value)})"
proof (cases "valid_name name")
  case True
  have inv: "sys_inv s" by (rule cfg_reachable_inv [OF assms(1)])
  then have ok: "omap_ok (datas s)" by (simp add: sys_inv_def registry_ok_def)
  let ?t = "snd (Lookup T name v d s)" and ?p = "next_var s"
  have create: "Lookup T name v d s = (Inr (Some ?p), ?t)" "vars ?t ?p = ConfigVar T name v d"
    "datas ?t = omap_put name ?p (datas s)"
    using True assms(2) by (simp_all add: Lookup_def valid_name_def)
  have p: "map_of (datas ?t) name = Some ?p" using create(3) ok by simp
  have "sys_inv ?t" using Lookup_inv [OF inv assms(3)] by simp
  have again: "vars u = vars ?t \<and> datas u = datas ?t \<and>
      r \<in> {Inr (if ct_name T' = ct_name T then Some ?p else None), Inl (Undefined Indeterminate_Value)}"
    if "Lookup T' name v' d' ?t = (r, u)" for T' v' d' r u
    using Lookup_existing [OF \<open>sys_inv ?t\<close> p, of T' v' d'] that create(2) by (simp add: ConfigVar_def eq_commute)
  show ?thesis
    unfolding if_P [OF True]
  proof (intro exI [of _ ?p] exI [of _ ?t] conjI allI impI)
    show "Lookup T name v d s = (Inr (Some ?p), ?t)" by (rule create(1))
    show "map_of (datas ?t) k = map_of (datas s) k" if "k \<noteq> name" for k using that create(3) ok by simp
  qed (use create(2) again in \<open>simp_all add: getValue_def getDescription_def ConfigVar_def\<close>)
next
  case False
  have inv: "sys_inv s" by (rule cfg_reachable_inv [OF assms(1)])
  then have "log_grown 0 (sys_world s)" by (simp add: sys_inv_def log_grown_def)
  define m where "m = log_root ERROR ''sylar/config.h'' 448 (''Lookup name invalid = '' @ name)"
  have m: "fst (m (sys_world s)) \<in> {Inr (), Inl (Undefined Indeterminate_Value)}"
    unfolding m_def using yieldsD [OF yields_log_root \<open>log_grown 0 (sys_world s)\<close>] by blast
  have "Lookup T name v d s = bind_comp (in_world m) (\<lambda>_. throw (Std_Exception name)) s"
    using False assms(2) by (simp add: Lookup_def valid_name_def m_def del: append.simps)
  with m False show ?thesis by (auto simp: comp_simps in_world_eq)
qed

theorem Lookup_find_or_create_witness:
  "(\<exists>t. Lookup string_type ''log.file'' ''x'' [] port_system = (Inr (Some 1), t) \<and>
      getValue 1 t = ''x'' \<and> map_of (datas t) ''system.port'' = Some 0) \<and>
   (\<exists>r t. Lookup string_type ''A'' ''x'' [] port_system = (r, t) \<and> datas t = [(''system.port'', 0)] \<and>
      r \<in> {Inl (Std_Exception ''A''), Inl (Undefined Indeterminate_Value)})"
proof -
  have valid: "valid_name ''log.file''" "\<not> valid_name ''A''"
    by (simp_all add: valid_name_def has_char_not_of_def config_chars_def)
  from Lookup_find_or_create [OF port_system_reachable _ string_default, of "''log.file''" "''x''" "[]"] valid(1)
  obtain p t where "Lookup string_type ''log.file'' ''x'' [] port_system = (Inr (Some p), t)"
    "getValue p t = ''x''" "map_of (datas t) ''system.port'' = Some 0" by auto
  moreover have "fst (Lookup string_type ''log.file'' ''x'' [] port_system) = Inr (Some 1)"
    using valid(1) by (simp add: Lookup_def valid_name_def)
  moreover from Lookup_find_or_create [OF port_system_reachable _ string_default, of "''A''" "''x''" "[]"] valid(2)
  have "\<exists>r t. Lookup string_type ''A'' ''x'' [] port_system = (r, t) \<and> datas t = [(''system.port'', 0)] \<and>
      r \<in> {Inl (Std_Exception ''A''), Inl (Undefined Indeterminate_Value)}" by auto
  ultimately show ?thesis by auto
qed

section \<open>Values and listeners\<close>

text \<open>
  C31. Changing a value calls the listeners in the order of their keys with the old and the new
  value, before the value is stored. When one of them throws, those after it are not called, what
  those before it did stays done, and the variable keeps its old value; \<open>fromString\<close> then
  answers false.
\<close>

theorem failing_listener:
  assumes "cv_cbs (vars s p) = before @ (key, cb) # after"
    and "for_each before (\<lambda>i. call_cb (snd i) (cv_val (vars s p)) v) (sys_world s) = (Inr (), w1)"
    and "call_cb cb (cv_val (vars s p)) v w1 = (Inl (Std_Exception e), w2)"
    and "\<not> ct_eq (cv_type (vars s p)) v (cv_val (vars s p))"
    and "ct_from (cv_type (vars s p)) t = return v" and "log_inv w2"
  shows "setValue p v s = (Inl (Std_Exception e), s\<lparr>sys_world := w2\<rparr>) \<and>
    vars (snd (fromString p t s)) = vars s \<and>
    fst (fromString p t s) \<in> {Inr False, Inl (Undefined Indeterminate_Value)}"
proof -
  have run: "run_cbs (vars s p) v (sys_world s) = (Inl (Std_Exception e), w2)"
    unfolding run_cbs_def assms(1) for_each_append using assms(2,3) by (simp add: comp_simps)
  have set: "setValue p v s = (Inl (Std_Exception e), s\<lparr>sys_world := w2\<rparr>)"
    using assms(4) run by (simp add: setValue_def comp_simps in_world_eq)
  define m where "m = log_root ERROR ''sylar/config.h'' 356
    (''ConfigVar::fromString exception'' @ e @ '' Convert string to'' @ ct_name (cv_type (vars s p)))"
  have "log_grown 0 w2" using assms(6) by (simp add: log_grown_def)
  then have m: "fst (m w2) \<in> {Inr (), Inl (Undefined Indeterminate_Value)}"
    unfolding m_def using yieldsD [OF yields_log_root] by blast
  have body: "bind_comp (in_world (ct_from (cv_type (vars s p)) t))
      (\<lambda>v. bind_comp (setValue p v) (\<lambda>_. return True)) s = (Inl (Std_Exception e), s\<lparr>sys_world := w2\<rparr>)"
    using set assms(5) by (simp add: comp_simps in_world_eq)
  then have "fromString p t s = bind_comp (in_world m) (\<lambda>_. return False) (s\<lparr>sys_world := w2\<rparr>)"
    by (simp add: fromString_def Let_def catch_std_apply m_def del: append.simps)
  with set m show ?thesis by (auto simp: comp_simps in_world_eq)
qed

theorem failing_listener_witness:
  "setValue 0 ''9900'' (upd_var 0 (addListener 7 None) port_system) =
    (Inl (Std_Exception ''bad_function_call''), upd_var 0 (addListener 7 None) port_system)"
proof -
  let ?s = "upd_var 0 (addListener 7 None) port_system"
  have world: "log_inv start_world" by (rule log_reachable_inv [OF start_world_reachable])
  have "cv_cbs (vars ?s 0) = [] @ (7, None) # []"
    by (simp add: addListener_def ConfigVar_def)
  moreover have "?s\<lparr>sys_world := start_world\<rparr> = ?s" by (simp add: system.equality)
  ultimately show ?thesis
    using failing_listener [of ?s 0 "[]" 7 None "[]" "''9900''" start_world "''bad_function_call''" start_world "''9900''"]
      world by (simp add: comp_simps addListener_def ConfigVar_def string_type_def base_type_def
        base_cast_def)
qed

text \<open>
  \<open>fromString\<close> never lets an exception out, answers true exactly when the text converts and
  every listener returns, and in no case changes another variable or anything but the value of
  this one.
\<close>

lemma fromString_outcome:
  assumes "cfg_reachable s" and "p < next_var s" and "fromString p t s = (r, u)"
  shows "(r = Inl (Undefined Indeterminate_Value) \<or> r = Inr True \<or> r = Inr False) \<and>
    same_registry s u \<and> (\<forall>q. q \<noteq> p \<longrightarrow> vars u q = vars s q) \<and> cfg_reachable u"
proof -
  have inv: "sys_inv s" by (rule cfg_reachable_inv [OF assms(1)])
  have "sys_from s u" and "safe_result r"
    using keepsD [OF fromString_sys [OF assms(2)], of s t] inv assms(3) by (simp_all add: sys_from_refl)
  moreover have "r \<noteq> Inl (Std_Exception w)" for w
    using fromString_never [of p t] assms(3) by (metis fst_conv never_throws_def)
  moreover have "vars u q = vars s q" if "q \<noteq> p" for q
    using fromString_other [OF that, of "datas s" "vars s q" t] assms(3) by (auto simp: untouched_def)
  moreover have "cfg_reachable u"
    using cfg_reachable.step [OF assms(1) cfg_step.from_string [OF assms(2), of t]] assms(3) by simp
  ultimately show ?thesis by (auto simp: sys_from_def safe_result_def split: sum.splits error.splits)
qed

section \<open>Documents\<close>

text \<open>
  C30. \<open>ListAllMember\<close> implements its specification: it lists exactly the members of the document,
  in document order, each map before its values, and drops a path with an invalid character
  together with everything below it.
\<close>

theorem ListAllMember_members:
  assumes "yaml_laws Y" and "scalar_keys node" and "log_inv w"
  shows "fst (ListAllMember Y prefix node out w) \<in>
      {Inr (out @ members prefix node), Inl (Undefined Indeterminate_Value)} \<and>
    (\<forall>it\<in>set (members prefix node). map tolower (fst it) = fst it)"
proof -
  have "log_grown 0 w" using assms(3) by (simp add: log_grown_def)
  from yieldsD [OF ListAllMember_yields(1) [OF assms(1,2)] this]
  show ?thesis using members_valid [of _ _ prefix node] by (auto simp: valid_name_lower)
qed

lemma port_members:
  "members [] (port_doc ''port'' v) =
    [([], port_doc ''port'' v), (''system'', YMap [(YScalar ''port'', YScalar v)]), (''system.port'', YScalar v)]"
  by (simp add: port_doc_def members.simps [of "[]"] members.simps [of "''system''"]
      members.simps [of "''system.port''"] child_path_def valid_port)

lemma port_scalar_keys: "scalar_keys (port_doc k v)"
  by (simp add: port_doc_def)

lemma port_list:
  "ListAllMember codec_yaml [] (port_doc ''port'' v) [] = return
     [([], port_doc ''port'' v), (''system'', YMap [(YScalar ''port'', YScalar v)]), (''system.port'', YScalar v)]"
proof -
  have "\<not> has_char_not_of [] config_chars" "\<not> has_char_not_of ''system'' config_chars"
    "\<not> has_char_not_of ''system.port'' config_chars"
    using valid_port by (simp_all add: valid_name_def)
  then show ?thesis
    by (simp add: port_doc_def ListAllMember.simps child_path_def yaml_simps codec_yaml_laws)
qed

theorem ListAllMember_members_witness:
  "fst (ListAllMember codec_yaml [] (port_doc ''port'' ''9900'') [] start_world) =
    Inr [([], port_doc ''port'' ''9900''), (''system'', YMap [(YScalar ''port'', YScalar ''9900'')]),
         (''system.port'', YScalar ''9900'')]"
proof -
  have "fst (ListAllMember codec_yaml [] (port_doc ''port'' ''9900'') [] start_world) \<noteq>
      Inl (Undefined Indeterminate_Value)"
    by (simp add: port_list return_apply)
  then show ?thesis
    using ListAllMember_members [OF codec_yaml_laws port_scalar_keys
        log_reachable_inv [OF start_world_reachable], of "[]" "''port''" "''9900''" "[]"]
    by (simp add: port_members)
qed

text \<open>
  C7. Loading a document gives a variable the value of the last member under its name: the member's
  scalar text, or the text the emitter writes, converted by the variable's cast. Its listeners are
  assumed not to fail. Other members, even those that do not convert, make no difference.
\<close>

theorem load_assigns:
  assumes "yaml_laws Y" and "cfg_reachable s" and "scalar_keys doc"
    and "members [] doc = xs @ (k, n) # ys" and "k \<noteq> []" and "k \<notin> fst ` set ys"
    and "map_of (datas s) k = Some p" and "quiet_cbs (vars s p)"
    and "ct_from (cv_type (vars s p)) (node_text Y n) = return v"
    and "\<forall>a b. ct_eq (cv_type (vars s p)) a b = (a = b)"
  shows "fst (LoadFromYaml Y doc s) = Inl (Undefined Indeterminate_Value) \<or>
    fst (LoadFromYaml Y doc s) = Inr () \<and> getValue p (snd (LoadFromYaml Y doc s)) = v"
proof -
  have inv: "sys_inv s" by (rule cfg_reachable_inv [OF assms(2)])
  have valid: "\<forall>it\<in>set (xs @ (k, n) # ys). valid_name (fst it)"
    using members_valid_all [of "[]" doc] assms(4) by simp
  obtain q u where list: "in_world (ListAllMember Y [] doc []) s = (q, u)" by fastforce
  have u: "u = s\<lparr>sys_world := sys_world u\<rparr>" using list by (auto simp: in_world_eq)
  have q: "sys_from s u" "q \<in> {Inr (members [] doc), Inl (Undefined Indeterminate_Value)}"
    using yieldsD [OF ListAllMember_in_world [OF assms(1,3), of s], of s] inv list by (auto simp: sys_from_refl)
  obtain r t where all: "for_each (members [] doc) (load_member Y) u = (r, t)" by fastforce
  have "r \<in> {Inr (), Inl (Undefined Indeterminate_Value)}"
    using yieldsD [OF load_members_yields [OF assms(1)] q(1), of "members [] doc"] valid all assms(4) by simp
  moreover have "cv_val (vars t p) = v" if "r = Inr ()"
  proof -
    have "vars u = vars s" "datas u = datas s" by (subst u, simp)+
    then show ?thesis
      using assms(4-10) all that q(1)
      by (intro load_members_assign [OF assms(1) _ valid]) (simp_all add: sys_from_def)
  qed
  ultimately show ?thesis
    using list all q(2) by (auto simp: LoadFromYaml_def comp_simps getValue_def)
qed

theorem load_assigns_witness:
  "fst (LoadFromYaml codec_yaml (port_doc ''port'' ''9900'') port_system) = Inr () \<and>
   getValue 0 (snd (LoadFromYaml codec_yaml (port_doc ''port'' ''9900'') port_system)) = ''9900''"
proof -
  have "fst (LoadFromYaml codec_yaml (port_doc ''port'' ''9900'') port_system) \<noteq> Inl (Undefined Indeterminate_Value)"
    using valid_port
    by (simp add: LoadFromYaml_def port_list comp_simps in_world_eq load_member_def LookupBase_def
        valid_name_lower codec_yaml_laws yaml_simps fromString_def setValue_def run_cbs_def ConfigVar_def
        string_type_def base_type_def base_cast_def)
  then show ?thesis
    using load_assigns [OF codec_yaml_laws port_system_reachable port_scalar_keys, of "''port''" "''9900''"
        "[([], port_doc ''port'' ''9900''), (''system'', YMap [(YScalar ''port'', YScalar ''9900'')])]"
        "''system.port''" "YScalar ''9900''" "[]" 0 "''9900''"]
    by (simp add: port_members quiet_cbs_def ConfigVar_def string_type_def base_type_def base_cast_def
        node_text_def)
qed

text \<open>
  A variable whose name is not a member of the document is untouched by loading, whatever else
  happens. Member names are case sensitive: a key with an upper case letter is dropped, although
  the registry lowers names and the loader lowers every key before the lookup.
\<close>

lemma load_ignores:
  assumes "yaml_laws Y" and "cfg_reachable s" and "scalar_keys doc"
    and "k \<notin> fst ` set (members [] doc)" and "map_of (datas s) k = Some p"
  shows "vars (snd (LoadFromYaml Y doc s)) p = vars s p"
proof -
  have reg: "registry_ok s" using cfg_reachable_inv [OF assms(2)] by (simp add: sys_inv_def)
  have "untouched (\<lambda>t. datas t = datas s \<and> vars t p = vars s p)
      (for_each (members [] doc) (load_member Y))"
    using assms(4) members_valid [of _ _ "[]" doc]
    by (intro untouched_for_each load_member_other [OF reg assms(5)]) auto
  moreover have "fst (in_world (ListAllMember Y [] doc []) s) \<in>
      {Inr (members [] doc), Inl (Undefined Indeterminate_Value)}"
    using yieldsD [OF ListAllMember_in_world [OF assms(1,3), of s], of s] cfg_reachable_inv [OF assms(2)]
    by (simp add: sys_from_refl)
  ultimately show ?thesis
    by (auto simp: LoadFromYaml_def comp_simps in_world_eq untouched_def split: sum.splits)
qed

end
