(* ===== verification/Registry_Races.thy ===== *)
theory Registry_Races
  imports Shared_Lookup Logger_Properties Config_Properties
begin

text \<open>
  The two registries of the program under concurrent callers: \<open>LoggerManager::getLogger\<close> and
  \<open>Config::Lookup\<close> with a default, cut into their steps, which together are the calls of \<open>Logger\<close>
  and \<open>Config\<close> in every branch, as interpretations of the contract of \<open>Shared_Lookup\<close>. What is shown
  are failures that need no two steps to overlap; that overlapping steps race on the maps themselves
  is not modelled here.
\<close>

section \<open>The steps of \<open>getLogger\<close>\<close>

text \<open>
  \<open>find\<close>; \<open>new Logger(name)\<close> with the assignment of \<open>m_root\<close>; the assignment \<open>m_loggers[name] = logger\<close>.
\<close>

definition look_logger :: "string \<Rightarrow> world \<Rightarrow> logger_ptr option" where
  "look_logger name w = map_of (mgr_loggers w) name"

text \<open>A logger that is found is returned; no name is refused.\<close>

definition answer_logger :: "string \<Rightarrow> logger_ptr option \<Rightarrow> (world, logger_ptr option) comp" where
  "answer_logger name found = return found"

definition make_logger :: "string \<Rightarrow> world \<Rightarrow> logger_ptr \<times> world" where
  "make_logger name w =
     (case new_Logger name w of
        (l, w1) \<Rightarrow> (l, upd_logger l (lg_root_update (\<lambda>_. Some (mgr_root w1))) w1))"

definition enter_logger :: "string \<Rightarrow> logger_ptr \<Rightarrow> world \<Rightarrow> world" where
  "enter_logger name l w = w\<lparr>mgr_loggers := omap_put name l (mgr_loggers w)\<rparr>"

definition getLogger_step ::
  "(string, logger_ptr) caller \<Rightarrow> world \<Rightarrow> (string, logger_ptr) caller \<times> world" where
  "getLogger_step = caller_step look_logger answer_logger (\<lambda>_. True) make_logger enter_logger"

lemma getLogger_steps:
  "whole_call look_logger answer_logger (\<lambda>_. True) make_logger enter_logger name w =
     (Inr (Some (fst (manager_getLogger name w))), snd (manager_getLogger name w))"
  by (simp add: whole_call_def look_logger_def answer_logger_def return_apply make_logger_def enter_logger_def manager_getLogger_def
      split: option.split prod.split)

lemma make_logger_facts:
  assumes "make_logger name w = (l, v)"
  shows "l = next_logger w" "next_logger v = Suc l" "lg_name (loggers v l) = name"
    "mgr_built v = mgr_built w" "mgr_root v = mgr_root w" "mgr_loggers v = mgr_loggers w"
    "j \<noteq> l \<Longrightarrow> loggers v j = loggers w j"
proof -
  obtain k u where nl: "new_Logger name w = (k, u)" by fastforce
  with assms have "l = k" and v: "v = upd_logger k (lg_root_update (\<lambda>_. Some (mgr_root u))) u"
    by (auto simp: make_logger_def)
  with new_Logger_facts [OF nl] show "l = next_logger w" "next_logger v = Suc l" "lg_name (loggers v l) = name"
    "mgr_built v = mgr_built w" "mgr_root v = mgr_root w" "mgr_loggers v = mgr_loggers w"
    "j \<noteq> l \<Longrightarrow> loggers v j = loggers w j" by auto
qed

lemma make_logger_inv:
  assumes inv: "log_inv w" and built: "mgr_built w" and mk: "make_logger name w = (l, v)"
  shows "log_inv v"
proof -
  obtain k u where nl: "new_Logger name w = (k, u)" by fastforce
  note f = new_Logger_facts [OF nl]
  have v: "v = upd_logger k (lg_root_update (\<lambda>_. Some (mgr_root u))) u"
    using mk nl by (auto simp: make_logger_def)
  have inv1: "log_inv u" using new_Logger_inv [OF inv, of name] nl by simp
  have "mgr_root w < k" using inv built f(1) by (simp add: log_inv_def mgr_ok_def)
  with inv1 f built v show ?thesis by (auto simp: log_inv_def logger_ok_def mgr_ok_def)
qed

lemma enter_logger_inv:
  assumes inv: "log_inv w" and name: "name \<noteq> ''root''"
    and l: "l < next_logger w" "lg_name (loggers w l) = name"
  shows "log_inv (enter_logger name l w)"
proof (cases "mgr_built w")
  case True
  then have "omap_ok (mgr_loggers w)" "map_of (mgr_loggers w) ''root'' = Some (mgr_root w)"
    and reg: "\<forall>e\<in>set (mgr_loggers w). snd e < next_logger w \<and> lg_name (loggers w (snd e)) = fst e"
    using inv by (simp_all add: log_inv_def mgr_ok_def)
  moreover have "\<forall>e\<in>set (omap_put name l (mgr_loggers w)). snd e < next_logger w \<and> lg_name (loggers w (snd e)) = fst e"
    using ball_omap_put [OF reg, of name l] l by simp
  ultimately show ?thesis using inv name
    by (simp add: enter_logger_def log_inv_def logger_ok_def mgr_ok_def)
qed (use inv in \<open>simp add: enter_logger_def log_inv_def logger_ok_def mgr_ok_def\<close>)

interpretation loggers: lookup_registry look_logger answer_logger "\<lambda>_. True" make_logger enter_logger "\<lambda>n. n"
  "\<lambda>l w. l < next_logger w" "\<lambda>l w. loggers w l" lg_name "\<lambda>n lg. lg_name lg = n" "\<lambda>w. log_inv w \<and> mgr_built w" "\<lambda>n. n \<noteq> ''root''"
proof unfold_locales
  fix s t :: world and r q :: string and p x :: logger_ptr
  assume s: "log_inv s \<and> mgr_built s"
  then have ok: "omap_ok (mgr_loggers s)" and root: "map_of (mgr_loggers s) ''root'' \<noteq> None"
    by (simp_all add: log_inv_def mgr_ok_def)
  show "(log_inv t \<and> mgr_built t) \<and> look_logger q t = look_logger q s \<and>
      (x < next_logger t) = (x < next_logger s) \<and> loggers t x = loggers s x"
    if "answer_logger r po s = (a, t)" for po and a :: "error + logger_ptr option"
    using that s by (simp add: answer_logger_def return_apply)
  show "p < next_logger s \<and> lg_name (loggers s p) = r" if "look_logger r s = Some p"
    using log_inv_find s that by (auto simp: look_logger_def)
  show "r \<noteq> ''root''" if "look_logger r s = None" using that root by (auto simp: look_logger_def)
  show "look_logger q (enter_logger r p s) = (if q = r then Some p else look_logger q s) \<and>
      (x < next_logger (enter_logger r p s)) = (x < next_logger s) \<and> loggers (enter_logger r p s) x = loggers s x"
    using ok by (simp add: look_logger_def enter_logger_def)
  show "log_inv (enter_logger r p s) \<and> mgr_built (enter_logger r p s)"
    if "r \<noteq> ''root''" "p < next_logger s" "lg_name (loggers s p) = r"
    using enter_logger_inv [of s r p] that s by (simp add: enter_logger_def)
  assume mk: "make_logger r s = (p, t)"
  show "(log_inv t \<and> mgr_built t) \<and> \<not> p < next_logger s \<and> p < next_logger t \<and> lg_name (loggers t p) = r"
    using make_logger_inv [OF _ _ mk] make_logger_facts [OF mk] s by simp
  show "look_logger q t = look_logger q s \<and> (x < next_logger s \<longrightarrow> x < next_logger t \<and> loggers t x = loggers s x)"
    using make_logger_facts [OF mk] by (simp add: look_logger_def)
qed (simp_all add: answer_logger_def return_apply)

section \<open>Concurrent calls of \<open>getLogger\<close>\<close>

text \<open>
  The callers \<open>c\<close> ask for \<open>names c\<close>; the instance exists (the construction of a static local is
  locked by the language).
\<close>

lemma instance_ok: "log_reachable w \<Longrightarrow> log_inv (GetInstance w) \<and> mgr_built (GetInstance w)"
  by (simp add: GetInstance_inv log_reachable_inv GetInstance_built)

lemma getLogger_run_inv:
  assumes "log_reachable w"
    and run: "run_schedule getLogger_step xs (\<lambda>c. Looking (names c), GetInstance w) = (cs, v)"
  shows "loggers.race_inv (GetInstance w) cs v"
  by (rule loggers.race_inv_run [OF loggers.race_inv_start [OF instance_ok [OF assms(1)]]
      run [unfolded getLogger_step_def]])

lemma getLogger_run_returns:
  assumes "log_reachable w"
    and run: "run_schedule getLogger_step xs (\<lambda>c. Looking (names c), GetInstance w) = (cs, v)"
    and "returned (cs c) = Some l"
  shows "l < next_logger v \<and> lg_name (loggers v l) = names c \<and>
    map_of (mgr_loggers (GetInstance w)) (names c) \<in> {None, Some l}"
proof -
  have "request (cs c) = names c"
    using run_schedule_request [of look_logger answer_logger "\<lambda>_. True" make_logger enter_logger xs
      "(\<lambda>c. Looking (names c), GetInstance w)" c] run by (simp add: getLogger_step_def)
  with loggers.race_invD(3) [OF getLogger_run_inv [OF assms(1,2)], of c] assms(3) show ?thesis
    by (cases "cs c") (auto simp: loggers.caller_ok_def look_logger_def)
qed

text \<open>Two threads, a schedule in which the second looks before the first has entered its logger.\<close>

definition raced :: "(nat \<Rightarrow> (string, logger_ptr) caller) \<times> world" where
  "raced = run_schedule getLogger_step [0, 1, 0, 0, 1, 1] (\<lambda>c. Looking ''net'', first_world)"

lemma raced_callers: "fst raced 0 = Created ''net'' 1" "fst raced 1 = Created ''net'' 2"
  by (simp_all add: raced_def getLogger_step_def look_logger_def make_logger_def enter_logger_def
      new_Logger_def alloc_logger_def Let_def)

lemma first_GetInstance [simp]: "GetInstance first_world = first_world"
  by (simp add: GetInstance_def)

text \<open>What is not registered never is again, whatever the program does with it.\<close>

lemma log_step_registry:
  assumes "log_step w v" "mgr_built w"
  shows "mgr_built v \<and>
    (mgr_loggers v = mgr_loggers w \<or> (\<exists>n. mgr_loggers v = omap_put n (next_logger w) (mgr_loggers w)))"
  using assms
proof (cases rule: log_step.cases)
  case (new_logger name)
  then show ?thesis using new_Logger_facts [of name w] assms(2) by (metis prod.collapse)
next
  case (get_logger name)
  obtain l u where nl: "new_Logger name w = (l, u)" by fastforce
  from new_Logger_facts [OF nl] get_logger assms(2) nl show ?thesis
    by (auto simp: getLogger_def manager_getLogger_def GetInstance_def split: option.splits)
next
  case (emit l lv ev)
  then show ?thesis using Logger_log_frame [of w l lv ev] assms(2) by (simp add: log_frame_def)
next
  case (ap_reopen ap)
  with assms(2) show ?thesis by (auto simp: reopen_def split: appender_class.splits prod.splits)
qed (simp_all add: assms(2) getRoot_def GetInstance_def new_StdoutLogAppender_def new_FileLogAppender_def
    alloc_appender_def addAppender_def delAppender_def cleanAppenders_def setLevel_def setFormatter_def
    setFormatter_pattern_def print_def Let_def)

lemma lost_for_ever:
  assumes "log_step\<^sup>*\<^sup>* w v" "log_inv w" "mgr_built w" "l < next_logger w"
    "\<forall>n. map_of (mgr_loggers w) n \<noteq> Some l"
  shows "mgr_built v \<and> log_inv v \<and> l < next_logger v \<and> (\<forall>n. map_of (mgr_loggers v) n \<noteq> Some l)"
  using assms
proof (induction rule: rtranclp_induct)
  case (step u v)
  then have u: "mgr_built u" "log_inv u" "l < next_logger u" "\<forall>n. map_of (mgr_loggers u) n \<noteq> Some l"
    by simp_all
  have "omap_ok (mgr_loggers u)" using u(1,2) by (simp add: log_inv_def mgr_ok_def)
  with u log_step_registry [OF step.hyps(2) u(1)] log_step_inv [OF step.hyps(2) u(2)]
    log_step_count [OF step.hyps(2)] show ?case by (auto split: if_splits)
qed simp

text \<open>
  C6. Two threads ask for the same new name. Only in the two schedules in which one call ends before
  the other begins do they get the same logger; in the 18 others they get two loggers of one name,
  the registry keeps the one entered last, and no later operation of the module, and so no
  configuration, ever finds the other one, whose owner goes on logging with it.
\<close>

theorem getLogger_race:
  assumes "log_reachable w" and "map_of (mgr_loggers (GetInstance w)) name = None"
    and xs: "xs \<in> shuffles [0, 0, 0] [1, 1, 1]"
    and run: "run_schedule getLogger_step xs (\<lambda>c. Looking name, GetInstance w) = (cs, v)"
  shows "\<exists>l m. returned (cs 0) = Some l \<and> returned (cs 1) = Some m \<and>
    (l = m \<longleftrightarrow> xs = [0, 0, 0, 1, 1, 1] \<or> xs = [1, 1, 1, 0, 0, 0]) \<and>
    Some (fst (getLogger name v)) = returned (cs (last xs)) \<and>
    (\<forall>k u n. k \<in> {l, m} \<and> Some k \<noteq> returned (cs (last xs)) \<and> log_step\<^sup>*\<^sup>* v u \<longrightarrow> fst (getLogger n u) \<noteq> k)"
proof -
  note run' = run [unfolded getLogger_step_def] and returns = getLogger_run_returns [OF assms(1) run]
  have "look_logger name (GetInstance w) = None" using assms(2) by (simp add: look_logger_def)
  note two = loggers.two_callers [OF instance_ok [OF assms(1)], of "\<lambda>_. name" 0 1, OF this _ _ _ _ xs run']
  have after: "returned (cs f) = returned (cs g) \<and> returned (cs g) \<noteq> None \<and>
      map_of (mgr_loggers v) name = returned (cs g)"
    if "loggers.found_after (\<lambda>_. name) (GetInstance w) f g cs v" for f g
  proof -
    from that obtain p where "cs f = Created name p" "outcome (cs g) = Some (Inr (Some p))" "look_logger name v = Some p"
      by (auto simp: loggers.found_after_def answer_logger_def return_apply)
    then show ?thesis by (simp add: look_logger_def returned_outcome [THEN iffD2])
  qed
  obtain l m where lm: "returned (cs 0) = Some l" "returned (cs 1) = Some m"
      "l = m \<longleftrightarrow> xs = [0, 0, 0, 1, 1, 1] \<or> xs = [1, 1, 1, 0, 0, 0]"
    and reg: "map_of (mgr_loggers v) name = returned (cs (last xs))"
    using two after [of 0 1] after [of 1 0] by (auto simp: look_logger_def split: if_splits)
  have v: "log_inv v" "mgr_built v"
    using loggers.race_invD(1) [OF getLogger_run_inv [OF assms(1) run]] by simp_all
  have "last xs = 0 \<or> last xs = 1" using xs by (auto simp: shuffles.simps)
  then have last: "Some (fst (getLogger name v)) = returned (cs (last xs))"
    using reg lm v(2) by (auto simp: getLogger_def manager_getLogger_def GetInstance_def)
  have "fst (getLogger n u) \<noteq> k"
    if k: "k \<in> {l, m}" "Some k \<noteq> returned (cs (last xs))" and u: "log_step\<^sup>*\<^sup>* v u" for k u n
  proof -
    have live: "k < next_logger v" "lg_name (loggers v k) = name"
      using returns [of 0 l] returns [of 1 m] lm k(1) by auto
    have "map_of (mgr_loggers v) j \<noteq> Some k" for j
      using log_inv_find [OF v, of j k] live(2) reg k(2) by auto
    with lost_for_ever [OF u v live(1)] have "mgr_built u" "k < next_logger u" "map_of (mgr_loggers u) n \<noteq> Some k"
      by simp_all
    then show ?thesis using new_Logger_facts(1) [of n u]
      by (auto simp: getLogger_def manager_getLogger_def GetInstance_def split: option.split prod.split)
  qed
  with lm last show ?thesis by blast
qed

theorem getLogger_race_witness:
  "returned (fst raced 0) = Some 1 \<and> returned (fst raced 1) = Some 2 \<and>
    fst (getLogger ''net'' (snd raced)) = 2 \<and>
    fst (getLogger ''net'' (setLevel ERROR 2 (snd raced))) \<noteq> 1"
proof -
  have run: "run_schedule getLogger_step [0, 1, 0, 0, 1, 1] (\<lambda>c. Looking ''net'', GetInstance first_world) =
      (fst raced, snd raced)" by (simp add: raced_def)
  have "[0, 1, 0, 0, 1, 1] \<in> shuffles [0, 0, 0] [1, 1, (1::nat)]" by (simp add: shuffles.simps)
  note race = getLogger_race [OF first_world_reachable _ this run]
  have "2 < next_logger (snd raced)"
    by (simp add: raced_def getLogger_step_def look_logger_def make_logger_def enter_logger_def
      new_Logger_def alloc_logger_def Let_def)
  then have "log_step\<^sup>*\<^sup>* (snd raced) (setLevel ERROR 2 (snd raced))" by (blast intro: log_step.level)
  with race raced_callers show ?thesis by auto
qed

text \<open>
  Calls that do not overlap, as when a lock is held around them, are the calls of the sequential
  model in the order in which the threads run.
\<close>

lemma serial_getLogger:
  assumes "distinct ts"
    and "run_schedule getLogger_step (concat (map (replicate 3) ts)) (\<lambda>c. Looking (names c), w) = (cs, v)"
  shows "v = fold (\<lambda>c. snd \<circ> manager_getLogger (names c)) ts w \<and>
    (\<forall>us c zs. ts = us @ c # zs \<longrightarrow> returned (cs c) =
       Some (fst (manager_getLogger (names c) (fold (\<lambda>c. snd \<circ> manager_getLogger (names c)) us w))))"
  using serial_run [OF assms(1) _ assms(2) [unfolded getLogger_step_def], of names]
  by (simp add: getLogger_steps comp_def returned_outcome)

section \<open>The steps of \<open>Lookup\<close>\<close>

text \<open>
  A call \<open>Lookup<T>(name, default_value, description)\<close>: \<open>find\<close>, and, when the name is there, the
  \<open>dynamic_pointer_cast\<close> with the log line of either result, or, when it is missing and not valid, the log
  line and the exception; then \<open>new ConfigVar<T>\<close>; then the assignment \<open>GetDatas()[name] = v\<close>.
\<close>

record 'v var_request =
  rq_type :: "'v config_type"
  rq_name :: string
  rq_default :: 'v
  rq_description :: string

definition look_var :: "'v var_request \<Rightarrow> 'v system \<Rightarrow> var_ptr option" where
  "look_var r s = map_of (datas s) (rq_name r)"

definition answer_var :: "'v var_request \<Rightarrow> var_ptr option \<Rightarrow> ('v system, var_ptr option) comp" where
  "answer_var r found = (\<lambda>s.
     case found of
       Some p \<Rightarrow>
         if ct_name (cv_type (vars s p)) = ct_name (rq_type r) then
           bind_comp (in_world (log_root INFO ''sylar/config.h'' 434 (''Lookup name ='' @ rq_name r @ '' exists'')))
             (\<lambda>_. return (Some p)) s
         else
           bind_comp (log_root_computed ERROR ''sylar/config.h'' 440
               (bind_comp (toString p) (\<lambda>t. return (''Lookup name ='' @ rq_name r @ '' exists but type not'' @
                  ct_name (rq_type r) @ '' real type='' @ ct_name (cv_type (vars s p)) @ '' real value:'' @ t))))
             (\<lambda>_. return None) s
     | None \<Rightarrow>
         bind_comp (in_world (log_root ERROR ''sylar/config.h'' 448 (''Lookup name invalid = '' @ rq_name r)))
           (\<lambda>_. throw (Std_Exception (rq_name r))) s)"

definition admit_var :: "'v var_request \<Rightarrow> bool" where
  "admit_var r = (\<not> has_char_not_of (rq_name r) config_chars)"

definition make_var :: "'v var_request \<Rightarrow> 'v system \<Rightarrow> var_ptr \<times> 'v system" where
  "make_var r s =
     (next_var s,
      s\<lparr>vars := (vars s)(next_var s := ConfigVar (rq_type r) (rq_name r) (rq_default r) (rq_description r)),
        next_var := Suc (next_var s)\<rparr>)"

definition enter_var :: "'v var_request \<Rightarrow> var_ptr \<Rightarrow> 'v system \<Rightarrow> 'v system" where
  "enter_var r p s = s\<lparr>datas := omap_put (rq_name r) p (datas s)\<rparr>"

definition Lookup_step ::
  "('v var_request, var_ptr) caller \<Rightarrow> 'v system \<Rightarrow> ('v var_request, var_ptr) caller \<times> 'v system" where
  "Lookup_step = caller_step look_var answer_var admit_var make_var enter_var"

text \<open>Together the steps are the whole call, in each of its branches.\<close>

lemma Lookup_steps:
  "Lookup (rq_type r) (rq_name r) (rq_default r) (rq_description r) s =
    whole_call look_var answer_var admit_var make_var enter_var r s"
  by (simp add: whole_call_def look_var_def answer_var_def admit_var_def make_var_def enter_var_def Lookup_def
      split: option.split del: append.simps)

lemma answer_var_Lookup:
  "look_var r s = Some p \<Longrightarrow>
     answer_var r (Some p) s = Lookup (rq_type r) (rq_name r) (rq_default r) (rq_description r) s"
  by (simp add: Lookup_steps whole_call_def)

text \<open>Computations that change the logging world only.\<close>

definition world_only :: "('v system, 'a) comp \<Rightarrow> bool" where
  "world_only m = (\<forall>v n d. untouched (\<lambda>s. vars s = v \<and> next_var s = n \<and> datas s = d) m)"

lemma world_onlyD:
  "world_only m \<Longrightarrow> m s = (r, t) \<Longrightarrow> vars t = vars s \<and> next_var t = next_var s \<and> datas t = datas s"
  unfolding world_only_def untouched_def by (metis snd_conv)

lemma world_onlyI:
  "(\<And>s. vars (snd (m s)) = vars s \<and> next_var (snd (m s)) = next_var s \<and> datas (snd (m s)) = datas s) \<Longrightarrow> world_only m"
  by (simp add: world_only_def untouched_def)

lemma world_only_bind: "world_only m \<Longrightarrow> (\<And>x. world_only (f x)) \<Longrightarrow> world_only (bind_comp m f)"
  unfolding world_only_def by (blast intro: untouched_bind)

lemma world_only_catch: "world_only m \<Longrightarrow> (\<And>e. world_only (h e)) \<Longrightarrow> world_only (catch_std m h)"
  unfolding world_only_def by (blast intro: untouched_catch)

lemma world_only_basic: "world_only (in_world m)" "world_only (return x)" "world_only (throw e)"
  by (auto simp: world_only_def untouched_def in_world_eq comp_simps)

lemmas world_only_intros = world_only_bind world_only_catch world_only_basic

lemma world_only_toString: "world_only (toString p :: ('v system, string) comp)"
proof (rule world_onlyI)
  fix s :: "'v system"
  have "world_only (catch_std (in_world m) (\<lambda>e. bind_comp (in_world (k e)) (\<lambda>_. return [])) :: ('v system, string) comp)"
    for m k by (intro world_only_intros)
  from world_onlyD [OF this prod.collapse [symmetric], of _ _ s]
  show "vars (snd (toString p s)) = vars s \<and> next_var (snd (toString p s)) = next_var s \<and>
      datas (snd (toString p s)) = datas s"
    unfolding toString_def Let_def .
qed

lemma world_only_computed:
  assumes "world_only m"
  shows "world_only (log_root_computed lv file line m :: ('v system, unit) comp)"
proof (rule world_onlyI)
  fix s :: "'v system"
  obtain r w where root: "getRoot (sys_world s) = (r, w)" by fastforce
  have "world_only (bind_comp m (\<lambda>t. in_world (\<lambda>w.
      LogEventWrap_destroy (stream_into t (macro_event r lv file line w)) w)))"
    by (intro world_only_intros assms)
  from world_onlyD [OF this prod.collapse [symmetric], of "s\<lparr>sys_world := w\<rparr>"]
  show "vars (snd (log_root_computed lv file line m s)) = vars s \<and>
      next_var (snd (log_root_computed lv file line m s)) = next_var s \<and>
      datas (snd (log_root_computed lv file line m s)) = datas s"
    by (simp add: log_root_computed_def root)
qed

lemma answer_var_world: "world_only (answer_var r found :: ('v system, var_ptr option) comp)"
proof (rule world_onlyI)
  fix s :: "'v system"
  have "world_only (bind_comp (in_world m) (\<lambda>_. k))" if "world_only k" for m and k :: "('v system, var_ptr option) comp"
    by (intro world_only_intros that)
  note logs = world_onlyD [OF this [OF world_only_basic(2)] prod.collapse [symmetric], of _ _ s]
    world_onlyD [OF this [OF world_only_basic(3)] prod.collapse [symmetric], of _ _ s]
  have "world_only (bind_comp (log_root_computed lv fn line (bind_comp (toString p) (\<lambda>t. return (g t))))
      (\<lambda>_. return None) :: ('v system, var_ptr option) comp)" for lv fn line p g
    by (intro world_only_bind world_only_computed world_only_toString world_only_basic)
  note computed = world_onlyD [OF this prod.collapse [symmetric], of _ _ _ _ _ s]
  show "vars (snd (answer_var r found s)) = vars s \<and> next_var (snd (answer_var r found s)) = next_var s \<and>
      datas (snd (answer_var r found s)) = datas s"
    unfolding answer_var_def using logs computed by (auto split: option.split)
qed

lemma answer_var_found: "answer_var r found s = (Inr (Some p), t) \<Longrightarrow> found = Some p"
  by (auto simp: answer_var_def comp_simps split: option.splits if_splits sum.splits prod.splits)

definition registry_named :: "'v system \<Rightarrow> bool" where
  "registry_named s =
     (omap_ok (datas s) \<and>
      (\<forall>e\<in>set (datas s). snd e < next_var s \<and> cv_name (vars s (snd e)) = fst e))"

lemma cfg_reachable_named: "cfg_reachable s \<Longrightarrow> registry_named s"
  using cfg_reachable_inv by (auto simp: sys_inv_def registry_ok_def registry_named_def)

lemma admit_valid: "admit_var r = valid_name (rq_name r)"
  by (simp add: admit_var_def valid_name_def)

interpretation variables: lookup_registry look_var answer_var admit_var make_var enter_var rq_name
  "\<lambda>p s. p < next_var s" "\<lambda>p s. vars s p" cv_name
  "\<lambda>r x. x = ConfigVar (rq_type r) (rq_name r) (rq_default r) (rq_description r) \<and> valid_name (rq_name r)" registry_named "\<lambda>r. valid_name (rq_name r)"
proof unfold_locales
  fix s t :: "'v system" and r q :: "'v var_request" and p x :: var_ptr
  show "look_var r s = look_var q s" if "rq_name r = rq_name q" using that by (simp add: look_var_def)
  show "valid_name (rq_name r)" if "admit_var r" using that by (simp add: admit_valid)
  show "po = Some p" if "answer_var r po s = (Inr (Some p), t)" for po using that by (rule answer_var_found)
  show "cv_name v = rq_name r"
    if "v = ConfigVar (rq_type r) (rq_name r) (rq_default r) (rq_description r) \<and> valid_name (rq_name r)" for v
    using that by (simp add: ConfigVar_def valid_name_lower)
  assume s: "registry_named s"
  then have ok: "omap_ok (datas s)"
    and reg: "\<forall>e\<in>set (datas s). snd e < next_var s \<and> cv_name (vars s (snd e)) = fst e"
    by (simp_all add: registry_named_def)
  show "p < next_var s \<and> cv_name (vars s p) = rq_name r" if "look_var r s = Some p"
    using reg map_of_SomeD that by (fastforce simp: look_var_def)
  show "registry_named t \<and> look_var q t = look_var q s \<and> (x < next_var t) = (x < next_var s) \<and> vars t x = vars s x"
    if "answer_var r po s = (a, t)" for po a
    using world_onlyD [OF answer_var_world that] s by (simp add: registry_named_def look_var_def)
  show "look_var q (enter_var r p s) = (if rq_name q = rq_name r then Some p else look_var q s) \<and>
      (x < next_var (enter_var r p s)) = (x < next_var s) \<and> vars (enter_var r p s) x = vars s x"
    using ok by (simp add: look_var_def enter_var_def)
  show "registry_named (enter_var r p s)" if "p < next_var s" "cv_name (vars s p) = rq_name r"
    using ok that ball_omap_put [OF reg, of "rq_name r" p] by (simp add: registry_named_def enter_var_def)
  assume mk: "make_var r s = (p, t)"
  show "registry_named t \<and> \<not> p < next_var s \<and> p < next_var t \<and>
      vars t p = ConfigVar (rq_type r) (rq_name r) (rq_default r) (rq_description r) \<and> valid_name (rq_name r)"
    if "valid_name (rq_name r)"
  proof -
    have "snd e < Suc (next_var s) \<and> snd e \<noteq> next_var s \<and> cv_name (vars s (snd e)) = fst e"
      if "e \<in> set (datas s)" for e using bspec [OF reg that] by auto
    with mk ok that show ?thesis
      by (auto simp: make_var_def registry_named_def ConfigVar_def valid_name_lower)
  qed
  show "look_var q t = look_var q s \<and> (x < next_var s \<longrightarrow> x < next_var t \<and> vars t x = vars s x)"
    using mk by (auto simp: make_var_def look_var_def)
qed

section \<open>Concurrent calls of \<open>Lookup\<close>\<close>

text \<open>Loading reaches registered variables only.\<close>

lemma load_unregistered:
  fixes s :: "'v system"
  assumes "\<forall>k. map_of (datas s) k \<noteq> Some p"
  shows "vars (snd (LoadFromYaml Y doc s)) p = vars s p"
proof -
  have member: "untouched (\<lambda>t. datas t = datas s \<and> vars t p = vars s p) (load_member Y it)" for it
    unfolding untouched_def
  proof (intro allI impI)
    fix t :: "'v system"
    assume t: "datas t = datas s \<and> vars t p = vars s p"
    show "datas (snd (load_member Y it t)) = datas s \<and> vars (snd (load_member Y it t)) p = vars s p"
    proof (cases "fst it = [] \<or> LookupBase (map tolower (fst it)) t = None")
      case True
      with t show ?thesis by (simp add: load_member_none)
    next
      case False
      then obtain q where q: "LookupBase (map tolower (fst it)) t = Some q" by auto
      with t assms have "p \<noteq> q" by (auto simp: LookupBase_def)
      then have "untouched (\<lambda>t. datas t = datas s \<and> vars t p = vars s p)
          (bind_comp (if IsScalar (snd it) then lib_call (y_scalar Y (snd it)) else return (y_emit Y (snd it)))
            (\<lambda>u. bind_comp (fromString q u) (\<lambda>_. return ())))"
        by (intro untouched_bind fromString_other untouched_return) (simp_all add: untouched_lib_call untouched_return)
      with False q t show ?thesis by (simp add: untouched_def load_member_def)
    qed
  qed
  have "untouched (\<lambda>t. datas t = datas s \<and> vars t p = vars s p) (LoadFromYaml Y doc)"
    unfolding LoadFromYaml_def
    by (intro untouched_bind untouched_for_each member
        untouched_in_world [where P = "\<lambda>m f. m = datas s \<and> f p = vars s p"])
  then show ?thesis by (simp add: untouched_def)
qed

text \<open>In a schedule without overlap the second thread finds the variable of the first.\<close>

lemma found_variable:
  assumes s: "cfg_reachable s" "map_of (datas s) name = None" "valid_name name"
    and found: "variables.found_after r s f g cs t"
    and n: "rq_name (r f) = name" "rq_name (r g) = name" "default_ok (rq_type (r f)) (rq_default (r f))"
  shows "\<exists>p. cs f = Created (r f) p \<and> LookupBase name t = Some p \<and>
    outcome (cs g) \<in> {Some (Inr (if ct_name (rq_type (r f)) = ct_name (rq_type (r g)) then Some p else None)),
       Some (Inl (Undefined Indeterminate_Value))}"
proof -
  obtain p u where p: "make_var (r f) s = (p, u)" "cs f = Created (r f) p"
      "outcome (cs g) = Some (fst (answer_var (r g) (Some p) (enter_var (r f) p u)))" "look_var (r f) t = Some p"
    using found by (auto simp: variables.found_after_def)
  have omap: "omap_ok (datas s)" using cfg_reachable_named [OF s(1)] by (simp add: registry_named_def)
  let ?v = "enter_var (r f) p u"
  have "Lookup (rq_type (r f)) (rq_name (r f)) (rq_default (r f)) (rq_description (r f)) s = (Inr (Some p), ?v)"
    using s(2,3) n(1) p(1) unfolding Lookup_steps by (simp add: whole_call_def look_var_def admit_valid)
  then have inv: "sys_inv ?v" using Lookup_inv [OF cfg_reachable_inv [OF s(1)] n(3)] by (metis snd_conv)
  have v: "map_of (datas ?v) name = Some p" "cv_type (vars ?v p) = rq_type (r f)"
    using p(1) n(1) omap by (auto simp: make_var_def enter_var_def ConfigVar_def)
  then have "answer_var (r g) (Some p) ?v = Lookup (rq_type (r g)) name (rq_default (r g)) (rq_description (r g)) ?v"
    using answer_var_Lookup [of "r g" ?v p] n(2) by (simp add: look_var_def)
  with Lookup_existing [OF inv v(1), of "rq_type (r g)" "rq_default (r g)" "rq_description (r g)"] v(2) p n
  show ?thesis by (auto simp: LookupBase_def look_var_def)
qed

text \<open>
  C29. Two threads look up the same new name, each with a type, a default and a description of its own.
  In the two schedules in which the calls do not overlap the first creates the variable, and the second
  is given that variable if its type is the same and null if it is not (or its log line fails on an
  overlong date). In the 18 others each has created a variable of its own, of its type and with its
  default, whatever the types are and without any error; the registry keeps the one entered last, and
  no document that is loaded afterwards reaches the other.
\<close>

theorem Lookup_race:
  assumes "cfg_reachable s" and "map_of (datas s) name = None" and "valid_name name"
    and name: "rq_name (r 0) = name" "rq_name (r 1) = name"
    and default: "default_ok (rq_type (r 0)) (rq_default (r 0))" "default_ok (rq_type (r 1)) (rq_default (r 1))"
    and xs: "xs \<in> shuffles [0, 0, 0] [1, 1, 1]"
    and run: "run_schedule Lookup_step xs (\<lambda>c. Looking (r c), s) = (cs, t)"
  shows "if xs = [0, 0, 0, 1, 1, 1] \<or> xs = [1, 1, 1, 0, 0, 0]
    then \<exists>p. cs (hd xs) = Created (r (hd xs)) p \<and> LookupBase name t = Some p \<and>
      outcome (cs (last xs)) \<in>
        {Some (Inr (if ct_name (rq_type (r 0)) = ct_name (rq_type (r 1)) then Some p else None)),
         Some (Inl (Undefined Indeterminate_Value))}
    else \<exists>p q. cs 0 = Created (r 0) p \<and> cs 1 = Created (r 1) q \<and> p \<noteq> q \<and>
      vars t p = ConfigVar (rq_type (r 0)) name (rq_default (r 0)) (rq_description (r 0)) \<and>
      vars t q = ConfigVar (rq_type (r 1)) name (rq_default (r 1)) (rq_description (r 1)) \<and>
      LookupBase name t = returned (cs (last xs)) \<and>
      (\<forall>k Y doc. k \<in> {p, q} \<and> Some k \<noteq> LookupBase name t \<longrightarrow> vars (snd (LoadFromYaml Y doc t)) k = vars t k)"
proof -
  note run' = run [unfolded Lookup_step_def] and ok = cfg_reachable_named [OF assms(1)]
  have none: "look_var (r 0) s = None" and adm: "admit_var (r 0)" "admit_var (r 1)" and same: "rq_name (r 1) = rq_name (r 0)"
    using assms(2,3) name by (simp_all add: look_var_def admit_valid)
  note two = variables.two_callers [OF ok none same adm _ xs run']
  note D = variables.race_invD [OF variables.race_inv_run [OF variables.race_inv_start [OF ok] run']]
  show ?thesis
  proof (cases "xs = [0, 0, 0, 1, 1, 1] \<or> xs = [1, 1, 1, 0, 0, 0]")
    case True
    note found = found_variable [OF assms(1-3), where r = r and cs = cs and t = t]
    from True two found [of 0 1] found [of 1 0] name default show ?thesis by (elim disjE) (simp_all add: eq_commute)
  next
    case False
    with two obtain p q where pq: "cs 0 = Created (r 0) p" "cs 1 = Created (r 1) q" "p \<noteq> q"
      and reg: "map_of (datas t) name = returned (cs (last xs))"
      using name by (auto simp: look_var_def)
    have new: "vars t p = ConfigVar (rq_type (r 0)) name (rq_default (r 0)) (rq_description (r 0))"
      "vars t q = ConfigVar (rq_type (r 1)) name (rq_default (r 1)) (rq_description (r 1))"
      using D(3) [of 0] D(3) [of 1] pq name by (simp_all add: variables.caller_ok_def)
    have "vars (snd (LoadFromYaml Y doc t)) k = vars t k"
      if k: "k \<in> {p, q}" "Some k \<noteq> LookupBase name t" for k Y doc
    proof (rule load_unregistered, intro allI notI)
      fix n
      assume n: "map_of (datas t) n = Some k"
      then have "cv_name (vars t k) = n"
        using D(1) map_of_SomeD [OF n] by (auto simp: registry_named_def)
      moreover have "cv_name (vars t k) = name"
        using new k(1) assms(3) by (auto simp: ConfigVar_def valid_name_lower)
      ultimately show False using n k(2) by (simp add: LookupBase_def)
    qed
    with False pq new reg show ?thesis by (simp add: LookupBase_def)
  qed
qed

text \<open>The first thread holds the default 1, the second 2, and only the second is ever loaded into.\<close>

definition net_request :: "nat \<Rightarrow> string var_request" where
  "net_request c = \<lparr>rq_type = string_type, rq_name = ''net.port'', rq_default = (if c = 0 then ''1'' else ''2''),
     rq_description = []\<rparr>"

definition raced_system :: "string system" where
  "raced_system = snd (run_schedule Lookup_step [0, 1, 0, 0, 1, 1] (\<lambda>c. Looking (net_request c), start_system))"

theorem Lookup_race_witness:
  "LookupBase ''net.port'' raced_system = Some 1 \<and>
    vars (snd (LoadFromYaml codec_yaml (YMap [(YScalar ''net'', YMap [(YScalar ''port'', YScalar ''9'')])]) raced_system)) 0 =
      ConfigVar string_type ''net.port'' ''1'' []"
proof -
  have valid: "valid_name ''net.port''" by (simp add: valid_name_def has_char_not_of_def config_chars_def)
  have rq: "rq_name (net_request c) = ''net.port''" "rq_type (net_request c) = string_type"
    "rq_default (net_request 0) = ''1''" "rq_description (net_request c) = []" for c
    by (simp_all add: net_request_def)
  have adm: "admit_var (net_request c)" for c using valid by (simp add: admit_valid rq)
  let ?run = "run_schedule Lookup_step [0, 1, 0, 0, 1, 1] (\<lambda>c. Looking (net_request c), start_system)"
  have cs: "fst ?run 0 = Created (net_request 0) 0" "fst ?run 1 = Created (net_request 1) 1"
    by (simp_all add: adm rq Lookup_step_def look_var_def make_var_def enter_var_def start_system_def)
  have "[0, 1, 0, 0, 1, 1] \<in> shuffles [0, 0, 0] [1, 1, (1::nat)]" by (simp add: shuffles.simps)
  moreover have "?run = (fst ?run, raced_system)" by (simp add: raced_system_def)
  ultimately show ?thesis
    using Lookup_race [OF start_system_reachable, of "''net.port''" net_request "[0, 1, 0, 0, 1, 1]" "fst ?run" raced_system]
      valid cs string_default by (simp add: rq start_system_def)
qed

end
