(* ===== verification/Config_Reentrant.thy ===== *)
theory Config_Reentrant
  imports Config_Properties
begin

text \<open>
  Listeners that call back into the configuration module. In the theory \<open>Config\<close> a listener works
  on the logging world only; here it is a list of actions, which may also set variables and add and
  remove listeners, of its own variable or of others. The loop of \<open>setValue\<close> then runs while the map of
  listeners and the value may change under it, and calls of \<open>setValue\<close> nest. For listeners that do
  not call back this is the \<open>setValue\<close> of \<open>Config\<close>.
\<close>

section \<open>Listeners as actions\<close>

datatype 'v action =
    Native "'v \<Rightarrow> 'v \<Rightarrow> (world, unit) comp"       \<comment> \<open>anything outside the module\<close>
  | Set_Value var_ptr "'v \<Rightarrow> 'v \<Rightarrow> 'v"          \<comment> \<open>\<open>setValue\<close> of a variable to a value\<close>
  | Add_Listener var_ptr u64 "'v action list option"
  | Del_Listener var_ptr u64
  | Clean_Listener var_ptr

type_synonym 'v script_cb = "'v action list option"

text \<open>
  The system, whose variables hold no listeners of their own, and the listeners of each variable. The
  elements of a \<open>std::map\<close> have an identity: when a key is erased and added again, an iterator to the
  old element dangles. So there is a count, for each key, of the erasures of its element.
\<close>

record 'v rsystem =
  rs_sys :: "'v system"
  rs_cbs :: "var_ptr \<Rightarrow> (u64, 'v script_cb) omap"
  rs_erased :: "var_ptr \<Rightarrow> u64 \<Rightarrow> nat"

definition in_sys :: "('v system, 'a) comp \<Rightarrow> ('v rsystem, 'a) comp" where
  "in_sys m = (\<lambda>s. case m (rs_sys s) of (r, t) \<Rightarrow> (r, s\<lparr>rs_sys := t\<rparr>))"

abbreviation upd_cbs ::
  "var_ptr \<Rightarrow> ((u64, 'v script_cb) omap \<Rightarrow> (u64, 'v script_cb) omap) \<Rightarrow> 'v rsystem \<Rightarrow> 'v rsystem" where
  "upd_cbs p f s \<equiv> s\<lparr>rs_cbs := (rs_cbs s)(p := f (rs_cbs s p))\<rparr>"

definition erase_cbs :: "var_ptr \<Rightarrow> (u64 \<Rightarrow> bool) \<Rightarrow> 'v rsystem \<Rightarrow> 'v rsystem" where
  "erase_cbs p gone s =
     s\<lparr>rs_cbs := (rs_cbs s)(p := filter (\<lambda>i. \<not> gone (fst i)) (rs_cbs s p)),
       rs_erased := (rs_erased s)(p := (\<lambda>k. if gone k then Suc (rs_erased s p k) else rs_erased s p k))\<rparr>"

text \<open>
  One action of a listener of \<open>p\<close> that was called for the new value \<open>v\<close>: \<open>old_value\<close> is a reference to
  the member, so it is read when the action runs. \<open>assign\<close> is \<open>setValue\<close>.
\<close>

fun run_action ::
  "(var_ptr \<Rightarrow> 'v \<Rightarrow> ('v rsystem, unit) comp) \<Rightarrow> var_ptr \<Rightarrow> 'v \<Rightarrow> 'v action \<Rightarrow> ('v rsystem, unit) comp" where
  "run_action assign p v (Native f) = (\<lambda>s. in_sys (in_world (f (getValue p (rs_sys s)) v)) s)"
| "run_action assign p v (Set_Value q g) = (\<lambda>s. assign q (g (getValue p (rs_sys s)) v) s)"
| "run_action assign p v (Add_Listener q k cb) = modify (upd_cbs q (omap_put k cb))"
| "run_action assign p v (Del_Listener q k) = modify (erase_cbs q (\<lambda>j. j = k))"
| "run_action assign p v (Clean_Listener q) = modify (erase_cbs q (\<lambda>_. True))"

text \<open>
  The body of the loop at the listener with key \<open>k\<close>. When the element the iterator stands on is erased
  meanwhile, by the listener or by a call nested in it, its increment is undefined, also when the key
  has been added again. A listener that is replaced while it runs still runs to its end.
\<close>

definition call_listener ::
  "(var_ptr \<Rightarrow> 'v \<Rightarrow> ('v rsystem, unit) comp) \<Rightarrow> var_ptr \<Rightarrow> 'v \<Rightarrow> u64 \<Rightarrow> ('v rsystem, unit) comp" where
  "call_listener assign p v k = (\<lambda>s.
     case map_of (rs_cbs s p) k of
       None \<Rightarrow> (Inr (), s)
     | Some None \<Rightarrow> (Inl (Std_Exception ''bad_function_call''), s)
     | Some (Some script) \<Rightarrow>
         bind_comp (for_each script (run_action assign p v))
           (\<lambda>_ t. if rs_erased t p k \<noteq> rs_erased s p k then (Inl (Undefined Dangling_Access), t) else (Inr (), t)) s)"

text \<open>
  The loop: iterators of \<open>std::map\<close> stay valid when other elements come and go, and the increment
  finds the next greater key that is there now; \<open>None\<close> is the position before the first element. As keys
  are 64 bits and only get greater, the loop ends even if every listener adds more listeners.
\<close>

definition after :: "u64 option \<Rightarrow> u64 \<times> 'a \<Rightarrow> bool" where
  "after pos i = (case pos of None \<Rightarrow> True | Some k \<Rightarrow> k < fst i)"

definition next_key :: "u64 option \<Rightarrow> (u64, 'a) omap \<Rightarrow> u64 option" where
  "next_key pos m = (case filter (after pos) m of [] \<Rightarrow> None | i # _ \<Rightarrow> Some (fst i))"

lemma next_key_greater: "next_key (Some j) m = Some k \<Longrightarrow> j < k"
proof -
  assume "next_key (Some j) m = Some k"
  then obtain i es where "filter (after (Some j)) m = i # es" "k = fst i"
    by (auto simp: next_key_def split: list.splits)
  then show "j < k" by (auto simp: filter_eq_Cons_iff after_def)
qed

function notify ::
  "(u64 \<Rightarrow> ('v rsystem, unit) comp) \<Rightarrow> var_ptr \<Rightarrow> u64 option \<Rightarrow> ('v rsystem, unit) comp" where
  "notify call p pos s =
     (case next_key pos (rs_cbs s p) of
        None \<Rightarrow> (Inr (), s)
      | Some k \<Rightarrow>
          (case call k s of
             (Inl e, t) \<Rightarrow> (Inl e, t)
           | (Inr _, t) \<Rightarrow> notify call p (Some k) t))"
  by pat_completeness auto

termination
proof (relation "measure (\<lambda>(call, p, pos, s). case pos of None \<Rightarrow> Suc (2 ^ 64) | Some k \<Rightarrow> 2 ^ 64 - unat k)")
  fix call :: "u64 \<Rightarrow> ('v rsystem, unit) comp" and p pos s k
  assume "next_key pos (rs_cbs s p) = Some k"
  moreover have "unat k < 2 ^ 64" for k :: u64 using unsigned_less [where ?'a = nat and w = k] by simp
  ultimately show "((call, p, Some k, t), call, p, pos, s)
      \<in> measure (\<lambda>(call, p, pos, s). case pos of None \<Rightarrow> Suc (2 ^ 64) | Some k \<Rightarrow> 2 ^ 64 - unat k)" for t
    by (cases pos) (auto simp: word_less_nat_alt less_Suc_eq intro!: diff_less_mono2 dest!: next_key_greater)
qed simp

declare notify.simps [simp del]

text \<open>
  \<open>setValue\<close>, with the number of calls that may be nested. The value is assigned after the loop.
\<close>

primrec setValue_fuel :: "nat \<Rightarrow> var_ptr \<Rightarrow> 'v \<Rightarrow> ('v rsystem, unit) comp" where
  "setValue_fuel 0 p v = throw (Undefined Stack_Overflow)"
| "setValue_fuel (Suc n) p v = (\<lambda>s.
     if ct_eq (cv_type (vars (rs_sys s) p)) v (getValue p (rs_sys s)) then (Inr (), s)
     else bind_comp (notify (call_listener (setValue_fuel n) p v) p None)
            (\<lambda>_. in_sys (modify (upd_var p (cv_val_update (\<lambda>_. v))))) s)"

section \<open>Enough fuel is enough\<close>

abbreviation overflows :: "(error + 'a) \<times> 's \<Rightarrow> bool" where
  "overflows r \<equiv> fst r = Inl (Undefined Stack_Overflow)"

text \<open>A computation that does what another does wherever the other has enough fuel.\<close>

definition extends :: "('s, 'a) comp \<Rightarrow> ('s, 'a) comp \<Rightarrow> bool" where
  "extends m m' = (\<forall>s. \<not> overflows (m s) \<longrightarrow> m' s = m s)"

named_theorems extends_intros

lemma extends_refl [extends_intros]: "extends m m"
  by (simp add: extends_def)

lemma extends_bind [extends_intros]:
  assumes "extends m m'" and "\<And>x. extends (f x) (f' x)"
  shows "extends (bind_comp m f) (bind_comp m' f')"
  using assms by (fastforce simp: extends_def bind_comp_def split: prod.splits sum.splits)

lemma extends_for_each [extends_intros]:
  "(\<And>x. extends (f x) (f' x)) \<Longrightarrow> extends (for_each xs f) (for_each xs f')"
  by (induction xs) (simp_all add: extends_intros)

lemma extends_action [extends_intros]:
  "(\<And>q w. extends (assign q w) (assign' q w)) \<Longrightarrow> extends (run_action assign p v a) (run_action assign' p v a)"
  by (cases a) (auto simp: extends_def)

lemma extends_call [extends_intros]:
  assumes "\<And>q w. extends (assign q w) (assign' q w)"
  shows "extends (call_listener assign p v k) (call_listener assign' p v k)"
proof -
  have "extends (bind_comp (for_each script (run_action assign p v)) f)
      (bind_comp (for_each script (run_action assign' p v)) f)" for script f
    by (intro extends_intros assms)
  then show ?thesis by (auto simp: extends_def call_listener_def split: option.split)
qed

lemma extends_notify [extends_intros]:
  assumes "\<And>k. extends (call k) (call' k)"
  shows "extends (notify call p pos) (notify call' p pos)"
proof -
  have "\<not> overflows (notify call p pos s) \<longrightarrow> notify call' p pos s = notify call p pos s" for s
    using assms
  proof (induction call p pos s rule: notify.induct)
    case (1 call p pos s)
    show ?case
    proof (cases "next_key pos (rs_cbs s p)")
      case (Some k)
      obtain r t where call: "call k s = (r, t)" by fastforce
      have "call' k s = (r, t)" if "r \<noteq> Inl (Undefined Stack_Overflow)"
        using "1.prems" [of k] that call by (simp add: extends_def)
      with Some call "1.IH" [OF Some call [symmetric] _ "1.prems"] show ?thesis
        by (cases r) (auto simp: notify.simps [of _ p pos s])
    qed (simp add: notify.simps [of _ p pos s])
  qed
  then show ?thesis by (simp add: extends_def)
qed

lemma fuel_extends: "extends (setValue_fuel n p v) (setValue_fuel (Suc n) p v)"
proof (induction n arbitrary: p v)
  case 0
  then show ?case by (simp add: extends_def throw_apply)
next
  case (Suc n)
  have "extends (bind_comp (notify (call_listener (setValue_fuel n) p v) p None) f)
      (bind_comp (notify (call_listener (setValue_fuel (Suc n)) p v) p None) f)" for f
    by (intro extends_intros Suc.IH)
  then show ?case
    unfolding extends_def setValue_fuel.simps(2) [of "Suc n"] setValue_fuel.simps(2) [of n] by auto
qed

lemma more_fuel:
  assumes "\<not> overflows (setValue_fuel n p v s)" and "n \<le> m"
  shows "setValue_fuel m p v s = setValue_fuel n p v s"
  using assms(2)
proof (induction rule: dec_induct)
  case (step m)
  then show ?case using fuel_extends [of m p v] assms(1) by (simp add: extends_def del: setValue_fuel.simps)
qed simp

section \<open>Listeners that do not call back\<close>

text \<open>The system of \<open>Config\<close> in which the native actions of each listener are one function.\<close>

definition is_native :: "'v action \<Rightarrow> bool" where
  "is_native a = (case a of Native _ \<Rightarrow> True | _ \<Rightarrow> False)"

fun native_action :: "'v \<Rightarrow> 'v \<Rightarrow> 'v action \<Rightarrow> (world, unit) comp" where
  "native_action old_value new_value (Native f) = f old_value new_value"
| "native_action old_value new_value _ = return ()"

definition native_cb :: "'v script_cb \<Rightarrow> 'v on_change_cb" where
  "native_cb = map_option (\<lambda>script old_value new_value. for_each script (native_action old_value new_value))"

definition flatten :: "'v rsystem \<Rightarrow> 'v system" where
  "flatten s = (rs_sys s)\<lparr>vars := (\<lambda>p. (vars (rs_sys s) p)
     \<lparr>cv_cbs := map (\<lambda>i. (fst i, native_cb (snd i))) (rs_cbs s p)\<rparr>)\<rparr>"

definition native_listeners :: "(u64, 'v script_cb) omap \<Rightarrow> bool" where
  "native_listeners m = (\<forall>i\<in>set m. \<forall>script. snd i = Some script \<longrightarrow> list_all is_native script)"

abbreviation in_rworld :: "(world, 'a) comp \<Rightarrow> ('v rsystem, 'a) comp" where
  "in_rworld m \<equiv> in_sys (in_world m)"

lemma in_rworld_apply:
  "in_rworld m s = (case m (sys_world (rs_sys s)) of
     (r, w) \<Rightarrow> (r, s\<lparr>rs_sys := (rs_sys s)\<lparr>sys_world := w\<rparr>\<rparr>))"
  by (simp add: in_sys_def in_world_def split: prod.split)

lemma for_each_Cons:
  "for_each (x # xs) f s = (case f x s of (Inl e, t) \<Rightarrow> (Inl e, t) | (Inr _, t) \<Rightarrow> for_each xs f t)"
  by (simp add: bind_comp_apply)

lemma in_rworld_Cons:
  "in_rworld (for_each (x # xs) f) s =
     (case in_rworld (f x) s of (Inl e, t) \<Rightarrow> (Inl e, t) | (Inr _, t) \<Rightarrow> in_rworld (for_each xs f) t)"
  by (simp add: in_rworld_apply bind_comp_apply split: prod.split sum.split)

lemma in_rworld_return [simp]: "in_rworld (return x) s = (Inr x, s)"
  by (simp add: in_rworld_apply return_apply)

lemma native_script:
  "list_all is_native script \<Longrightarrow>
     for_each script (run_action assign p v) s =
     in_rworld (for_each script (native_action (getValue p (rs_sys s)) v)) s"
proof (induction script arbitrary: s)
  case (Cons a script)
  then obtain f where a: "a = Native f" by (cases a) (simp_all add: is_native_def)
  have "getValue p (rs_sys t) = getValue p (rs_sys s)" if "in_rworld (f (getValue p (rs_sys s)) v) s = (r, t)" for r t
    using that by (auto simp: in_rworld_apply getValue_def split: prod.splits)
  with Cons a show ?case
    by (auto simp: for_each_Cons [where s = s] in_rworld_Cons [where s = s] simp del: for_each.simps split: prod.split sum.split)
qed (simp add: return_apply)

lemma native_call:
  assumes "map_of (rs_cbs s p) k = Some cb" and "\<And>script. cb = Some script \<Longrightarrow> list_all is_native script"
  shows "call_listener assign p v k s = in_rworld (call_cb (native_cb cb) (getValue p (rs_sys s)) v) s"
proof (cases cb)
  case None
  with assms(1) show ?thesis
    by (simp add: call_listener_def native_cb_def in_rworld_apply throw_apply)
next
  case (Some script)
  have kept: "rs_erased t = rs_erased s" if "in_rworld m s = (r, t)" for m :: "(world, unit) comp" and r t
    using that by (auto simp: in_rworld_apply split: prod.splits)
  from Some assms kept show ?thesis
    by (auto simp: call_listener_def native_cb_def native_script bind_comp_apply split: prod.split sum.split)
qed

lemma after_next:
  assumes "omap_ok m" and "filter (after pos) m = i # es"
  shows "filter (after (Some (fst i))) m = es"
proof -
  have i: "after pos i" using assms(2) by (auto simp: filter_eq_Cons_iff)
  have "filter (after (Some (fst i))) m = filter (after (Some (fst i))) (filter (after pos) m)"
    using i by (auto simp: after_def intro!: filter_cong split: option.splits)
  moreover have "sorted_wrt (\<lambda>x y. fst x < fst y) (filter (after pos) m)"
    using assms(1) by (auto simp: omap_ok_def sorted_wrt_map intro: sorted_wrt_filter)
  ultimately show ?thesis using assms(2) by (simp add: after_def)
qed

lemma native_loop:
  assumes "omap_ok (rs_cbs s p)" and "native_listeners (rs_cbs s p)" and "filter (after pos) (rs_cbs s p) = es"
  shows "notify (call_listener assign p v) p pos s =
    in_rworld (for_each es (\<lambda>i. call_cb (native_cb (snd i)) (getValue p (rs_sys s)) v)) s"
  using assms
proof (induction es arbitrary: pos s)
  case (Cons i es)
  let ?m = "call_cb (native_cb (snd i)) (getValue p (rs_sys s)) v"
  have i: "i \<in> set (rs_cbs s p)" using Cons.prems(3) by (auto simp: filter_eq_Cons_iff)
  then have "map_of (rs_cbs s p) (fst i) = Some (snd i)"
    using map_of_in_omap [OF Cons.prems(1), of "fst i" "snd i"] by simp
  then have call: "call_listener assign p v (fst i) s = in_rworld ?m s"
    using Cons.prems(2) i by (intro native_call) (auto simp: native_listeners_def)
  have kept: "rs_cbs t = rs_cbs s \<and> getValue p (rs_sys t) = getValue p (rs_sys s)" if "in_rworld ?m s = (r, t)" for r t
    using that by (auto simp: in_rworld_apply getValue_def split: prod.splits)
  have rest: "notify (call_listener assign p v) p (Some (fst i)) t =
      in_rworld (for_each es (\<lambda>i. call_cb (native_cb (snd i)) (getValue p (rs_sys s)) v)) t"
    if "in_rworld ?m s = (r, t)" for r t
    using Cons.IH [of t "Some (fst i)"] Cons.prems kept [OF that] after_next [OF Cons.prems(1,3)] by simp
  have "next_key pos (rs_cbs s p) = Some (fst i)" by (simp add: next_key_def Cons.prems(3))
  then show ?case
    using rest
    by (auto simp: notify.simps [of _ p pos s] call in_rworld_Cons [where s = s] simp del: for_each.simps
        split: prod.split sum.split)
qed (simp add: return_apply notify.simps next_key_def)

lemma for_each_map: "for_each (map h xs) f = for_each xs (\<lambda>x. f (h x))"
  by (induction xs) simp_all

lemma flatten_simps [simp]:
  "cv_type (vars (flatten s) p) = cv_type (vars (rs_sys s) p)" "getValue p (flatten s) = getValue p (rs_sys s)"
  "cv_val (vars (flatten s) p) = getValue p (rs_sys s)" "sys_world (flatten s) = sys_world (rs_sys s)"
  "cv_cbs (vars (flatten s) p) = map (\<lambda>i. (fst i, native_cb (snd i))) (rs_cbs s p)"
  by (simp_all add: flatten_def getValue_def)

lemma flatten_world: "flatten (s\<lparr>rs_sys := (rs_sys s)\<lparr>sys_world := w\<rparr>\<rparr>) = (flatten s)\<lparr>sys_world := w\<rparr>"
  by (simp add: flatten_def)

lemma flatten_value:
  "flatten (s\<lparr>rs_sys := (rs_sys s)\<lparr>sys_world := w,
     vars := (vars (rs_sys s))(p := (vars (rs_sys s) p)\<lparr>cv_val := v\<rparr>)\<rparr>\<rparr>) =
   (flatten s)\<lparr>sys_world := w, vars := (vars (flatten s))(p := (vars (flatten s) p)\<lparr>cv_val := v\<rparr>)\<rparr>"
  by (simp add: flatten_def fun_eq_iff)

text \<open>
  When no listener of the variable calls back, one level of calls is enough and \<open>setValue\<close> here
  and in \<open>Config\<close> have the same outcome and lead to the same state.
\<close>

lemma reentrant_agrees:
  assumes "omap_ok (rs_cbs s p)" and "native_listeners (rs_cbs s p)"
  shows "map_prod id flatten (setValue_fuel (Suc n) p v s) = setValue p v (flatten s)"
proof (cases "ct_eq (cv_type (vars (rs_sys s) p)) v (getValue p (rs_sys s))")
  case True
  then show ?thesis by (simp add: setValue_def)
next
  case False
  have "filter (after None) (rs_cbs s p) = rs_cbs s p" by (simp add: after_def)
  note loop = native_loop [OF assms this, of "setValue_fuel n" v]
  have run: "run_cbs (vars (flatten s) p) v =
      for_each (rs_cbs s p) (\<lambda>i. call_cb (native_cb (snd i)) (getValue p (rs_sys s)) v)"
    by (simp add: run_cbs_def for_each_map)
  show ?thesis
    using False
    by (simp add: setValue_def loop run bind_comp_apply in_rworld_apply in_world_def modify_apply in_sys_def
        flatten_world flatten_value getValue_def split: prod.split sum.split)
qed

text \<open>Two variables of strings; the first passes its new value on to the second.\<close>

definition pair_system :: "(var_ptr \<Rightarrow> (u64, string script_cb) omap) \<Rightarrow> string rsystem" where
  "pair_system cbs =
     \<lparr>rs_sys = \<lparr>sys_world = first_world,
        vars = (\<lambda>_. ConfigVar (base_type ''s'' Inr Inr (=)) ''a'' ''old'' []), next_var = 2, datas = []\<rparr>,
      rs_cbs = cbs, rs_erased = (\<lambda>_ _. 0)\<rparr>"

definition forward :: "var_ptr \<Rightarrow> string script_cb" where
  "forward q = Some [Native (\<lambda>_ _. return ()), Set_Value q (\<lambda>_ new_value. new_value)]"

lemma pair_system_simps [simp]:
  "rs_cbs (pair_system cbs) = cbs" "getValue p (rs_sys (pair_system cbs)) = ''old''"
  "ct_eq (cv_type (vars (rs_sys (pair_system cbs)) p)) = (=)"
  by (simp_all add: pair_system_def getValue_def ConfigVar_def base_type_def)





section \<open>Listeners that set variables of lower rank\<close>

fun action_ranked :: "(var_ptr \<Rightarrow> nat) \<Rightarrow> var_ptr \<Rightarrow> 'v action \<Rightarrow> bool" where
  "action_ranked r p (Native f) = (\<forall>old_value new_value w. \<not> overflows (f old_value new_value w))"
| "action_ranked r p (Set_Value q _) = (r q < r p)"
| "action_ranked r p (Add_Listener q _ cb) =
     (\<forall>script. cb = Some script \<longrightarrow> (\<forall>a\<in>set script. action_ranked r q a))"
| "action_ranked r p (Del_Listener _ _) = True"
| "action_ranked r p (Clean_Listener _) = True"

definition ranked :: "(var_ptr \<Rightarrow> nat) \<Rightarrow> 'v rsystem \<Rightarrow> bool" where
  "ranked r s =
     (\<forall>p k script. (k, Some script) \<in> set (rs_cbs s p) \<longrightarrow> (\<forall>a\<in>set script. action_ranked r p a))"

definition fine :: "(var_ptr \<Rightarrow> nat) \<Rightarrow> ('v rsystem, 'a) comp \<Rightarrow> bool" where
  "fine r m = (\<forall>s. ranked r s \<longrightarrow> ranked r (snd (m s)) \<and> \<not> overflows (m s))"

lemma fineD: "fine r m \<Longrightarrow> ranked r s \<Longrightarrow> ranked r (snd (m s)) \<and> \<not> overflows (m s)"
  by (simp add: fine_def)

lemma fine_bind: "fine r m \<Longrightarrow> (\<And>x. fine r (f x)) \<Longrightarrow> fine r (bind_comp m f)"
  unfolding fine_def bind_comp_def by (fastforce split: prod.splits sum.splits)

lemma fine_for_each: "(\<And>x. x \<in> set xs \<Longrightarrow> fine r (f x)) \<Longrightarrow> fine r (for_each xs f)"
proof (induction xs)
  case (Cons x xs)
  then show ?case by (simp add: fine_bind)
qed (simp add: fine_def return_apply)

lemma ranked_listeners:
  assumes "ranked r s"
    and "\<And>k script. (k, Some script) \<in> set m \<Longrightarrow>
      (k, Some script) \<in> set (rs_cbs s q) \<or> (\<forall>a\<in>set script. action_ranked r q a)"
  shows "ranked r (s\<lparr>rs_cbs := (rs_cbs s)(q := m)\<rparr>)"
  using assms unfolding ranked_def by (fastforce split: if_splits)

lemma ranked_erase [simp]: "ranked r s \<Longrightarrow> ranked r (erase_cbs q gone s)"
  by (auto simp: ranked_def erase_cbs_def)

lemma ranked_sys [simp]: "ranked r (s\<lparr>rs_sys := t\<rparr>) = ranked r s"
  by (simp add: ranked_def)

lemma fine_action:
  assumes "action_ranked r p a" and "\<And>q w. r q < r p \<Longrightarrow> fine r (assign q w)"
  shows "fine r (run_action assign p v a)"
proof (cases a)
  case (Native f)
  with assms(1) have "\<not> overflows (f old_value v w)" for old_value w by simp
  with Native show ?thesis by (simp add: fine_def in_rworld_apply split: prod.split) (metis fst_conv)
next
  case (Add_Listener q k cb)
  have "ranked r (upd_cbs q (omap_put k cb) s)" if "ranked r s" for s
  proof (rule ranked_listeners [OF that])
    fix j script
    assume "(j, Some script) \<in> set (omap_put k cb (rs_cbs s q))"
    then have "(j, Some script) \<in> set (rs_cbs s q) \<or> cb = Some script"
      using set_omap_put [of k cb "rs_cbs s q"] by auto
    with assms(1) Add_Listener
    show "(j, Some script) \<in> set (rs_cbs s q) \<or> (\<forall>a\<in>set script. action_ranked r q a)" by auto
  qed
  with Add_Listener show ?thesis by (simp add: fine_def modify_apply)
qed (use assms in \<open>auto simp: fine_def modify_apply intro!: ranked_listeners\<close>)

lemma fine_call:
  assumes "\<And>q w. r q < r p \<Longrightarrow> fine r (assign q w)"
  shows "fine r (call_listener assign p v k)"
  unfolding fine_def
proof (intro allI impI)
  fix s :: "'a rsystem"
  assume s: "ranked r s"
  show "ranked r (snd (call_listener assign p v k s)) \<and> \<not> overflows (call_listener assign p v k s)"
  proof (cases "map_of (rs_cbs s p) k")
    case (Some cb)
    show ?thesis
    proof (cases cb)
      case script: (Some script)
      then have "\<forall>a\<in>set script. action_ranked r p a"
        using s map_of_SomeD [OF Some] by (auto simp: ranked_def)
      then have body: "fine r (bind_comp (for_each script (run_action assign p v))
          (\<lambda>_ t. if rs_erased t p k \<noteq> rs_erased s p k then (Inl (Undefined Dangling_Access), t) else (Inr (), t)))"
        by (intro fine_bind fine_for_each fine_action assms) (auto simp: fine_def)
      have eq: "call_listener assign p v k s = bind_comp (for_each script (run_action assign p v))
          (\<lambda>_ t. if rs_erased t p k \<noteq> rs_erased s p k then (Inl (Undefined Dangling_Access), t) else (Inr (), t)) s"
        by (simp add: call_listener_def Some script)
      show ?thesis unfolding eq by (rule fineD [OF body s])
    qed (use s Some in \<open>simp add: call_listener_def\<close>)
  qed (use s in \<open>simp add: call_listener_def\<close>)
qed

lemma fine_notify:
  assumes "\<And>k. fine r (call k)"
  shows "fine r (notify call p pos)"
proof -
  have "ranked r s \<longrightarrow> ranked r (snd (notify call p pos s)) \<and> \<not> overflows (notify call p pos s)" for s
    using assms
  proof (induction call p pos s rule: notify.induct)
    case (1 call p pos s)
    show ?case
    proof (cases "next_key pos (rs_cbs s p)")
      case (Some k)
      obtain q t where call: "call k s = (q, t)" by fastforce
      with "1.prems" [of k] have "ranked r s \<longrightarrow> ranked r t \<and> q \<noteq> Inl (Undefined Stack_Overflow)"
        by (auto simp: fine_def)
      with Some call "1.IH" [OF Some call [symmetric] _ "1.prems"] show ?thesis
        by (cases q) (auto simp: notify.simps [of _ p pos s])
    qed (simp add: notify.simps [of _ p pos s])
  qed
  then show ?thesis by (simp add: fine_def)
qed

lemma fine_setValue: "r p < n \<Longrightarrow> fine r (setValue_fuel n p v)"
proof (induction n arbitrary: p v)
  case (Suc n)
  have calls: "fine r (call_listener (setValue_fuel n) p v k)" for k
    using Suc by (intro fine_call) simp
  have body: "fine r (bind_comp (notify (call_listener (setValue_fuel n) p v) p None)
      (\<lambda>_. in_sys (modify (upd_var p (cv_val_update (\<lambda>_. v))))))"
    by (intro fine_bind fine_notify calls) (simp add: fine_def in_sys_def modify_apply)
  show ?case
    unfolding fine_def setValue_fuel.simps using fineD [OF body] by auto
qed simp

text \<open>
  C23. If every variable has a rank and its listeners only set variables of lower rank, \<open>setValue\<close>
  always returns: its calls nest no deeper than the rank of the variable, and more room for nested
  calls changes nothing.
\<close>

theorem ranked_listeners_return:
  assumes "ranked r s" and "r p < n"
  shows "fst (setValue_fuel n p v s) \<noteq> Inl (Undefined Stack_Overflow) \<and>
    setValue_fuel n p v s = setValue_fuel (Suc (r p)) p v s"
proof
  show "fst (setValue_fuel n p v s) \<noteq> Inl (Undefined Stack_Overflow)"
    using fineD [OF fine_setValue [where r = r and p = p, OF assms(2)] assms(1)] by simp
  have "fst (setValue_fuel (Suc (r p)) p v s) \<noteq> Inl (Undefined Stack_Overflow)"
    using fineD [OF fine_setValue [where r = r and p = p and n = "Suc (r p)"] assms(1)] by simp
  then show "setValue_fuel n p v s = setValue_fuel (Suc (r p)) p v s"
    using assms(2) by (intro more_fuel) simp_all
qed

theorem ranked_listeners_return_witness:
  "fst (setValue_fuel 5 0 ''new'' (pair_system (\<lambda>p. if p = 0 then [(7, forward 1)] else []))) \<noteq>
     Inl (Undefined Stack_Overflow) \<and>
   getValue 1 (rs_sys (snd (setValue_fuel 2 0 ''new''
     (pair_system (\<lambda>p. if p = 0 then [(7, forward 1)] else []))))) = ''new''"
proof -
  let ?s = "pair_system (\<lambda>p. if p = 0 then [(7, forward 1)] else [])"
  let ?r = "\<lambda>p::nat. if p = 0 then 1 else 0 :: nat"
  have rank: "ranked ?r ?s"
    by (auto simp: ranked_def forward_def return_apply split: if_splits)
  have enough: "?r 0 < 5" by simp
  have "fst (setValue_fuel 5 0 ''new'' ?s) \<noteq> Inl (Undefined Stack_Overflow)"
    by (rule conjunct1 [OF ranked_listeners_return [where r = ?r, OF rank enough]])
  moreover have "getValue 1 (rs_sys (snd (setValue_fuel 2 0 ''new'' ?s))) = ''new''"
    by (simp add: eval_nat_numeral notify.simps next_key_def after_def call_listener_def forward_def bind_comp_apply in_sys_def in_world_def
        return_apply modify_apply pair_system_def getValue_def ConfigVar_def base_type_def)
  ultimately show ?thesis by (rule conjI)
qed

section \<open>Listeners that cannot work\<close>

text \<open>
  C32. The value is assigned after the listeners have run, so inside them the variable still has its
  old value. Two variables whose listeners pass the new value on to each other (or one variable whose
  listener sets it) never come to an end: every call of \<open>setValue\<close> with a changed value recurses until
  the stack is exhausted, however large it is.
\<close>

theorem forwarding_cycle_diverges:
  assumes "rs_cbs s p = (k, Some (Set_Value q (\<lambda>_ new_value. new_value) # as)) # cs"
    and "rs_cbs s q = (j, Some (Set_Value p (\<lambda>_ new_value. new_value) # bs)) # ds"
    and "\<not> ct_eq (cv_type (vars (rs_sys s) p)) v (getValue p (rs_sys s))"
    and "\<not> ct_eq (cv_type (vars (rs_sys s) q)) v (getValue q (rs_sys s))"
  shows "fst (setValue_fuel n p v s) = Inl (Undefined Stack_Overflow)"
proof -
  have "setValue_fuel n p v s = (Inl (Undefined Stack_Overflow), s) \<and>
      setValue_fuel n q v s = (Inl (Undefined Stack_Overflow), s)"
    using assms by (induction n) (simp_all add: throw_apply notify.simps next_key_def after_def call_listener_def bind_comp_apply)
  then show ?thesis by simp
qed

theorem forwarding_cycle_diverges_witness:
  "fst (setValue_fuel 1000 0 ''new''
     (pair_system (\<lambda>p. [(7, Some [Set_Value (1 - p) (\<lambda>_ new_value. new_value)])]))) =
   Inl (Undefined Stack_Overflow)"
  by (rule forwarding_cycle_diverges [where q = 1]) simp_all

text \<open>Actions that only add and remove listeners.\<close>

fun registers_only :: "'v action \<Rightarrow> bool" where
  "registers_only (Native _) = False"
| "registers_only (Set_Value _ _) = False"
| "registers_only _ = True"

lemma registrations_run:
  "list_all registers_only as \<Longrightarrow> \<exists>u. for_each as (run_action assign p v) s = (Inr (), u) \<and>
     rs_sys u = rs_sys s \<and> rs_erased s q k \<le> rs_erased u q k"
proof (induction as arbitrary: s)
  case (Cons a as)
  then obtain t where t: "run_action assign p v a s = (Inr (), t)" "rs_sys t = rs_sys s"
    "rs_erased s q k \<le> rs_erased t q k"
    by (cases a) (auto simp: modify_apply erase_cbs_def)
  with Cons.IH [of t] Cons.prems show ?case by (force simp: bind_comp_apply)
qed (simp add: return_apply)

text \<open>
  C33. A listener that removes itself when it is called erases the element the loop stands on: the
  loop's next step is undefined, and the new value is never assigned. This holds whatever else the listener
  does outside the module before, and also when it, or another listener, is registered afterwards.
\<close>

theorem self_removal_undefined:
  assumes "rs_cbs s p = (k, Some (Native f # Del_Listener p k # as)) # cs"
    and "list_all registers_only as"
    and "f (getValue p (rs_sys s)) v (sys_world (rs_sys s)) = (Inr (), w)"
    and "\<not> ct_eq (cv_type (vars (rs_sys s) p)) v (getValue p (rs_sys s))"
  shows "fst (setValue_fuel (Suc n) p v s) = Inl (Undefined Dangling_Access) \<and>
    getValue p (rs_sys (snd (setValue_fuel (Suc n) p v s))) = getValue p (rs_sys s)"
proof -
  let ?s1 = "s\<lparr>rs_sys := (rs_sys s)\<lparr>sys_world := w\<rparr>\<rparr>"
  let ?s2 = "erase_cbs p (\<lambda>j. j = k) ?s1"
  have first: "in_rworld (f (getValue p (rs_sys s)) v) s = (Inr (), ?s1)" by (simp add: in_rworld_apply assms(3))
  obtain u where u: "for_each as (run_action (setValue_fuel n) p v) ?s2 = (Inr (), u)" "rs_sys u = rs_sys ?s2"
    "rs_erased ?s2 p k \<le> rs_erased u p k" using registrations_run [OF assms(2)] by blast
  then have "call_listener (setValue_fuel n) p v k s = (Inl (Undefined Dangling_Access), u)"
    using first assms(1) by (simp add: call_listener_def bind_comp_apply modify_apply erase_cbs_def)
  then have "setValue_fuel (Suc n) p v s = (Inl (Undefined Dangling_Access), u)"
    using assms(1,4) by (simp add: notify.simps [of _ p None] next_key_def after_def bind_comp_apply)
  then show ?thesis using u(2) by (simp add: getValue_def erase_cbs_def del: setValue_fuel.simps)
qed

theorem self_removal_undefined_witness:
  "fst (setValue_fuel 1 0 ''new'' (pair_system (\<lambda>_. [(7, Some [Native (\<lambda>_ _. return ()), Del_Listener 0 7,
     Add_Listener 0 7 None])]))) = Inl (Undefined Dangling_Access)"
  using self_removal_undefined
    [where s = "pair_system (\<lambda>_. [(7, Some [Native (\<lambda>_ _. return ()), Del_Listener 0 7, Add_Listener 0 7 None])])"
      and n = 0 and p = 0 and as = "[Add_Listener 0 7 None]"
      and v = "''new''" and w = first_world]
  by (simp add: return_apply pair_system_def getValue_def ConfigVar_def base_type_def
      del: setValue_fuel.simps)

end
