(* ===== verification/Log_Define.thy ===== *)
theory Log_Define
  imports Config_Properties
begin

text \<open>
  The configuration of the logging module in \<open>sylar/log.cc\<close>: \<open>LogAppenderDefine\<close> and
  \<open>LogDefine\<close> with their comparisons, their casts from and to YAML text, and the YAML text of
  appenders, loggers and the manager; the round trip of the casts and what the text loses.
\<close>

section \<open>Definitions of loggers and appenders\<close>

record log_appender_define =
  lad_type :: int               \<comment> \<open>1 File, 2 Stdout\<close>
  lad_level :: level
  lad_formatter :: string
  lad_file :: string

record log_define =
  ld_name :: string
  ld_level :: level
  ld_formatter :: string
  ld_appenders :: "log_appender_define list"

definition lad_eq :: "log_appender_define \<Rightarrow> log_appender_define \<Rightarrow> bool" where
  "lad_eq a oth =
     (lad_type a = lad_type oth \<and> lad_level a = lad_level oth \<and> lad_formatter a = lad_formatter oth \<and>
      lad_file a = lad_file oth)"

text \<open>\<open>operator==\<close> of \<open>std::vector\<close> and \<open>std::set\<close>: the same length, and the elements in order.\<close>

definition seq_eq :: "('a \<Rightarrow> 'a \<Rightarrow> bool) \<Rightarrow> 'a list \<Rightarrow> 'a list \<Rightarrow> bool" where
  "seq_eq eq xs ys = list_all2 eq xs ys"

text \<open>\<open>LogDefine::operator==\<close> compares \<open>appenders == appenders\<close>, both of this object.\<close>

definition ld_eq :: "log_define \<Rightarrow> log_define \<Rightarrow> bool" where
  "ld_eq d oth =
     (ld_name d = ld_name oth \<and> ld_level d = ld_level oth \<and> ld_formatter d = ld_formatter oth \<and>
      seq_eq lad_eq (ld_appenders d) (ld_appenders d))"

definition ld_less :: "log_define \<Rightarrow> log_define \<Rightarrow> bool" where
  "ld_less d oth = (ld_name d < ld_name oth)"

definition isValid :: "log_define \<Rightarrow> bool" where
  "isValid d = (ld_name d \<noteq> [])"

section \<open>Casts\<close>

definition endl :: string where
  "endl = [CHR 0x0A]"

text \<open>\<open>n["k"].IsDefined() ? n["k"].as<std::string>() : d\<close>.\<close>

definition field_or :: "yaml_lib \<Rightarrow> yaml \<Rightarrow> string \<Rightarrow> string \<Rightarrow> ('w, string) comp" where
  "field_or Y n k d =
     bind_comp (lib_call (y_get Y n k))
       (\<lambda>v. if IsDefined v then lib_call (y_as_string Y v) else return d)"

definition log_config_error :: "yaml_lib \<Rightarrow> string \<Rightarrow> yaml \<Rightarrow> (world, unit) comp" where
  "log_config_error Y msg n = modify (print (''log config error: '' @ msg @ y_emit Y n @ endl))"

text \<open>The body of the loop over the appenders: \<open>None\<close> is a \<open>continue\<close>.\<close>

definition read_appender :: "yaml_lib \<Rightarrow> yaml \<Rightarrow> (world, log_appender_define option) comp" where
  "read_appender Y a =
     bind_comp (lib_call (y_get Y a ''type'')) (\<lambda>t.
     if \<not> IsDefined t then
       bind_comp (log_config_error Y ''appender type is null, '' a) (\<lambda>_. return None)
     else
       bind_comp (lib_call (y_as_string Y t)) (\<lambda>type.
       if type = ''FileLogAppender'' then
         bind_comp (lib_call (y_get Y a ''file'')) (\<lambda>f.
         if \<not> IsDefined f then
           bind_comp (log_config_error Y ''fileappender file is null, '' a) (\<lambda>_. return None)
         else
           bind_comp (lib_call (y_as_string Y f)) (\<lambda>file.
           bind_comp (field_or Y a ''formatter'' []) (\<lambda>fmt.
           return (Some \<lparr>lad_type = 1, lad_level = UNKNOW, lad_formatter = fmt, lad_file = file\<rparr>))))
       else if type = ''StdoutLogAppender'' then
         bind_comp (field_or Y a ''formatter'' []) (\<lambda>fmt.
         return (Some \<lparr>lad_type = 2, lad_level = UNKNOW, lad_formatter = fmt, lad_file = []\<rparr>))
       else
         bind_comp (log_config_error Y ''appender type is invalid, '' a) (\<lambda>_. return None)))"

fun read_appenders ::
  "yaml_lib \<Rightarrow> yaml \<Rightarrow> nat list \<Rightarrow> log_appender_define list \<Rightarrow> (world, log_appender_define list) comp" where
  "read_appenders Y node [] acc = return acc"
| "read_appenders Y node (x # xs) acc =
     bind_comp (lib_call (y_at Y node x)) (\<lambda>a.
     bind_comp (read_appender Y a) (\<lambda>r.
     read_appenders Y node xs (case r of None \<Rightarrow> acc | Some lad \<Rightarrow> acc @ [lad])))"

definition LogDefine_from_string :: "yaml_lib \<Rightarrow> (world, log_define) from_str" where
  "LogDefine_from_string Y v =
     bind_comp (lib_call (y_load Y v)) (\<lambda>n.
     bind_comp (lib_call (y_get Y n ''name'')) (\<lambda>m.
     if \<not> IsDefined m then
       bind_comp (log_config_error Y ''name is null, '' n)
         (\<lambda>_. throw (Std_Exception ''log config name is null''))
     else
       bind_comp (lib_call (y_as_string Y m)) (\<lambda>name.
       bind_comp (field_or Y n ''level'' []) (\<lambda>lv.
       bind_comp (field_or Y n ''formatter'' []) (\<lambda>fmt.
       bind_comp (lib_call (y_get Y n ''appenders'')) (\<lambda>as.
       bind_comp (if IsDefined as then read_appenders Y as [0..<y_size Y as] [] else return []) (\<lambda>lads.
       return \<lparr>ld_name = name, ld_level = FromString lv, ld_formatter = fmt, ld_appenders = lads\<rparr>)))))))"

text \<open>\<open>n["k"].push_back(v)\<close>.\<close>

definition push_field :: "yaml_lib \<Rightarrow> string \<Rightarrow> yaml \<Rightarrow> yaml \<Rightarrow> ('w, yaml) comp" where
  "push_field Y k v n = bind_comp (lib_call (y_get Y n k)) (\<lambda>l. return (y_set Y n k (y_push Y l v)))"

definition set_if :: "yaml_lib \<Rightarrow> bool \<Rightarrow> string \<Rightarrow> string \<Rightarrow> yaml \<Rightarrow> yaml" where
  "set_if Y b k s n = (if b then y_set Y n k (YScalar s) else n)"

definition appender_define_yaml :: "yaml_lib \<Rightarrow> log_appender_define \<Rightarrow> yaml" where
  "appender_define_yaml Y a =
     (let na = (if lad_type a = 1 then
                  y_set Y (y_set Y YNull ''type'' (YScalar ''FileLogAppender'')) ''file'' (YScalar (lad_file a))
                else if lad_type a = 2 then y_set Y YNull ''type'' (YScalar ''StdoutLogAppender'')
                else YNull)
      in set_if Y (lad_formatter a \<noteq> []) ''formatter'' (lad_formatter a)
           (set_if Y (lad_level a \<noteq> UNKNOW) ''level'' (ToString (lad_level a)) na))"

fun push_appenders :: "yaml_lib \<Rightarrow> yaml list \<Rightarrow> yaml \<Rightarrow> ('w, yaml) comp" where
  "push_appenders Y [] n = return n"
| "push_appenders Y (a # as) n = bind_comp (push_field Y ''appenders'' a n) (push_appenders Y as)"

definition LogDefine_to_string :: "yaml_lib \<Rightarrow> ('w, log_define) to_str" where
  "LogDefine_to_string Y i =
     bind_comp (push_appenders Y (map (appender_define_yaml Y) (ld_appenders i))
         (set_if Y (ld_formatter i \<noteq> []) ''formatter'' (ld_formatter i)
           (set_if Y (ld_level i \<noteq> UNKNOW) ''level'' (ToString (ld_level i))
             (y_set Y YNull ''name'' (YScalar (ld_name i))))))
       (\<lambda>n. return (y_emit Y n))"

section \<open>The YAML text of the objects\<close>

definition appender_toYamlString :: "yaml_lib \<Rightarrow> log_appender \<Rightarrow> string" where
  "appender_toYamlString Y a =
     (let node = (case la_class a of
            StdoutLogAppender \<Rightarrow> y_set Y YNull ''type'' (YScalar ''StdoutLogAppender'')
          | FileLogAppender fn _ \<Rightarrow>
              y_set Y (y_set Y YNull ''type'' (YScalar ''FileLogAppender'')) ''file'' (YScalar fn));
          node = y_set Y node ''level'' (YScalar (ToString (la_level a)));
          node = (case la_formatter a of
              Some f \<Rightarrow> if la_hasFormatter a then y_set Y node ''formatter'' (YScalar (getPattern f)) else node
            | None \<Rightarrow> node)
      in y_emit Y node)"

fun load_all :: "yaml_lib \<Rightarrow> string list \<Rightarrow> (yaml \<Rightarrow> yaml \<Rightarrow> ('w, yaml) comp) \<Rightarrow> yaml \<Rightarrow> ('w, yaml) comp" where
  "load_all Y [] push n = return n"
| "load_all Y (t # ts) push n =
     bind_comp (lib_call (y_load Y t)) (\<lambda>v. bind_comp (push v n) (load_all Y ts push))"

definition Logger_toYamlString :: "yaml_lib \<Rightarrow> logger_ptr \<Rightarrow> (world, string) comp" where
  "Logger_toYamlString Y l = (\<lambda>w.
     let lg = loggers w l;
         node = y_set Y (y_set Y YNull ''name'' (YScalar (lg_name lg))) ''level'' (YScalar (ToString (lg_level lg)));
         node = (case lg_formatter lg of
                   Some f \<Rightarrow> y_set Y node ''formatter'' (YScalar (getPattern f)) | None \<Rightarrow> node)
     in bind_comp
          (load_all Y (map (\<lambda>ap. appender_toYamlString Y (appenders w ap)) (lg_appenders lg))
             (push_field Y ''appenders'') node)
          (\<lambda>n. return (y_emit Y n)) w)"

fun logger_nodes :: "yaml_lib \<Rightarrow> logger_ptr list \<Rightarrow> yaml \<Rightarrow> (world, yaml) comp" where
  "logger_nodes Y [] n = return n"
| "logger_nodes Y (l # ls) n =
     bind_comp (Logger_toYamlString Y l) (\<lambda>t.
     bind_comp (lib_call (y_load Y t)) (\<lambda>v. logger_nodes Y ls (y_push Y n v)))"

definition LoggerManager_toYamlString :: "yaml_lib \<Rightarrow> (world, string) comp" where
  "LoggerManager_toYamlString Y = (\<lambda>w.
     bind_comp (logger_nodes Y (map snd (mgr_loggers w)) YNull) (\<lambda>n. return (y_emit Y n)) w)"

section \<open>The casts read what they write\<close>

text \<open>Definitions the configuration file can express, with printable texts.\<close>

definition appender_define_ok :: "log_appender_define \<Rightarrow> bool" where
  "appender_define_ok a =
     ((lad_type a = 1 \<or> lad_type a = 2 \<and> lad_file a = []) \<and> plain (lad_file a) \<and> plain (lad_formatter a))"

definition define_ok :: "log_define \<Rightarrow> bool" where
  "define_ok d = (plain (ld_name d) \<and> plain (ld_formatter d) \<and> (\<forall>a\<in>set (ld_appenders d). appender_define_ok a))"

text \<open>What the reading cast drops: the levels of the appenders.\<close>

definition forget_levels :: "log_define \<Rightarrow> log_define" where
  "forget_levels d = d\<lparr>ld_appenders := map (lad_level_update (\<lambda>_. UNKNOW)) (ld_appenders d)\<rparr>"

lemma forget_levels_eq:
  "forget_levels d = \<lparr>ld_name = ld_name d, ld_level = ld_level d, ld_formatter = ld_formatter d,
     ld_appenders = map (lad_level_update (\<lambda>_. UNKNOW)) (ld_appenders d)\<rparr>"
  by (cases d) (simp add: forget_levels_def)

lemma plain_ToString [simp]: "plain (ToString lv)"
  by (cases lv) (simp_all add: plain_def)

lemma plain_Nil [simp]: "plain []"
  by (simp add: plain_def)

lemmas yaml_eval = map_get_def set_if_def field_or_def IsDefined_def

lemma read_appender_yaml:
  assumes laws: "yaml_laws Y" and "appender_define_ok a"
  shows "read_appender Y (appender_define_yaml Y a) = return (Some (a\<lparr>lad_level := UNKNOW\<rparr>))"
    and "printable (appender_define_yaml Y a)"
proof -
  have "plain ''type''" "plain ''file''" "plain ''level''" "plain ''formatter''"
    "plain ''FileLogAppender''" "plain ''StdoutLogAppender''"
    by (simp_all add: plain_def)
  with assms show "read_appender Y (appender_define_yaml Y a) = return (Some (a\<lparr>lad_level := UNKNOW\<rparr>))"
    and "printable (appender_define_yaml Y a)"
    by (cases a; auto simp: read_appender_def appender_define_yaml_def appender_define_ok_def Let_def
        yaml_eval yaml_simps)+
qed

lemma read_appenders_all:
  assumes laws: "yaml_laws Y"
    and "\<And>i. i < length as \<Longrightarrow> read_appender Y (ns ! (k + i)) = return (Some (f (as ! i)))"
    and "k + length as = length ns"
  shows "read_appenders Y (YSeq ns) [k..<length ns] acc = return (acc @ map f as)"
  using assms(2,3)
proof (induction as arbitrary: k acc)
  case Nil
  then show ?case by simp
next
  case (Cons a as)
  then have k: "k < length ns" by simp
  have "read_appender Y (ns ! (Suc k + i)) = return (Some (f (as ! i)))" if "i < length as" for i
    using Cons.prems(1) [of "Suc i"] that by simp
  from Cons.IH [OF this] Cons.prems
  have "read_appenders Y (YSeq ns) [Suc k..<length ns] (acc @ [f a]) = return ((acc @ [f a]) @ map f as)" by simp
  moreover have "read_appender Y (ns ! k) = return (Some (f a))" using Cons.prems(1) [of 0] by simp
  ultimately show ?case using laws k by (simp add: upt_conv_Cons yaml_simps)
qed

lemma map_set_append:
  "YScalar k \<notin> fst ` set ps \<Longrightarrow> map_set (ps @ [(YScalar k, u)]) k v = ps @ [(YScalar k, v)]"
  "YScalar k \<notin> fst ` set ps \<Longrightarrow> map_set ps k v = ps @ [(YScalar k, v)]"
  by (induction ps) auto

lemma map_get_append:
  "YScalar k \<notin> fst ` set ps \<Longrightarrow> map_get (ps @ [(YScalar k, v)]) k = v"
  "YScalar k \<notin> fst ` set ps \<Longrightarrow> map_get ps k = YUndefined"
  by (auto simp: map_get_def map_of_eq_None_iff [THEN iffD2] map_add_def split: option.split
      dest: map_of_SomeD)

lemma push_appenders_all:
  assumes laws: "yaml_laws Y" and ps: "YScalar ''appenders'' \<notin> fst ` set ps"
  shows "push_appenders Y ns (YMap (ps @ [(YScalar ''appenders'', YSeq xs)])) =
      return (YMap (ps @ [(YScalar ''appenders'', YSeq (xs @ ns))]))"
    and "push_appenders Y ns (YMap ps) =
      return (YMap (if ns = [] then ps else ps @ [(YScalar ''appenders'', YSeq ns)]))"
proof -
  have all: "push_appenders Y ns (YMap (ps @ [(YScalar ''appenders'', YSeq xs)])) =
      return (YMap (ps @ [(YScalar ''appenders'', YSeq (xs @ ns))]))" for ns xs
    using laws ps
    by (induction ns arbitrary: xs) (simp_all add: push_field_def yaml_simps map_get_append map_set_append)
  then show "push_appenders Y ns (YMap (ps @ [(YScalar ''appenders'', YSeq xs)])) =
      return (YMap (ps @ [(YScalar ''appenders'', YSeq (xs @ ns))]))" .
  show "push_appenders Y ns (YMap ps) =
      return (YMap (if ns = [] then ps else ps @ [(YScalar ''appenders'', YSeq ns)]))"
    using laws ps all [of _ "[_]"]
    by (cases ns) (simp_all add: push_field_def yaml_simps map_get_append map_set_append)
qed

text \<open>The document a definition is written as.\<close>

definition define_head :: "log_define \<Rightarrow> (yaml \<times> yaml) list" where
  "define_head d =
     (YScalar ''name'', YScalar (ld_name d)) #
     (if ld_level d = UNKNOW then [] else [(YScalar ''level'', YScalar (ToString (ld_level d)))]) @
     (if ld_formatter d = [] then [] else [(YScalar ''formatter'', YScalar (ld_formatter d))])"

definition define_yaml :: "yaml_lib \<Rightarrow> log_define \<Rightarrow> yaml" where
  "define_yaml Y d =
     YMap (if ld_appenders d = [] then define_head d
           else define_head d @ [(YScalar ''appenders'', YSeq (map (appender_define_yaml Y) (ld_appenders d)))])"

lemma head_no_appenders: "YScalar ''appenders'' \<notin> fst ` set (define_head d)"
  by (simp add: define_head_def)

lemma LogDefine_to_yaml:
  assumes laws: "yaml_laws Y"
  shows "LogDefine_to_string Y d = return (y_emit Y (define_yaml Y d))"
proof -
  have "set_if Y (ld_formatter d \<noteq> []) ''formatter'' (ld_formatter d)
      (set_if Y (ld_level d \<noteq> UNKNOW) ''level'' (ToString (ld_level d))
        (y_set Y YNull ''name'' (YScalar (ld_name d)))) = YMap (define_head d)"
    using laws by (simp add: set_if_def define_head_def yaml_simps)
  then show ?thesis
    unfolding LogDefine_to_string_def
    by (simp only: push_appenders_all(2) [OF laws head_no_appenders]) (simp add: define_yaml_def)
qed

lemma define_fields:
  "map_get ps ''name'' = YScalar (ld_name d)"
  "map_get ps ''level'' = (if ld_level d = UNKNOW then YUndefined else YScalar (ToString (ld_level d)))"
  "map_get ps ''formatter'' = (if ld_formatter d = [] then YUndefined else YScalar (ld_formatter d))"
  if "ps = define_head d \<or> ps = define_head d @ [(YScalar ''appenders'', x)]"
  using that by (auto simp: define_head_def map_get_def)

lemma FromString_Nil [simp]: "FromString [] = UNKNOW"
  by (simp add: FromString_def)

lemma read_define_yaml:
  assumes laws: "yaml_laws Y" and ok: "define_ok d" and load: "y_load Y s = Inr (define_yaml Y d)"
  shows "LogDefine_from_string Y s = return (forget_levels d)"
proof -
  let ?ns = "map (appender_define_yaml Y) (ld_appenders d)"
  have aps: "read_appenders Y (YSeq ?ns) [0..<length ?ns] [] =
      return (map (lad_level_update (\<lambda>_. UNKNOW)) (ld_appenders d))"
    using read_appenders_all [OF laws, of "ld_appenders d" ?ns 0 "lad_level_update (\<lambda>_. UNKNOW)" "[]"]
      read_appender_yaml(1) [OF laws] ok by (simp add: define_ok_def)
  obtain ps where ps: "define_yaml Y d = YMap ps" by (simp add: define_yaml_def)
  have head: "ps = define_head d \<or> ps = define_head d @ [(YScalar ''appenders'', YSeq ?ns)]"
    using ps by (auto simp: define_yaml_def split: if_splits)
  have app: "map_get ps ''appenders'' = (if ld_appenders d = [] then YUndefined else YSeq ?ns)"
    using ps by (auto simp: define_yaml_def map_get_append head_no_appenders split: if_splits)
  show ?thesis
    using laws load aps
    by (simp add: LogDefine_from_string_def ps yaml_simps define_fields [OF head] app field_or_def
        IsDefined_def forget_levels_eq)
qed

lemma define_yaml_printable:
  assumes "yaml_laws Y" "define_ok d"
  shows "printable (define_yaml Y d)"
proof -
  have "plain ''name''" "plain ''level''" "plain ''formatter''" "plain ''appenders''"
    by (simp_all add: plain_def)
  with assms read_appender_yaml(2) show ?thesis
    by (auto simp: define_yaml_def define_head_def define_ok_def)
qed

lemma LogDefine_codec:
  assumes laws: "yaml_laws Y" and "define_ok d" and "forget_levels d = d"
  shows "codec Y (LogDefine_to_string Y) (LogDefine_from_string Y) d"
proof -
  have load: "y_load Y (y_emit Y (define_yaml Y d)) = Inr (define_yaml Y d)"
    using yaml_lawsD(1) [OF laws define_yaml_printable [OF assms(1,2)]] .
  show ?thesis
    unfolding codec_def
    by (intro exI [of _ "y_emit Y (define_yaml Y d)"] exI [of _ "define_yaml Y d"] conjI)
      (simp_all add: LogDefine_to_yaml [OF laws] load define_yaml_printable [OF assms(1,2)]
        read_define_yaml [OF assms(1,2) load] assms(3))
qed

section \<open>The text of a logger as a definition\<close>

definition appender_yaml :: "log_appender \<Rightarrow> yaml" where
  "appender_yaml a =
     YMap ((case la_class a of
              StdoutLogAppender \<Rightarrow> [(YScalar ''type'', YScalar ''StdoutLogAppender'')]
            | FileLogAppender fn _ \<Rightarrow>
                [(YScalar ''type'', YScalar ''FileLogAppender''), (YScalar ''file'', YScalar fn)]) @
           [(YScalar ''level'', YScalar (ToString (la_level a)))])"

definition appender_define_of :: "log_appender \<Rightarrow> log_appender_define" where
  "appender_define_of a =
     (case la_class a of
        StdoutLogAppender \<Rightarrow> \<lparr>lad_type = 2, lad_level = UNKNOW, lad_formatter = [], lad_file = []\<rparr>
      | FileLogAppender fn _ \<Rightarrow> \<lparr>lad_type = 1, lad_level = UNKNOW, lad_formatter = [], lad_file = fn\<rparr>)"

definition plain_file :: "log_appender \<Rightarrow> bool" where
  "plain_file a = (case la_class a of StdoutLogAppender \<Rightarrow> True | FileLogAppender fn _ \<Rightarrow> plain fn)"

lemma appender_text:
  assumes laws: "yaml_laws Y" and "\<not> la_hasFormatter a" "plain_file a"
  shows "y_load Y (appender_toYamlString Y a) = Inr (appender_yaml a)"
    and "read_appender Y (appender_yaml a) = return (Some (appender_define_of a))"
    and "printable (appender_yaml a)"
proof -
  have "plain ''type''" "plain ''file''" "plain ''level''" "plain ''FileLogAppender''" "plain ''StdoutLogAppender''"
    by (simp_all add: plain_def)
  with assms(3) show p: "printable (appender_yaml a)"
    by (auto simp: appender_yaml_def plain_file_def split: appender_class.splits)
  have "appender_toYamlString Y a = y_emit Y (appender_yaml a)"
    using laws assms(2)
    by (auto simp: appender_toYamlString_def appender_yaml_def Let_def yaml_simps
        split: appender_class.split option.split)
  with yaml_lawsD(1) [OF laws p] show "y_load Y (appender_toYamlString Y a) = Inr (appender_yaml a)" by simp
  show "read_appender Y (appender_yaml a) = return (Some (appender_define_of a))"
    using laws
    by (auto simp: read_appender_def appender_yaml_def appender_define_of_def yaml_eval yaml_simps
        split: appender_class.split)
qed

lemma load_all_push:
  assumes "\<And>a. a \<in> set as \<Longrightarrow> y_load Y (f a) = Inr (g a)"
  shows "load_all Y (map f as) (push_field Y ''appenders'') n = (push_appenders Y (map g as) n :: ('w, yaml) comp)"
  using assms
proof (induction as arbitrary: n)
  case (Cons a as)
  have "load_all Y (map f as) (push_field Y ''appenders'') = (push_appenders Y (map g as) :: yaml \<Rightarrow> ('w, yaml) comp)"
    using Cons.prems by (intro ext Cons.IH) simp
  with Cons.prems show ?case by simp
qed simp

section \<open>Properties\<close>

text \<open>
  C12. A definition of a logger written by its cast is read back as it was, except for the levels
  of its appenders: they are written, but the reading cast never looks at them, so that every
  appender comes back with level UNKNOW. A set of definitions without appender levels survives the
  casts of the configuration variable \<open>logs\<close> exactly.
\<close>

theorem log_defines_round_trip:
  assumes laws: "yaml_laws Y" and ok: "\<forall>d\<in>set ds. define_ok d" and set: "set_ok ld_name ds"
  shows "(\<forall>d\<in>set ds. \<exists>s. (LogDefine_to_string Y d :: (world, string) comp) = return s \<and>
      LogDefine_from_string Y s = return (forget_levels d)) \<and>
    ((\<forall>d\<in>set ds. forget_levels d = d) \<longrightarrow>
      codec Y (set_to_string Y (LogDefine_to_string Y)) (set_from_string Y ld_name (LogDefine_from_string Y)) ds)"
proof (intro conjI ballI impI)
  fix d
  assume "d \<in> set ds"
  with ok have d: "define_ok d" by blast
  have "y_load Y (y_emit Y (define_yaml Y d)) = Inr (define_yaml Y d)"
    by (rule yaml_lawsD(1) [OF laws define_yaml_printable [OF laws d]])
  from read_define_yaml [OF laws d this] LogDefine_to_yaml [OF laws, of d]
  show "\<exists>s. (LogDefine_to_string Y d :: (world, string) comp) = return s \<and>
      LogDefine_from_string Y s = return (forget_levels d)" by blast
next
  assume "\<forall>d\<in>set ds. forget_levels d = d"
  then have "\<forall>d\<in>set ds. codec Y (LogDefine_to_string Y) (LogDefine_from_string Y) d"
    using ok LogDefine_codec [OF laws] by blast
  from ordered_set.sequence_round_trip [where key = ld_name, OF laws set this]
  show "codec Y (set_to_string Y (LogDefine_to_string Y)) (set_from_string Y ld_name (LogDefine_from_string Y)) ds"
    by (auto simp: codec_def set_to_string_def set_from_string_def)
qed

definition system_define :: "level \<Rightarrow> log_define" where
  "system_define lv = \<lparr>ld_name = ''system'', ld_level = INFO, ld_formatter = ''%d%T%m'',
     ld_appenders = [\<lparr>lad_type = 1, lad_level = lv, lad_formatter = [], lad_file = ''system.txt''\<rparr>,
       \<lparr>lad_type = 2, lad_level = UNKNOW, lad_formatter = [], lad_file = []\<rparr>]\<rparr>"

lemma system_define_ok: "define_ok (system_define lv)" "forget_levels (system_define lv) = system_define UNKNOW"
  by (simp_all add: system_define_def define_ok_def appender_define_ok_def plain_def forget_levels_def)

theorem log_defines_round_trip_witness:
  "(\<exists>s. (LogDefine_to_string codec_yaml (system_define ERROR) :: (world, string) comp) = return s \<and>
      LogDefine_from_string codec_yaml s = return (system_define UNKNOW)) \<and>
   codec codec_yaml (set_to_string codec_yaml (LogDefine_to_string codec_yaml))
     (set_from_string codec_yaml ld_name (LogDefine_from_string codec_yaml)) [system_define UNKNOW]"
  using log_defines_round_trip [OF codec_yaml_laws, of "[system_define ERROR]"]
    log_defines_round_trip [OF codec_yaml_laws, of "[system_define UNKNOW]"]
  by (simp add: system_define_ok set_ok_def)

text \<open>The text of a logger, and that it reads as a document.\<close>

definition logger_tree :: "world \<Rightarrow> logger_ptr \<Rightarrow> log_formatter \<Rightarrow> yaml" where
  "logger_tree w l f =
     (let lg = loggers w l; aps = map (\<lambda>ap. appender_yaml (appenders w ap)) (lg_appenders lg) in
      YMap ([(YScalar ''name'', YScalar (lg_name lg)), (YScalar ''level'', YScalar (ToString (lg_level lg))),
         (YScalar ''formatter'', YScalar (getPattern f))] @
        (if aps = [] then [] else [(YScalar ''appenders'', YSeq aps)])))"

definition logger_plain :: "world \<Rightarrow> logger_ptr \<Rightarrow> log_formatter \<Rightarrow> bool" where
  "logger_plain w l f =
     (lg_formatter (loggers w l) = Some f \<and> plain (lg_name (loggers w l)) \<and> plain (getPattern f) \<and>
      (\<forall>ap\<in>set (lg_appenders (loggers w l)). \<not> la_hasFormatter (appenders w ap) \<and> plain_file (appenders w ap)))"

lemma logger_text:
  assumes laws: "yaml_laws Y" and plain: "logger_plain w l f"
  shows "Logger_toYamlString Y l w = (Inr (y_emit Y (logger_tree w l f)), w)"
    and "y_load Y (y_emit Y (logger_tree w l f)) = Inr (logger_tree w l f)" and "printable (logger_tree w l f)"
proof -
  let ?lg = "loggers w l"
  let ?aps = "lg_appenders ?lg" and ?ns = "map (\<lambda>ap. appender_yaml (appenders w ap)) (lg_appenders ?lg)"
  let ?head = "[(YScalar ''name'', YScalar (lg_name ?lg)), (YScalar ''level'', YScalar (ToString (lg_level ?lg))),
    (YScalar ''formatter'', YScalar (getPattern f))]"
  have tree: "logger_tree w l f = YMap (if ?ns = [] then ?head else ?head @ [(YScalar ''appenders'', YSeq ?ns)])"
    by (simp add: logger_tree_def Let_def)
  have ap: "\<not> la_hasFormatter (appenders w ap)" "plain_file (appenders w ap)" if "ap \<in> set ?aps" for ap
    using that plain by (auto simp: logger_plain_def)
  note tx = appender_text [OF laws ap]
  have "load_all Y (map (\<lambda>ap. appender_toYamlString Y (appenders w ap)) ?aps) (push_field Y ''appenders'')
      (YMap ?head) = (push_appenders Y ?ns (YMap ?head) :: (world, yaml) comp)"
    by (rule load_all_push) (rule tx(1))
  also have "push_appenders Y ?ns (YMap ?head) = return (logger_tree w l f)"
    unfolding tree by (rule push_appenders_all(2) [OF laws]) simp
  finally have "load_all Y (map (\<lambda>ap. appender_toYamlString Y (appenders w ap)) ?aps)
      (push_field Y ''appenders'') (YMap ?head) = (return (logger_tree w l f) :: (world, yaml) comp)" .
  then show "Logger_toYamlString Y l w = (Inr (y_emit Y (logger_tree w l f)), w)"
    using laws plain by (simp add: Logger_toYamlString_def logger_plain_def Let_def yaml_simps return_apply)
  have "plain ''name''" "plain ''level''" "plain ''formatter''" "plain ''appenders''"
    by (simp_all add: plain_def)
  then show print: "printable (logger_tree w l f)"
    using plain tx(3) unfolding tree by (auto simp: logger_plain_def)
  show "y_load Y (y_emit Y (logger_tree w l f)) = Inr (logger_tree w l f)"
    by (rule yaml_lawsD(1) [OF laws print])
qed

text \<open>The text of the manager: those of its loggers in the order of their names.\<close>

lemma logger_nodes_trees:
  assumes laws: "yaml_laws Y" and "\<And>l. l \<in> set ls \<Longrightarrow> logger_plain w l (f l)"
  shows "logger_nodes Y ls (YSeq ts) w = (Inr (YSeq (ts @ map (\<lambda>l. logger_tree w l (f l)) ls)), w)"
  using assms(2)
proof (induction ls arbitrary: ts)
  case (Cons l ls)
  note tx = logger_text [OF laws Cons.prems, of l]
  from Cons.IH [of "ts @ [logger_tree w l (f l)]"] Cons.prems tx laws show ?case
    by (simp add: comp_simps yaml_simps)
qed (simp add: return_apply)

lemma manager_text:
  assumes laws: "yaml_laws Y" and ls: "map snd (mgr_loggers w) = l # ls"
    and "\<And>k. k \<in> set (l # ls) \<Longrightarrow> logger_plain w k (f k)"
  shows "LoggerManager_toYamlString Y w =
    (Inr (y_emit Y (YSeq (map (\<lambda>k. logger_tree w k (f k)) (l # ls)))), w)"
proof -
  note tx = logger_text [OF laws assms(3), of l]
  have "logger_nodes Y ls (YSeq [logger_tree w l (f l)]) w =
      (Inr (YSeq ([logger_tree w l (f l)] @ map (\<lambda>k. logger_tree w k (f k)) ls)), w)"
    by (rule logger_nodes_trees [OF laws]) (use assms(3) in simp)
  with tx laws show ?thesis by (simp add: LoggerManager_toYamlString_def ls comp_simps yaml_simps)
qed

text \<open>
  C34. In every world the public operations reach, the YAML text of a logger is a definition that
  the configuration can read: it gives the logger's name, level and pattern and the kinds and
  files of its appenders. The formatters of the appenders are never in the text, since
  \<open>m_hasFormatter\<close> is never set, and their levels are in the text but not read.
\<close>

theorem logger_yaml_reads_back:
  assumes laws: "yaml_laws Y" and reach: "log_reachable w" and l: "l < next_logger w"
    and lg: "lg = loggers w l" and f: "lg_formatter lg = Some f"
    and plain: "plain (lg_name lg)" "plain (getPattern f)"
      "\<forall>ap\<in>set (lg_appenders lg). plain_file (appenders w ap)"
  shows "\<exists>s. Logger_toYamlString Y l w = (Inr s, w) \<and>
    LogDefine_from_string Y s = return
      \<lparr>ld_name = lg_name lg, ld_level = lg_level lg, ld_formatter = getPattern f,
       ld_appenders = map (\<lambda>ap. appender_define_of (appenders w ap)) (lg_appenders lg)\<rparr>"
proof -
  have inv: "log_inv w" by (rule log_reachable_inv [OF reach])
  let ?aps = "lg_appenders lg" and ?ns = "map (\<lambda>ap. appender_yaml (appenders w ap)) (lg_appenders lg)"
  let ?head = "[(YScalar ''name'', YScalar (lg_name lg)), (YScalar ''level'', YScalar (ToString (lg_level lg))),
    (YScalar ''formatter'', YScalar (getPattern f))]"
  let ?ps = "if ?ns = [] then ?head else ?head @ [(YScalar ''appenders'', YSeq ?ns)]"
  have ap: "\<not> la_hasFormatter (appenders w ap)" "plain_file (appenders w ap)" if "ap \<in> set ?aps" for ap
    using that plain(3) log_inv_appender [OF inv l, of ap] log_inv_hasFormatter [OF inv, of ap] lg by auto
  note tx = appender_text [OF laws ap]
  have tree: "logger_tree w l f = YMap ?ps" by (simp add: logger_tree_def Let_def lg)
  have "logger_plain w l f" using ap plain f lg by (simp add: logger_plain_def)
  note texts = logger_text [OF laws this, unfolded tree]
  have out: "Logger_toYamlString Y l w = (Inr (y_emit Y (YMap ?ps)), w)"
    and load: "y_load Y (y_emit Y (YMap ?ps)) = Inr (YMap ?ps)" by (rule texts)+
  have "read_appenders Y (YSeq ?ns) [0..<length ?ns] [] =
      return (map (\<lambda>ap. appender_define_of (appenders w ap)) ?aps)"
    using read_appenders_all [OF laws, of ?aps ?ns 0 "\<lambda>ap. appender_define_of (appenders w ap)" "[]"]
      tx(2) by simp
  then have "LogDefine_from_string Y (y_emit Y (YMap ?ps)) = return
      \<lparr>ld_name = lg_name lg, ld_level = lg_level lg, ld_formatter = getPattern f,
       ld_appenders = map (\<lambda>ap. appender_define_of (appenders w ap)) ?aps\<rparr>"
    using laws load by (auto simp: LogDefine_from_string_def yaml_simps yaml_eval)
  with out show ?thesis by blast
qed

theorem logger_yaml_reads_back_witness:
  "\<exists>s. Logger_toYamlString codec_yaml 0 first_world = (Inr s, first_world) \<and>
    LogDefine_from_string codec_yaml s = return
      \<lparr>ld_name = ''root'', ld_level = DEBUG, ld_formatter = default_pattern,
       ld_appenders = map (\<lambda>ap. appender_define_of (appenders first_world ap)) [0, 1]\<rparr>"
proof -
  have "plain_file (appenders first_world ap)" if "ap \<in> {0, 1}" for ap
    using that by (auto simp: first_world_def manager_construction plain_file_def)
  moreover have "plain (getPattern (LogFormatter default_pattern))" "getPattern (LogFormatter default_pattern) = default_pattern"
    by (simp_all add: default_pattern_def plain_def)
  ultimately show ?thesis
    using logger_yaml_reads_back [OF codec_yaml_laws first_world_reachable, of 0 "loggers first_world 0"
        "LogFormatter default_pattern"]
    by (simp add: plain_def)
qed

end
