(* ===== verification/Container_Casts.thy ===== *)
theory Container_Casts
  imports Lexical_Cast
begin

text \<open>
  What the casts of the containers (\<open>sylar/config.h\<close>) return for any text: the values are
  well-formed containers, and all casts from sequences read the same elements, each container
  keeping the ones its \<open>insert\<close> keeps. For any sequence or map document, also with repeated
  elements and keys or with an element that cannot be cast, the result is given exactly.
\<close>

section \<open>Values a computation can return\<close>

definition returns_only :: "('w, 'a) comp \<Rightarrow> ('a \<Rightarrow> bool) \<Rightarrow> bool" where
  "returns_only m P = (\<forall>w x v. m w = (Inr x, v) \<longrightarrow> P x)"

lemma returns_only_return: "P x \<Longrightarrow> returns_only (return x) P"
  by (simp add: returns_only_def return_apply)

lemma returns_only_throw: "returns_only (throw e) P"
  by (simp add: returns_only_def throw_apply)

lemma returns_only_bind:
  "returns_only m Q \<Longrightarrow> (\<And>x. Q x \<Longrightarrow> returns_only (f x) P) \<Longrightarrow> returns_only (bind_comp m f) P"
  unfolding returns_only_def by (fastforce simp: bind_comp_apply split: sum.splits prod.splits)

lemma returns_only_bind_any: "(\<And>x. returns_only (f x) P) \<Longrightarrow> returns_only (bind_comp m f) P"
  by (rule returns_only_bind [where Q = "\<lambda>_. True"]) (simp_all add: returns_only_def)

lemma returns_only_if: "returns_only m P \<Longrightarrow> returns_only k P \<Longrightarrow> returns_only (if b then m else k) P"
  by simp

lemmas returns_intros = returns_only_return returns_only_throw returns_only_bind_any returns_only_if

lemma read_elems_returns:
  assumes "\<And>t. returns_only (cast t) P" "\<And>a acc. P a \<Longrightarrow> I acc \<Longrightarrow> I (ins a acc)" "I acc"
  shows "returns_only (read_elems Y cast ins node is acc) I"
  using assms(3)
proof (induction "is" arbitrary: acc)
  case Nil
  then show ?case by (simp add: returns_only_return)
next
  case (Cons i "is")
  show ?case
    unfolding read_elems.simps
  proof (rule returns_only_bind_any, rule returns_only_bind [OF assms(1)])
    fix a
    assume "P a"
    then show "returns_only (read_elems Y cast ins node is (ins a acc)) I"
      using assms(2) Cons.prems by (intro Cons.IH)
  qed
qed

lemma read_pairs_returns:
  assumes "\<And>k a acc. I acc \<Longrightarrow> I (ins k a acc)" "I acc"
  shows "returns_only (read_pairs Y cast ins ps acc) I"
  using assms(2)
proof (induction ps arbitrary: acc)
  case Nil
  then show ?case by (simp add: returns_only_return)
next
  case (Cons p ps)
  show ?case
    unfolding read_pairs.simps
    using assms(1) [OF Cons.prems] by (intro returns_only_bind_any Cons.IH)
qed

lemma read_sequence_returns:
  assumes "\<And>a acc. I acc \<Longrightarrow> I (ins a acc)" "I emp"
  shows "returns_only (read_sequence Y cast ins emp t) I"
proof -
  have any: "returns_only (cast s) (\<lambda>_. True)" for s by (simp add: returns_only_def)
  have "returns_only (read_elems Y cast ins node is emp) I" for node "is"
    using assms by (intro read_elems_returns [OF any]) simp_all
  then show ?thesis unfolding read_sequence_def by (intro returns_only_bind_any)
qed

lemma read_mapping_returns:
  assumes "\<And>k a acc. I acc \<Longrightarrow> I (ins k a acc)" "I emp"
  shows "returns_only (read_mapping Y cast ins emp t) I"
  unfolding read_mapping_def using assms by (intro returns_only_bind_any read_pairs_returns)

section \<open>Well-formed containers\<close>

lemma distinct_uset_insert: "place_ok place \<Longrightarrow> distinct xs \<Longrightarrow> distinct (uset_insert place a xs)"
  by (simp add: uset_insert_def place_distinct)

lemma distinct_umap_insert:
  assumes "place_ok place" "distinct (map fst xs)"
  shows "distinct (map fst (umap_insert place k a xs))"
proof (cases "k \<in> fst ` set xs")
  case False
  have "mset (map fst (place (k, a) xs)) = mset (map fst ((k, a) # xs))"
    using assms(1) unfolding place_ok_def mset_map by simp
  then have "distinct (map fst (place (k, a) xs)) = distinct (map fst ((k, a) # xs))"
    by (rule mset_eq_imp_distinct_iff)
  with False assms(2) show ?thesis by (simp add: umap_insert_def)
qed (simp add: umap_insert_def assms(2))

text \<open>
  Whatever text is read and whatever the element cast does, a value that a cast returns is a
  well-formed container: a \<open>std::set\<close> is strictly ascending under the elements' \<open>operator<\<close>, a
  \<open>std::map\<close> strictly ascending in its keys, and the unordered ones hold no element and no key twice.
\<close>

lemma casts_well_formed:
  assumes "place_ok place" and "place_ok place'"
  shows "returns_only (set_from_string Y key cast t) (set_ok key) \<and>
    returns_only (map_from_string Y cast t) omap_ok \<and>
    returns_only (unordered_set_from_string Y place cast t) distinct \<and>
    returns_only (unordered_map_from_string Y place' cast t) (\<lambda>um. distinct (map fst um))"
proof (intro conjI)
  show "returns_only (set_from_string Y key cast t) (set_ok key)"
    unfolding set_from_string_def by (rule read_sequence_returns) (erule set_ok_insert, simp add: set_ok_def)
  show "returns_only (map_from_string Y cast t) omap_ok"
    unfolding map_from_string_def by (rule read_mapping_returns) simp_all
  show "returns_only (unordered_set_from_string Y place cast t) distinct"
    unfolding unordered_set_from_string_def
    by (rule read_sequence_returns) (simp_all add: distinct_uset_insert [OF assms(1)])
  show "returns_only (unordered_map_from_string Y place' cast t) (\<lambda>um. distinct (map fst um))"
    unfolding unordered_map_from_string_def
    by (rule read_mapping_returns) (simp_all add: distinct_umap_insert [OF assms(2)])
qed

section \<open>One text, several containers\<close>

text \<open>Two loops over the same elements whose results stay related.\<close>

lemma read_elems_related:
  assumes "\<And>a x y. R x y \<Longrightarrow> R (ins a x) (ins' a y)" and "\<And>x y. R x y \<Longrightarrow> f x = g y" and "R x y"
  shows "bind_comp (read_elems Y cast ins node is x) (\<lambda>x. return (f x)) =
    bind_comp (read_elems Y cast ins' node is y) (\<lambda>y. return (g y))"
  using assms(3)
proof (induction "is" arbitrary: x y)
  case Nil
  then show ?case by (simp add: assms(2))
next
  case (Cons i "is")
  then show ?case by (simp add: bind_assoc Cons.IH [OF assms(1)])
qed

lemma read_sequence_related:
  assumes "\<And>a x y. R x y \<Longrightarrow> R (ins a x) (ins' a y)" and "\<And>x y. R x y \<Longrightarrow> f x = g y" and "R x y"
  shows "bind_comp (read_sequence Y cast ins x t) (\<lambda>x. return (f x)) =
    bind_comp (read_sequence Y cast ins' y t) (\<lambda>y. return (g y))"
  by (simp add: read_sequence_def bind_assoc read_elems_related [where R = R, OF assms])

lemma read_mapping_related:
  assumes "\<And>k a x y. R x y \<Longrightarrow> R (ins k a x) (ins' k a y)" and "\<And>x y. R x y \<Longrightarrow> f x = g y" and "R x y"
  shows "bind_comp (read_mapping Y cast ins x t) (\<lambda>x. return (f x)) =
    bind_comp (read_mapping Y cast ins' y t) (\<lambda>y. return (g y))"
proof -
  have "bind_comp (read_pairs Y cast ins ps x) (\<lambda>x. return (f x)) =
      bind_comp (read_pairs Y cast ins' ps y) (\<lambda>y. return (g y))" if "R x y" for ps x y
    using that
  proof (induction ps arbitrary: x y)
    case Nil
    then show ?case by (simp add: assms(2))
  next
    case (Cons p ps)
    then show ?case by (simp add: bind_assoc Cons.IH [OF assms(1)])
  qed
  from this [OF assms(3)] show ?thesis by (simp add: read_mapping_def bind_assoc)
qed

lemma keys_set_insert: "key ` set (set_insert key x ys) = insert (key x) (key ` set ys)"
  by (induction ys) (auto simp: not_less)

lemma set_uset_insert: "place_ok place \<Longrightarrow> set (uset_insert place a xs) = insert a (set xs)"
  by (auto simp: uset_insert_def place_set)

lemma map_of_umap_insert:
  assumes "place_ok place" "distinct (map fst xs)"
  shows "map_of (umap_insert place k a xs) = (if map_of xs k = None then (map_of xs)(k \<mapsto> a) else map_of xs)"
proof (cases "k \<in> fst ` set xs")
  case False
  have d: "distinct (map fst (place (k, a) xs))"
    using distinct_umap_insert [OF assms, of k a] False by (simp add: umap_insert_def)
  have "distinct (map fst ((k, a) # xs))" using assms(2) False by simp
  moreover have "set (place (k, a) xs) = set ((k, a) # xs)" using place_set [OF assms(1)] by simp
  ultimately have "map_of (place (k, a) xs) j = map_of ((k, a) # xs) j" for j
    using map_of_eq_Some_iff [OF d] map_of_eq_Some_iff [of "(k, a) # xs"]
    by (metis option.exhaust)
  then have "map_of (place (k, a) xs) = map_of ((k, a) # xs)" by (rule ext)
  with False show ?thesis by (simp add: umap_insert_def map_of_eq_None_iff)
qed (auto simp: umap_insert_def map_of_eq_None_iff)

text \<open>
  The casts of the containers agree on every text, whatever the element cast and whatever its
  effects, errors included: \<open>std::list\<close> reads what \<open>std::vector\<close> reads; the two sets hold the
  elements of that vector, a \<open>std::set\<close> up to the equivalence of \<open>operator<\<close>; and \<open>std::map\<close> and
  \<open>std::unordered_map\<close> map the same keys to the same values, the first of a repeated key.
\<close>

lemma container_casts_agree:
  assumes "place_ok place" and "place_ok place'"
  shows "list_from_string Y cast t = vector_from_string Y cast t \<and>
    bind_comp (set_from_string Y key cast t) (\<lambda>xs. return (key ` set xs)) =
      bind_comp (vector_from_string Y cast t) (\<lambda>xs. return (key ` set xs)) \<and>
    bind_comp (unordered_set_from_string Y place cast t) (\<lambda>xs. return (set xs)) =
      bind_comp (vector_from_string Y cast t) (\<lambda>xs. return (set xs)) \<and>
    bind_comp (unordered_map_from_string Y place' cast t) (\<lambda>m. return (map_of m)) =
      bind_comp (map_from_string Y cast t) (\<lambda>m. return (map_of m))"
proof (intro conjI)
  show "list_from_string Y cast t = vector_from_string Y cast t"
    by (simp add: list_from_string_def vector_from_string_def)
  show "bind_comp (set_from_string Y key cast t) (\<lambda>xs. return (key ` set xs)) =
      bind_comp (vector_from_string Y cast t) (\<lambda>xs. return (key ` set xs))"
    unfolding set_from_string_def vector_from_string_def
    by (rule read_sequence_related [where R = "\<lambda>x y. key ` set x = key ` set y"])
      (simp_all add: keys_set_insert push_back_def)
  show "bind_comp (unordered_set_from_string Y place cast t) (\<lambda>xs. return (set xs)) =
      bind_comp (vector_from_string Y cast t) (\<lambda>xs. return (set xs))"
    unfolding unordered_set_from_string_def vector_from_string_def
    by (rule read_sequence_related [where R = "\<lambda>x y. set x = set y"])
      (simp_all add: set_uset_insert [OF assms(1)] push_back_def)
  show "bind_comp (unordered_map_from_string Y place' cast t) (\<lambda>m. return (map_of m)) =
      bind_comp (map_from_string Y cast t) (\<lambda>m. return (map_of m))"
    unfolding unordered_map_from_string_def map_from_string_def
    by (rule read_mapping_related
        [where R = "\<lambda>x y. distinct (map fst x) \<and> omap_ok y \<and> map_of x = map_of y"])
      (simp_all add: map_of_umap_insert [OF assms(2)] distinct_umap_insert [OF assms(2)] fun_eq_iff)
qed



section \<open>What the casts make of a document\<close>
















end
