(* ===== verification/Log_Config.thy ===== *)
theory Log_Config
  imports Log_Define Container_Casts
begin

text \<open>
  The configuration variable \<open>logs\<close> and its listener \<open>LogIniter\<close> (\<open>sylar/log.cc\<close>), which
  applies definitions to the loggers: the listener keeps the contract of the configuration module,
  does what the definitions say, and misses changes that are in the appenders only.
\<close>

section \<open>The listener\<close>

text \<open>\<open>std::set::find\<close>: equivalence under \<open>operator<\<close>.\<close>

definition find_define :: "log_define \<Rightarrow> log_define list \<Rightarrow> log_define option" where
  "find_define d s = find (\<lambda>x. \<not> ld_less x d \<and> \<not> ld_less d x) s"

text \<open>The body of the loop over the appenders of a definition; the pointer stays null for another type.\<close>

definition new_defined_appender :: "log_appender_define \<Rightarrow> world \<Rightarrow> (appender_ptr \<times> world) option" where
  "new_defined_appender a w =
     (if lad_type a = 1 then Some (new_FileLogAppender (lad_file a) w)
      else if lad_type a = 2 then Some (new_StdoutLogAppender w)
      else None)"

definition give_pattern :: "string \<Rightarrow> log_appender_define \<Rightarrow> appender_ptr \<Rightarrow> world \<Rightarrow> world" where
  "give_pattern name a ap w =
     (let fmt = LogFormatter (lad_formatter a); w1 = print (LogFormatter_output (lad_formatter a)) w
      in if \<not> isError fmt then upd_appender ap (la_setFormatter (Some fmt)) w1
         else print (''log.name='' @ name @ '' appender type='' @ show_int (lad_type a) @
                '' formatter='' @ lad_formatter a @ '' is invalid'' @ endl) w1)"

definition attach_appender :: "string \<Rightarrow> logger_ptr \<Rightarrow> log_appender_define \<Rightarrow> (world, unit) comp" where
  "attach_appender name l a = (\<lambda>w.
     case new_defined_appender a w of
       None \<Rightarrow> (Inl (Undefined Null_Dereference), w)
     | Some (ap, w1) \<Rightarrow>
         let w2 = upd_appender ap (la_setLevel (lad_level a)) w1;
             w3 = (if lad_formatter a \<noteq> [] then give_pattern name a ap w2 else w2)
         in (Inr (), addAppender ap l w3))"

text \<open>A new or modified definition is applied, an equal one skipped.\<close>

definition apply_define :: "log_define \<Rightarrow> (world, unit) comp" where
  "apply_define i = (\<lambda>w.
     case getLogger (ld_name i) w of (l, w1) \<Rightarrow>
       let w2 = setLevel (ld_level i) l w1;
           w3 = (if ld_formatter i \<noteq> [] then setFormatter_pattern (ld_formatter i) l w2 else w2)
       in for_each (ld_appenders i) (attach_appender (ld_name i) l) (cleanAppenders l w3))"

definition configure_logger :: "log_define list \<Rightarrow> log_define \<Rightarrow> (world, unit) comp" where
  "configure_logger old_value i =
     (case find_define i old_value of
        None \<Rightarrow> apply_define i
      | Some it \<Rightarrow> if \<not> ld_eq i it then apply_define i else return ())"

text \<open>A definition that is gone: level 0 and no appenders.\<close>

definition remove_logger :: "log_define list \<Rightarrow> log_define \<Rightarrow> (world, unit) comp" where
  "remove_logger new_value i =
     (case find_define i new_value of
        None \<Rightarrow> modify (\<lambda>w. case getLogger (ld_name i) w of (l, w1) \<Rightarrow>
                         cleanAppenders l (setLevel UNKNOW l w1))
      | Some _ \<Rightarrow> return ())"

definition on_logger_conf_changed :: "log_define list \<Rightarrow> log_define list \<Rightarrow> (world, unit) comp" where
  "on_logger_conf_changed old_value new_value =
     bind_comp (log_root INFO ''sylar/log.cc'' 882 ''on_logger_conf_changed'') (\<lambda>_.
     bind_comp (for_each new_value (configure_logger old_value)) (\<lambda>_.
     for_each old_value (remove_logger new_value)))"

section \<open>The variable \<open>logs\<close>\<close>

text \<open>
  The values of the registry are sets of definitions on the left and values of any other types on
  the right; \<open>std::set\<close> is the list of its elements in order.
\<close>

fun set_eq :: "log_define list + 'u \<Rightarrow> log_define list + 'u \<Rightarrow> bool" where
  "set_eq (Inl a) (Inl b) = seq_eq ld_eq a b"
| "set_eq _ _ = False"

fun logs_cb :: "log_define list + 'u \<Rightarrow> log_define list + 'u \<Rightarrow> (world, unit) comp" where
  "logs_cb (Inl a) (Inl b) = on_logger_conf_changed a b"
| "logs_cb _ _ = return ()"

definition logs_type :: "yaml_lib \<Rightarrow> (log_define list + 'u) config_type" where
  "logs_type Y =
     \<lparr>ct_name = ''std::set<sylar::LogDefine>'',
      ct_from = (\<lambda>t. bind_comp (set_from_string Y ld_name (LogDefine_from_string Y) t) (\<lambda>ds. return (Inl ds))),
      ct_to = (\<lambda>v. case v of Inl ds \<Rightarrow> set_to_string Y (LogDefine_to_string Y) ds | Inr _ \<Rightarrow> return []),
      ct_eq = set_eq\<rparr>"

text \<open>The static objects \<open>g_log_defines\<close> and \<open>__log_init\<close>.\<close>

definition LogIniter :: "var_ptr \<Rightarrow> (log_define list + 'u) system \<Rightarrow> (log_define list + 'u) system" where
  "LogIniter p = upd_var p (addListener 0xF1E231 (Some logs_cb))"

definition init_log_config :: "yaml_lib \<Rightarrow> ((log_define list + 'u) system, unit) comp" where
  "init_log_config Y =
     bind_comp (Lookup (logs_type Y) ''logs'' (Inl []) ''logs config'')
       (\<lambda>g_log_defines. case g_log_defines of
          None \<Rightarrow> throw (Undefined Null_Dereference)
        | Some p \<Rightarrow> modify (LogIniter p))"

section \<open>Attaching the appenders of a definition\<close>

definition define_types_ok :: "log_define \<Rightarrow> bool" where
  "define_types_ok d = (\<forall>a\<in>set (ld_appenders d). lad_type a = 1 \<or> lad_type a = 2)"

text \<open>The appender a definition stands for, when its logger has the formatter \<open>fm\<close>.\<close>

definition defined_appender ::
  "log_formatter option \<Rightarrow> (string \<Rightarrow> bool) \<Rightarrow> log_appender_define \<Rightarrow> log_appender" where
  "defined_appender fm can a =
     \<lparr>la_level = lad_level a,
      la_formatter = (if lad_formatter a \<noteq> [] \<and> \<not> isError (LogFormatter (lad_formatter a))
                      then Some (LogFormatter (lad_formatter a)) else fm),
      la_hasFormatter = False,
      la_class = (if lad_type a = 1
                  then FileLogAppender (lad_file a) (snd (reopen_stream (can (lad_file a)) new_ofstream))
                  else StdoutLogAppender)\<rparr>"

text \<open>The parts of the world that attaching leaves alone.\<close>

definition attach_frame :: "world \<Rightarrow> world \<Rightarrow> bool" where
  "attach_frame w v =
     (next_logger v = next_logger w \<and> mgr_built v = mgr_built w \<and> mgr_loggers v = mgr_loggers w \<and>
      mgr_root v = mgr_root w \<and> w_can_open v = w_can_open w)"

lemma attach_appender_spec:
  assumes "lad_type a = 1 \<or> lad_type a = 2"
  shows "\<exists>v. attach_appender name l a w = (Inr (), v) \<and> attach_frame w v \<and>
    loggers v = (loggers w)(l := (loggers w l)\<lparr>lg_appenders := lg_appenders (loggers w l) @ [next_appender w]\<rparr>) \<and>
    next_appender v = Suc (next_appender w) \<and>
    appenders v = (appenders w)(next_appender w :=
      defined_appender (lg_formatter (loggers w l)) (w_can_open w) a)"
  using assms
  by (auto simp: attach_appender_def new_defined_appender_def new_FileLogAppender_def
      new_StdoutLogAppender_def alloc_appender_def new_appender_def give_pattern_def addAppender_def
      defined_appender_def attach_frame_def la_setLevel_def la_setFormatter_def Let_def)

lemma attach_frame_refl [simp]: "attach_frame w w"
  by (simp add: attach_frame_def)

lemma attach_frame_trans: "attach_frame u v \<Longrightarrow> attach_frame v w \<Longrightarrow> attach_frame u w"
  by (simp add: attach_frame_def)

lemma attach_all_spec:
  assumes "\<forall>a\<in>set as. lad_type a = 1 \<or> lad_type a = 2"
  shows "\<exists>v. for_each as (attach_appender name l) w = (Inr (), v) \<and> attach_frame w v \<and>
    loggers v = (loggers w)(l := (loggers w l)\<lparr>lg_appenders :=
      lg_appenders (loggers w l) @ [next_appender w..<next_appender w + length as]\<rparr>) \<and>
    next_appender v = next_appender w + length as \<and>
    (\<forall>ap<next_appender w. appenders v ap = appenders w ap) \<and>
    (\<forall>i<length as. appenders v (next_appender w + i) =
       defined_appender (lg_formatter (loggers w l)) (w_can_open w) (as ! i))"
  using assms
proof (induction as arbitrary: w)
  case Nil
  then show ?case by (simp add: comp_simps)
next
  case (Cons a as)
  then have types: "lad_type a = 1 \<or> lad_type a = 2" "\<forall>a\<in>set as. lad_type a = 1 \<or> lad_type a = 2" by simp_all
  from attach_appender_spec [OF types(1), of name l w] obtain u where
    u: "attach_appender name l a w = (Inr (), u)" "attach_frame w u"
      "loggers u = (loggers w)(l := (loggers w l)\<lparr>lg_appenders := lg_appenders (loggers w l) @ [next_appender w]\<rparr>)"
      "next_appender u = Suc (next_appender w)"
      "appenders u = (appenders w)(next_appender w := defined_appender (lg_formatter (loggers w l)) (w_can_open w) a)"
    by blast
  from Cons.IH [OF types(2), of u] obtain v where
    v: "for_each as (attach_appender name l) u = (Inr (), v)" "attach_frame u v"
      "loggers v = (loggers u)(l := (loggers u l)\<lparr>lg_appenders :=
         lg_appenders (loggers u l) @ [next_appender u..<next_appender u + length as]\<rparr>)"
      "next_appender v = next_appender u + length as"
      "\<forall>ap<next_appender u. appenders v ap = appenders u ap"
      "\<forall>i<length as. appenders v (next_appender u + i) =
         defined_appender (lg_formatter (loggers u l)) (w_can_open u) (as ! i)"
    by blast
  have upt: "[next_appender w..<next_appender w + length (a # as)] =
      next_appender w # [Suc (next_appender w)..<Suc (next_appender w) + length as]"
    by (subst upt_conv_Cons) simp_all
  have "appenders v (next_appender w + i) =
      defined_appender (lg_formatter (loggers w l)) (w_can_open w) ((a # as) ! i)" if "i < length (a # as)" for i
  proof (cases i)
    case 0
    with u v show ?thesis by simp
  next
    case (Suc j)
    with that u v(6) show ?thesis by (auto simp: attach_frame_def)
  qed
  then show ?case
    using u v upt attach_frame_trans [OF u(2) v(2)]
    by (intro exI [of _ v]) (simp add: comp_simps)
qed

section \<open>Applying a definition\<close>

text \<open>The appenders of the logger registered under a name.\<close>

definition owned :: "world \<Rightarrow> string \<Rightarrow> appender_ptr set" where
  "owned w k = (case map_of (mgr_loggers w) k of None \<Rightarrow> {} | Some l \<Rightarrow> set (lg_appenders (loggers w l)))"

text \<open>
  Loggers with other names than those in \<open>S\<close> keep their appenders, the others get new ones only,
  and the formatter of an appender that none of the others has stays.
\<close>

definition owned_frame :: "string set \<Rightarrow> world \<Rightarrow> world \<Rightarrow> bool" where
  "owned_frame S w v =
     ((\<forall>k. owned v k \<subseteq> owned w k \<union> {next_appender w..}) \<and>
      (\<forall>k. k \<notin> S \<longrightarrow> owned v k = owned w k) \<and>
      (\<forall>ap<next_appender w. (\<forall>k\<in>S. ap \<notin> owned w k) \<longrightarrow>
         la_formatter (appenders v ap) = la_formatter (appenders w ap)))"

lemma owned_frame_refl [simp]: "owned_frame S w w"
  by (auto simp: owned_frame_def)

lemma owned_frameD:
  assumes "owned_frame S w v"
  shows "ap \<in> owned v k \<Longrightarrow> ap < next_appender w \<Longrightarrow> ap \<in> owned w k"
    and "k \<notin> S \<Longrightarrow> owned v k = owned w k"
    and "ap < next_appender w \<Longrightarrow> (\<And>k. k \<in> S \<Longrightarrow> ap \<notin> owned w k) \<Longrightarrow>
      la_formatter (appenders v ap) = la_formatter (appenders w ap)"
proof -
  have "owned v k \<subseteq> owned w k \<union> {next_appender w..}" using assms unfolding owned_frame_def by blast
  then show "ap \<in> owned v k \<Longrightarrow> ap < next_appender w \<Longrightarrow> ap \<in> owned w k" by auto
qed (use assms in \<open>auto simp: owned_frame_def\<close>)

lemma owned_frame_trans:
  assumes uv: "owned_frame S u v" and vw: "owned_frame T v w" and le: "next_appender u \<le> next_appender v"
  shows "owned_frame (S \<union> T) u w"
  unfolding owned_frame_def
proof (intro conjI allI impI)
  show "owned w k \<subseteq> owned u k \<union> {next_appender u..}" for k
    using uv vw le unfolding owned_frame_def by fastforce
  show "owned w k = owned u k" if "k \<notin> S \<union> T" for k
    using that owned_frameD(2) [OF uv] owned_frameD(2) [OF vw] by simp
  show "la_formatter (appenders w ap) = la_formatter (appenders u ap)"
    if ap: "ap < next_appender u" "\<forall>k\<in>S \<union> T. ap \<notin> owned u k" for ap
  proof -
    have "ap \<notin> owned v k" if "k \<in> T" for k using owned_frameD(1) [OF uv _ ap(1)] ap(2) that by blast
    with owned_frameD(3) [OF uv ap(1)] owned_frameD(3) [OF vw, of ap] ap le show ?thesis by simp
  qed
qed

text \<open>What applying or removing definitions with names in \<open>S\<close> leaves alone.\<close>

definition confs_frame :: "string set \<Rightarrow> world \<Rightarrow> world \<Rightarrow> bool" where
  "confs_frame S w v =
     ((\<forall>k l. map_of (mgr_loggers w) k = Some l \<longrightarrow> map_of (mgr_loggers v) k = Some l) \<and>
      (\<forall>k l. k \<notin> S \<longrightarrow> map_of (mgr_loggers w) k = Some l \<longrightarrow> loggers v l = loggers w l) \<and>
      next_logger w \<le> next_logger v \<and> next_appender w \<le> next_appender v \<and>
      (\<forall>ap<next_appender w. la_level (appenders v ap) = la_level (appenders w ap) \<and>
         la_class (appenders v ap) = la_class (appenders w ap)) \<and>
      owned_frame S w v)"

abbreviation conf_frame :: "string \<Rightarrow> world \<Rightarrow> world \<Rightarrow> bool" where
  "conf_frame name \<equiv> confs_frame {name}"

lemma confs_frame_refl [simp]: "confs_frame S w w"
  by (simp add: confs_frame_def)

lemma confs_frame_kept:
  "confs_frame S w v \<Longrightarrow> map_of (mgr_loggers w) k = Some l \<Longrightarrow>
     map_of (mgr_loggers v) k = Some l \<and> (k \<notin> S \<longrightarrow> loggers v l = loggers w l)"
  by (simp add: confs_frame_def)

lemma confs_frame_owned: "confs_frame S w v \<Longrightarrow> owned_frame S w v \<and> next_appender w \<le> next_appender v"
  by (simp add: confs_frame_def)

lemma confs_frame_trans:
  assumes "confs_frame S u v" "confs_frame T v w"
  shows "confs_frame (S \<union> T) u w"
proof -
  have "owned_frame (S \<union> T) u w"
    using assms [THEN confs_frame_owned] owned_frame_trans by blast
  with assms show ?thesis unfolding confs_frame_def by (auto dest: order_trans)
qed

lemma conf_frame_trans: "conf_frame name u v \<Longrightarrow> conf_frame name v w \<Longrightarrow> conf_frame name u w"
  using confs_frame_trans [of "{name}" u v "{name}" w] by simp

definition conf_inv :: "world \<Rightarrow> bool" where
  "conf_inv w = (log_inv w \<and> mgr_built w)"

lemma conf_inv_names: "conf_inv w \<Longrightarrow> map_of (mgr_loggers w) k = Some l \<Longrightarrow> l < next_logger w \<and> lg_name (loggers w l) = k"
  using log_inv_find by (simp add: conf_inv_def)

lemma new_Logger_appenders: "new_Logger name w = (l, v) \<Longrightarrow> set (lg_appenders (loggers v l)) \<subseteq> {next_appender w..}"
  by (auto simp: new_Logger_def Let_def alloc_logger_def alloc_appender_def new_StdoutLogAppender_def
      split: if_splits)

lemma owned_bound: "conf_inv w \<Longrightarrow> ap \<in> owned w k \<Longrightarrow> ap < next_appender w"
  using conf_inv_names log_inv_appender by (fastforce simp: owned_def conf_inv_def split: option.splits)

lemma getLogger_spec:
  assumes w: "conf_inv w" and get: "getLogger name w = (l, v)"
  shows "conf_inv v \<and> conf_frame name w v \<and> map_of (mgr_loggers v) name = Some l \<and>
    w_can_open v = w_can_open w"
proof -
  have built: "mgr_built w" and inv: "log_inv w" using w by (simp_all add: conf_inv_def)
  have invv: "log_inv v" using getLogger_inv [OF inv, of name] get by simp
  show ?thesis
  proof (cases "map_of (mgr_loggers w) name")
    case (Some j)
    with get built w show ?thesis by (simp add: getLogger_def manager_getLogger_def)
  next
    case None
    obtain j u where nl: "new_Logger name w = (j, u)" by fastforce
    note f = new_Logger_facts [OF nl]
    have v: "l = j" "v = (upd_logger j (lg_root_update (\<lambda>_. Some (mgr_root u))) u)
        \<lparr>mgr_loggers := omap_put name j (mgr_loggers u)\<rparr>"
      using get built None nl by (auto simp: getLogger_def manager_getLogger_def)
    have ok: "omap_ok (mgr_loggers w)" using inv built by (simp add: log_inv_def mgr_ok_def)
    have "k' \<noteq> j" if "map_of (mgr_loggers w) k = Some k'" for k k'
      using conf_inv_names [OF w that] f(1) by auto
    moreover from this have "owned_frame {name} w v"
      using v f ok None new_Logger_appenders [OF nl] by (auto simp: owned_frame_def owned_def split: option.split)
    moreover have "w_can_open u = w_can_open w"
      using nl by (auto simp: new_Logger_def Let_def alloc_logger_def new_StdoutLogAppender_def
          alloc_appender_def split: if_splits)
    ultimately show ?thesis
      using v f ok None invv built by (auto simp: conf_inv_def confs_frame_def)
  qed
qed

text \<open>
  What a definition asks for: the logger registered under its name has its level, its pattern (unless
  that is in error), and appenders of the kinds, files, levels and patterns of the definition, in
  order, that no other registered logger has. An appender without a valid pattern of its own has the
  logger's formatter.
\<close>

definition own_pattern :: "string \<Rightarrow> log_formatter option" where
  "own_pattern p = (if p \<noteq> [] \<and> \<not> isError (LogFormatter p) then Some (LogFormatter p) else None)"

definition appender_matches ::
  "log_formatter option \<Rightarrow> world \<Rightarrow> log_appender_define \<Rightarrow> appender_ptr \<Rightarrow> bool" where
  "appender_matches fm w a ap =
     (ap < next_appender w \<and> la_level (appenders w ap) = lad_level a \<and>
      la_formatter (appenders w ap) =
        (case own_pattern (lad_formatter a) of None \<Rightarrow> fm | Some f \<Rightarrow> Some f) \<and>
      (if lad_type a = 1 then \<exists>st. la_class (appenders w ap) = FileLogAppender (lad_file a) st
       else la_class (appenders w ap) = StdoutLogAppender))"

definition logger_matches :: "world \<Rightarrow> log_define \<Rightarrow> bool" where
  "logger_matches w d =
     (\<exists>l. map_of (mgr_loggers w) (ld_name d) = Some l \<and> lg_level (loggers w l) = ld_level d \<and>
        own_pattern (ld_formatter d) \<in> {None, lg_formatter (loggers w l)} \<and>
        list_all2 (appender_matches (lg_formatter (loggers w l)) w) (ld_appenders d) (lg_appenders (loggers w l)) \<and>
        (\<forall>k. k \<noteq> ld_name d \<longrightarrow> owned w k \<inter> set (lg_appenders (loggers w l)) = {}))"

lemma appender_matches_frame:
  assumes frame: "confs_frame S w v" and ap: "appender_matches fm w a ap"
    and other: "\<And>k. k \<in> S \<Longrightarrow> ap \<notin> owned w k"
  shows "appender_matches fm v a ap"
proof -
  have "la_formatter (appenders v ap) = la_formatter (appenders w ap)"
    using ap other by (intro owned_frameD(3) [OF conjunct1 [OF confs_frame_owned [OF frame]]])
      (simp_all add: appender_matches_def)
  with frame ap show ?thesis by (auto simp: confs_frame_def appender_matches_def)
qed

lemma logger_matches_frame:
  assumes frame: "confs_frame S w v" and S: "ld_name d \<notin> S" and "logger_matches w d"
  shows "logger_matches v d"
proof -
  from assms(3) obtain l where l: "map_of (mgr_loggers w) (ld_name d) = Some l"
    "lg_level (loggers w l) = ld_level d" "own_pattern (ld_formatter d) \<in> {None, lg_formatter (loggers w l)}"
    and aps: "list_all2 (appender_matches (lg_formatter (loggers w l)) w) (ld_appenders d) (lg_appenders (loggers w l))"
    and other: "\<And>k. k \<noteq> ld_name d \<Longrightarrow> owned w k \<inter> set (lg_appenders (loggers w l)) = {}"
    by (auto simp: logger_matches_def)
  note kept = confs_frame_kept [OF frame l(1)]
  have "list_all2 (appender_matches (lg_formatter (loggers w l)) v) (ld_appenders d) (lg_appenders (loggers w l))"
    using aps
  proof (rule list.rel_mono_strong)
    fix a ap
    assume ap: "ap \<in> set (lg_appenders (loggers w l))" "appender_matches (lg_formatter (loggers w l)) w a ap"
    show "appender_matches (lg_formatter (loggers w l)) v a ap"
    proof (rule appender_matches_frame [OF frame ap(2)])
      show "ap \<notin> owned w k" if "k \<in> S" for k
        using other [of k] that S ap(1) by auto
    qed
  qed
  moreover have "owned v k \<inter> set (lg_appenders (loggers w l)) = {}" if "k \<noteq> ld_name d" for k
  proof -
    have "ap < next_appender w" if "ap \<in> set (lg_appenders (loggers w l))" for ap
      using aps that by (auto simp: list_all2_conv_all_nth in_set_conv_nth appender_matches_def)
    then show ?thesis
      using owned_frameD(1) [of S w v _ k] confs_frame_owned [OF frame] other [OF that] by blast
  qed
  ultimately show ?thesis using kept l S by (auto simp: logger_matches_def)
qed

text \<open>What a removed definition leaves: a logger that accepts every level and has no appenders.\<close>

definition logger_gone :: "world \<Rightarrow> log_define \<Rightarrow> bool" where
  "logger_gone w d =
     (\<exists>l. map_of (mgr_loggers w) (ld_name d) = Some l \<and> lg_level (loggers w l) = UNKNOW \<and>
        lg_appenders (loggers w l) = [])"

lemma logger_gone_frame:
  "confs_frame S w v \<Longrightarrow> ld_name d \<notin> S \<Longrightarrow> logger_gone w d \<Longrightarrow> logger_gone v d"
  by (auto simp: logger_gone_def confs_frame_def)

text \<open>The steps before the appenders are attached touch one logger.\<close>

definition one_logger :: "logger_ptr \<Rightarrow> world \<Rightarrow> world \<Rightarrow> bool" where
  "one_logger l w v =
     (attach_frame w v \<and> next_appender v = next_appender w \<and> (\<forall>j. j \<noteq> l \<longrightarrow> loggers v j = loggers w j) \<and>
      (\<forall>ap. la_level (appenders v ap) = la_level (appenders w ap) \<and>
            la_class (appenders v ap) = la_class (appenders w ap)) \<and>
      set (lg_appenders (loggers v l)) \<subseteq> set (lg_appenders (loggers w l)) \<and>
      (\<forall>ap. ap \<notin> set (lg_appenders (loggers w l)) \<longrightarrow>
         la_formatter (appenders v ap) = la_formatter (appenders w ap)))"

lemma one_logger_trans: "one_logger l u v \<Longrightarrow> one_logger l v w \<Longrightarrow> one_logger l u w"
  unfolding one_logger_def attach_frame_def by (elim conjE) (intro conjI; fastforce)

lemma one_logger_steps:
  "one_logger l w (setLevel lv l w)" "one_logger l w (cleanAppenders l w)"
  "one_logger l w (setFormatter_pattern p l w)" "one_logger l w w"
proof -
  have fold: "w_can_open (fold (give_formatter fm) aps u) = w_can_open u" for fm aps u
    by (induction aps arbitrary: u) (simp_all add: give_formatter_def)
  show "one_logger l w (setLevel lv l w)" "one_logger l w (cleanAppenders l w)" "one_logger l w w"
    by (simp_all add: one_logger_def attach_frame_def setLevel_def cleanAppenders_def)
  show "one_logger l w (setFormatter_pattern p l w)"
    by (auto simp: one_logger_def attach_frame_def setFormatter_pattern_def setFormatter_def Let_def
        appenders_fold_give_formatter fold)
qed

lemma one_logger_frame:
  assumes "conf_inv w" "map_of (mgr_loggers w) name = Some l" "one_logger l w v"
  shows "conf_frame name w v"
proof -
  have other: "j \<noteq> l" if "k \<noteq> name" "map_of (mgr_loggers w) k = Some j" for k j
    using conf_inv_names [OF assms(1) that(2)] conf_inv_names [OF assms(1,2)] that(1) by auto
  then have same: "owned v k = owned w k" if "k \<noteq> name" for k
    using that assms(3) by (auto simp: owned_def one_logger_def attach_frame_def split: option.split)
  have own: "owned w name = set (lg_appenders (loggers w l))" "owned v name \<subseteq> owned w name"
    using assms(2,3) by (simp_all add: owned_def one_logger_def attach_frame_def)
  have "owned v k \<subseteq> owned w k" for k using same own(2) by (cases "k = name") simp_all
  then have "owned_frame {name} w v"
    using same own(1) assms(3) by (auto simp: owned_frame_def one_logger_def)
  with assms(3) other show ?thesis by (auto simp: one_logger_def attach_frame_def confs_frame_def)
qed

lemma new_appender_inv:
  assumes "log_inv w" "new_defined_appender a w = Some (ap, w1)"
  shows "log_inv w1 \<and> ap < next_appender w1 \<and> next_logger w1 = next_logger w \<and> mgr_built w1 = mgr_built w"
  using assms new_File_inv [of w "lad_file a"] new_Stdout_inv [of w]
  by (auto simp: new_defined_appender_def new_FileLogAppender_def new_StdoutLogAppender_def
      alloc_appender_def split: if_splits)

lemma give_pattern_inv:
  "log_inv w \<Longrightarrow> log_inv (give_pattern name a ap w) \<and> next_logger (give_pattern name a ap w) = next_logger w \<and>
     next_appender (give_pattern name a ap w) = next_appender w \<and> mgr_built (give_pattern name a ap w) = mgr_built w"
  using la_setFormatter_inv [where f = "LogFormatter (lad_formatter a)" and ap = ap,
      OF print_inv [of w "LogFormatter_output (lad_formatter a)"]]
  by (simp add: give_pattern_def Let_def inv_intros)

definition attach_inv :: "logger_ptr \<Rightarrow> world \<Rightarrow> bool" where
  "attach_inv l w = (conf_inv w \<and> l < next_logger w)"

lemma attach_appender_inv:
  assumes "attach_inv l w" "lad_type a = 1 \<or> lad_type a = 2"
  shows "attach_inv l (snd (attach_appender name l a w))"
proof -
  obtain ap w1 where new: "new_defined_appender a w = Some (ap, w1)"
    using assms(2) by (cases "new_FileLogAppender (lad_file a) w"; cases "new_StdoutLogAppender w")
      (auto simp: new_defined_appender_def)
  have w1: "log_inv w1" "ap < next_appender w1" "next_logger w1 = next_logger w" "mgr_built w1 = mgr_built w"
    using new_appender_inv [OF _ new] assms(1) by (simp_all add: attach_inv_def conf_inv_def)
  let ?w2 = "upd_appender ap (la_setLevel (lad_level a)) w1"
  let ?w3 = "if lad_formatter a \<noteq> [] then give_pattern name a ap ?w2 else ?w2"
  have w3: "log_inv ?w3" "l < next_logger ?w3" "ap < next_appender ?w3" "mgr_built ?w3"
    using give_pattern_inv [of ?w2 name a ap] w1 assms(1)
      la_setLevel_inv [where lv = "lad_level a" and ap = ap, OF w1(1)]
    by (auto simp: attach_inv_def conf_inv_def)
  have "next_logger (addAppender ap l ?w3) = next_logger ?w3" "mgr_built (addAppender ap l ?w3) = mgr_built ?w3"
    by (simp_all add: addAppender_def Let_def)
  with addAppender_inv [OF w3(1-3)] w3 new show ?thesis
    by (simp add: attach_appender_def Let_def attach_inv_def conf_inv_def)
qed

lemma attach_all_inv:
  assumes "attach_inv l w" "\<forall>a\<in>set as. lad_type a = 1 \<or> lad_type a = 2"
  shows "attach_inv l (snd (for_each as (attach_appender name l) w))"
  using assms(2) by (intro for_each_invariant [where I = "attach_inv l", OF assms(1)] attach_appender_inv) auto

text \<open>The logger and the world in which the appenders are attached.\<close>

definition prepare :: "log_define \<Rightarrow> logger_ptr \<Rightarrow> world \<Rightarrow> world" where
  "prepare d l w =
     (let w1 = setLevel (ld_level d) l w
      in cleanAppenders l (if ld_formatter d \<noteq> [] then setFormatter_pattern (ld_formatter d) l w1 else w1))"

lemma prepare_spec:
  assumes "conf_inv w" "l < next_logger w"
  shows "attach_inv l (prepare d l w)" "one_logger l w (prepare d l w)"
    "lg_level (loggers (prepare d l w) l) = ld_level d" "lg_appenders (loggers (prepare d l w) l) = []"
    "lg_formatter (loggers (prepare d l w) l) =
      (if ld_formatter d \<noteq> [] \<and> \<not> isError (LogFormatter (ld_formatter d))
       then Some (LogFormatter (ld_formatter d)) else lg_formatter (loggers w l))"
proof -
  let ?w1 = "setLevel (ld_level d) l w"
  let ?w2 = "if ld_formatter d \<noteq> [] then setFormatter_pattern (ld_formatter d) l ?w1 else ?w1"
  have "one_logger l w ?w1" "one_logger l ?w1 ?w2" "one_logger l ?w2 (prepare d l w)"
    using one_logger_steps by (auto simp: prepare_def Let_def)
  then show one: "one_logger l w (prepare d l w)" by (blast intro: one_logger_trans)
  have "log_inv (prepare d l w)"
    using assms(1) by (auto simp: prepare_def Let_def conf_inv_def intro!: inv_intros)
  with one assms show "attach_inv l (prepare d l w)"
    by (simp add: attach_inv_def conf_inv_def one_logger_def attach_frame_def)
  show "lg_level (loggers (prepare d l w) l) = ld_level d" "lg_appenders (loggers (prepare d l w) l) = []"
    "lg_formatter (loggers (prepare d l w) l) =
      (if ld_formatter d \<noteq> [] \<and> \<not> isError (LogFormatter (ld_formatter d))
       then Some (LogFormatter (ld_formatter d)) else lg_formatter (loggers w l))"
    by (simp_all add: prepare_def Let_def cleanAppenders_def setFormatter_pattern_def setFormatter_def setLevel_def)
qed

lemma apply_define_prepare:
  "getLogger (ld_name d) w = (l, u) \<Longrightarrow>
     apply_define d w = for_each (ld_appenders d) (attach_appender (ld_name d) l) (prepare d l u)"
  by (simp add: apply_define_def prepare_def Let_def)

lemma apply_define_spec:
  assumes w: "conf_inv w" and types: "define_types_ok d" and get: "getLogger (ld_name d) w = (l, u)"
  shows "\<exists>v. apply_define d w = (Inr (), v) \<and> conf_inv v \<and> conf_frame (ld_name d) w v \<and>
    logger_matches v d \<and> map_of (mgr_loggers v) (ld_name d) = Some l \<and>
    lg_formatter (loggers v l) = lg_formatter (loggers (prepare d l u) l) \<and>
    map (appenders v) (lg_appenders (loggers v l)) =
      map (defined_appender (lg_formatter (loggers v l)) (w_can_open w)) (ld_appenders d)"
proof -
  note u = getLogger_spec [OF w get]
  then have l: "l < next_logger u" using conf_inv_names by blast
  note prep = prepare_spec [OF _ l, of d]
  from types have types': "\<forall>a\<in>set (ld_appenders d). lad_type a = 1 \<or> lad_type a = 2"
    by (simp add: define_types_ok_def)
  let ?p = "prepare d l u"
  from attach_all_spec [OF types', of "ld_name d" l ?p] obtain v where
    v: "for_each (ld_appenders d) (attach_appender (ld_name d) l) ?p = (Inr (), v)" "attach_frame ?p v"
      "loggers v = (loggers ?p)(l := (loggers ?p l)\<lparr>lg_appenders :=
         lg_appenders (loggers ?p l) @ [next_appender ?p..<next_appender ?p + length (ld_appenders d)]\<rparr>)"
      "next_appender v = next_appender ?p + length (ld_appenders d)"
      "\<forall>ap<next_appender ?p. appenders v ap = appenders ?p ap"
      "\<forall>i<length (ld_appenders d). appenders v (next_appender ?p + i) =
         defined_appender (lg_formatter (loggers ?p l)) (w_can_open ?p) (ld_appenders d ! i)"
    by blast
  have one: "one_logger l u ?p" and lev: "lg_level (loggers ?p l) = ld_level d" "lg_appenders (loggers ?p l) = []"
    using prep u by simp_all
  have reg: "map_of (mgr_loggers v) (ld_name d) = Some l" and can: "w_can_open ?p = w_can_open w"
    using u one v(2) by (simp_all add: one_logger_def attach_frame_def)
  have aps: "map (appenders v) (lg_appenders (loggers v l)) =
      map (defined_appender (lg_formatter (loggers v l)) (w_can_open w)) (ld_appenders d)"
    using v lev can by (intro nth_equalityI) simp_all
  have "conf_frame (ld_name d) u v"
  proof (rule conf_frame_trans)
    show "conf_frame (ld_name d) u ?p" using u one one_logger_frame by blast
    have "conf_inv ?p" "map_of (mgr_loggers ?p) (ld_name d) = Some l"
      using prep(1) u one by (simp_all add: attach_inv_def one_logger_def attach_frame_def)
    then have "j \<noteq> l" if "k \<noteq> ld_name d" "map_of (mgr_loggers ?p) k = Some j" for k j
      using conf_inv_names that by metis
    moreover from this have "owned_frame {ld_name d} ?p v"
      using v lev(2) by (auto simp: owned_frame_def owned_def attach_frame_def split: option.split)
    ultimately show "conf_frame (ld_name d) ?p v" using v by (auto simp: confs_frame_def attach_frame_def)
  qed
  with u have frame: "conf_frame (ld_name d) w v" using conf_frame_trans by blast
  have inv: "conf_inv v"
    using attach_all_inv [OF prep(1) types', of "ld_name d"] u v(1) by (simp add: attach_inv_def)
  have "appender_matches (lg_formatter (loggers v l)) v (ld_appenders d ! i) (next_appender ?p + i)"
    if "i < length (ld_appenders d)" for i
    using v(3,4,6) that by (simp add: appender_matches_def defined_appender_def own_pattern_def)
  moreover have "owned v k \<inter> {next_appender ?p..} = {}" if "k \<noteq> ld_name d" for k
  proof -
    have "owned v k = owned w k" using confs_frame_owned [OF frame] that by (intro owned_frameD(2)) auto
    moreover have "next_appender w \<le> next_appender ?p"
      using u one confs_frame_owned by (auto simp: one_logger_def)
    ultimately show ?thesis using owned_bound [OF w] by fastforce
  qed
  moreover have "own_pattern (ld_formatter d) \<in> {None, lg_formatter (loggers v l)}"
    using prep(5) u v(3) by (simp add: own_pattern_def)
  ultimately have "logger_matches v d"
    using reg v(3) lev by (fastforce simp: logger_matches_def list_all2_conv_all_nth)
  with frame inv reg aps v(1,3) apply_define_prepare [OF get] show ?thesis
    by (intro exI [of _ v]) simp
qed

section \<open>The loops of the listener\<close>

lemma conf_loop:
  assumes step: "\<And>d w. d \<in> set ds \<Longrightarrow> conf_inv w \<Longrightarrow> \<exists>v. f d w = (Inr (), v) \<and> conf_inv v \<and>
      confs_frame (if Q d then {ld_name d} else {}) w v \<and> (Q d \<longrightarrow> R v d)"
    and stable: "\<And>S v w d. confs_frame S v w \<Longrightarrow> ld_name d \<notin> S \<Longrightarrow> R v d \<Longrightarrow> R w d"
    and "distinct (map ld_name ds)" and "conf_inv w"
  shows "\<exists>v. for_each ds f w = (Inr (), v) \<and> conf_inv v \<and>
    confs_frame (ld_name ` {d \<in> set ds. Q d}) w v \<and> (\<forall>d\<in>set ds. Q d \<longrightarrow> R v d)"
  using step assms(3,4)
proof (induction ds arbitrary: w)
  case Nil
  then show ?case by (simp add: comp_simps)
next
  case (Cons d ds)
  from Cons.prems(1) [of d w] Cons.prems(3) obtain u where
    u: "f d w = (Inr (), u)" "conf_inv u" "confs_frame (if Q d then {ld_name d} else {}) w u" "Q d \<longrightarrow> R u d"
    by auto
  from Cons.IH [of u] Cons.prems(1,2) u(2) obtain v where
    v: "for_each ds f u = (Inr (), v)" "conf_inv v" "confs_frame (ld_name ` {d \<in> set ds. Q d}) u v"
      "\<forall>d\<in>set ds. Q d \<longrightarrow> R v d"
    by auto
  have "ld_name d \<notin> ld_name ` {d \<in> set ds. Q d}" using Cons.prems(2) by auto
  then have "Q d \<longrightarrow> R v d" using stable [OF v(3)] u(4) by blast
  moreover have "(if Q d then {ld_name d} else {}) \<union> ld_name ` {d \<in> set ds. Q d} = ld_name ` {e \<in> set (d # ds). Q e}"
    by auto
  then have "confs_frame (ld_name ` {e \<in> set (d # ds). Q e}) w v"
    using confs_frame_trans [OF u(3) v(3)] by simp
  ultimately show ?case using u(1) v by (simp add: comp_simps)
qed

text \<open>A definition is applied when its name is new or \<open>operator==\<close> sees a difference.\<close>

definition define_changed :: "log_define list \<Rightarrow> log_define \<Rightarrow> bool" where
  "define_changed old_value d =
     (case find_define d old_value of None \<Rightarrow> True | Some it \<Rightarrow> \<not> ld_eq d it)"

text \<open>The names of the definitions that are applied and of those that are gone.\<close>

definition affected_names :: "log_define list \<Rightarrow> log_define list \<Rightarrow> string set" where
  "affected_names old_value new_value =
     ld_name ` {d \<in> set new_value. define_changed old_value d} \<union>
     ld_name ` {d \<in> set old_value. find_define d new_value = None}"

lemma configure_logger_step:
  assumes "conf_inv w" "define_types_ok d"
  shows "\<exists>v. configure_logger old_value d w = (Inr (), v) \<and> conf_inv v \<and>
    confs_frame (if define_changed old_value d then {ld_name d} else {}) w v \<and>
    (define_changed old_value d \<longrightarrow> logger_matches v d)"
proof (cases "define_changed old_value d")
  case True
  obtain l u where "getLogger (ld_name d) w = (l, u)" by fastforce
  from apply_define_spec [OF assms this] True show ?thesis
    by (auto simp: configure_logger_def define_changed_def split: option.splits)
next
  case False
  with assms(1) show ?thesis
    by (auto simp: configure_logger_def define_changed_def return_apply split: option.splits)
qed

lemma remove_logger_step:
  assumes w: "conf_inv w"
  shows "\<exists>v. remove_logger new_value d w = (Inr (), v) \<and> conf_inv v \<and>
    confs_frame (if find_define d new_value = None then {ld_name d} else {}) w v \<and>
    (find_define d new_value = None \<longrightarrow> logger_gone v d)"
proof (cases "find_define d new_value")
  case None
  obtain l u where get: "getLogger (ld_name d) w = (l, u)" by fastforce
  note u = getLogger_spec [OF w get]
  let ?v = "cleanAppenders l (setLevel UNKNOW l u)"
  have one: "one_logger l u ?v" using one_logger_steps one_logger_trans by blast
  then have "conf_frame (ld_name d) u ?v" using one_logger_frame u by blast
  then have "conf_frame (ld_name d) w ?v" using u conf_frame_trans by blast
  moreover have "conf_inv ?v"
    using u one by (auto simp: conf_inv_def one_logger_def attach_frame_def intro!: inv_intros)
  moreover have "logger_gone ?v d"
    using u one by (simp add: logger_gone_def one_logger_def attach_frame_def cleanAppenders_def setLevel_def)
  ultimately show ?thesis using None get by (simp add: remove_logger_def modify_apply)
next
  case (Some it)
  with w show ?thesis by (simp add: remove_logger_def return_apply)
qed

lemma find_define_name: "find_define d s = Some it \<Longrightarrow> it \<in> set s \<and> ld_name it = ld_name d"
  by (auto simp: find_define_def ld_less_def find_Some_iff)

lemma find_define_None: "find_define d s = None \<longleftrightarrow> ld_name d \<notin> ld_name ` set s"
  by (auto simp: find_define_def ld_less_def find_None_iff)

lemma set_ok_distinct: "set_ok key ds \<Longrightarrow> distinct (map key ds)"
  by (induction ds) (auto simp: set_ok_def)

lemma log_root_frame:
  assumes "mgr_built w"
  shows "log_frame w (snd (log_root lv file line msg w))"
  using assms Logger_log_frame
  by (simp add: log_root_def getRoot_def Let_def SYLAR_LOG_LEVEL_def LogEventWrap_destroy_def)

text \<open>The whole listener, after its first log line.\<close>

lemma listener_loops:
  assumes w: "conf_inv w" and types: "\<forall>d\<in>set new_value. define_types_ok d"
    and sets: "set_ok ld_name old_value" "set_ok ld_name new_value"
  shows "\<exists>v. bind_comp (for_each new_value (configure_logger old_value))
      (\<lambda>_. for_each old_value (remove_logger new_value)) w = (Inr (), v) \<and> conf_inv v \<and>
    (\<forall>d\<in>set new_value. define_changed old_value d \<longrightarrow> logger_matches v d) \<and>
    (\<forall>d\<in>set old_value. find_define d new_value = None \<longrightarrow> logger_gone v d) \<and>
    confs_frame (affected_names old_value new_value) w v"
proof -
  let ?gone = "ld_name ` {d \<in> set old_value. find_define d new_value = None}"
  obtain u where u: "for_each new_value (configure_logger old_value) w = (Inr (), u)" "conf_inv u"
      "confs_frame (ld_name ` {d \<in> set new_value. define_changed old_value d}) w u"
      "\<forall>d\<in>set new_value. define_changed old_value d \<longrightarrow> logger_matches u d"
    using conf_loop [of new_value "configure_logger old_value" "define_changed old_value" logger_matches w]
      configure_logger_step types logger_matches_frame set_ok_distinct [OF sets(2)] w by blast
  obtain v where v: "for_each old_value (remove_logger new_value) u = (Inr (), v)" "conf_inv v"
      "confs_frame ?gone u v" "\<forall>d\<in>set old_value. find_define d new_value = None \<longrightarrow> logger_gone v d"
    using conf_loop [of old_value "remove_logger new_value" "\<lambda>d. find_define d new_value = None" logger_gone u]
      remove_logger_step logger_gone_frame set_ok_distinct [OF sets(1)] u(2) by blast
  have "ld_name d \<notin> ?gone" if "d \<in> set new_value" for d
    using that by (auto simp: find_define_None) (metis imageI)
  then have "\<forall>d\<in>set new_value. define_changed old_value d \<longrightarrow> logger_matches v d"
    using u(4) logger_matches_frame [OF v(3)] by blast
  with u(1) v confs_frame_trans [OF u(3) v(3)] show ?thesis
    by (intro exI [of _ v]) (simp add: comp_simps affected_names_def)
qed

section \<open>The contract with the configuration module\<close>

text \<open>Proper values of the variable: ordered sets of definitions with the two appender types.\<close>

definition logs_good :: "log_define list + 'u \<Rightarrow> bool" where
  "logs_good v =
     (case v of Inl ds \<Rightarrow> set_ok ld_name ds \<and> (\<forall>d\<in>set ds. define_types_ok d) | Inr _ \<Rightarrow> True)"

lemma safe_config_error [safe_intros]: "keeps (log_grown n) (log_config_error Y msg node)"
  by (simp add: log_config_error_def safe_intros)

lemma safe_field_or [safe_intros]: "keeps P (field_or Y n k d)"
  by (simp add: field_or_def safe_intros)

lemma safe_read_appender [safe_intros]: "keeps (log_grown n) (read_appender Y a)"
  unfolding read_appender_def by (intro safe_intros)

lemma safe_read_appenders [safe_intros]: "keeps (log_grown n) (read_appenders Y node is acc)"
  by (induction "is" arbitrary: acc) (auto intro!: safe_intros)

lemma safe_LogDefine_from_string [safe_intros]: "keeps (log_grown n) (LogDefine_from_string Y t)"
  unfolding LogDefine_from_string_def by (intro safe_intros)

lemma safe_read_elems:
  "(\<And>t. keeps P (cast t)) \<Longrightarrow> keeps P (read_elems Y cast ins node is acc)"
  by (induction "is" arbitrary: acc) (auto intro!: safe_intros)

lemma safe_push_appenders [safe_intros]: "keeps P (push_appenders Y as n)"
  by (induction as arbitrary: n) (auto simp: push_field_def intro!: safe_intros)

lemma safe_write_elems: "(\<And>a. keeps P (cast a)) \<Longrightarrow> keeps P (write_elems Y cast as node)"
  by (induction as arbitrary: node) (auto intro!: safe_intros)

text \<open>What the casts can return.\<close>

definition lad_type_ok :: "log_appender_define \<Rightarrow> bool" where
  "lad_type_ok a = (lad_type a = 1 \<or> lad_type a = 2)"

lemma read_appender_types: "returns_only (read_appender Y a) (\<lambda>r. \<forall>lad. r = Some lad \<longrightarrow> lad_type_ok lad)"
  unfolding read_appender_def by (intro returns_intros) (simp_all add: lad_type_ok_def)

lemma read_appenders_types:
  "\<forall>lad\<in>set acc. lad_type_ok lad \<Longrightarrow>
     returns_only (read_appenders Y node is acc) (\<lambda>lads. \<forall>lad\<in>set lads. lad_type_ok lad)"
proof (induction "is" arbitrary: acc)
  case Nil
  then show ?case by (simp add: returns_only_return)
next
  case (Cons i "is")
  show ?case
    unfolding read_appenders.simps
    by (intro returns_only_bind_any returns_only_bind [OF read_appender_types] Cons.IH)
      (use Cons.prems in \<open>auto split: option.split\<close>)
qed

lemma LogDefine_from_string_types: "returns_only (LogDefine_from_string Y t) define_types_ok"
proof -
  have "returns_only (if IsDefined as then read_appenders Y as [0..<y_size Y as] [] else return [])
      (\<lambda>lads. \<forall>lad\<in>set lads. lad_type_ok lad)" for as
    using read_appenders_types [of "[]"] by (simp add: returns_only_return)
  then have last: "returns_only (bind_comp
      (if IsDefined as then read_appenders Y as [0..<y_size Y as] [] else return [])
      (\<lambda>lads. return \<lparr>ld_name = n, ld_level = lv, ld_formatter = f, ld_appenders = lads\<rparr>)) define_types_ok"
    for as n lv f
    by (rule returns_only_bind)
      (auto intro!: returns_only_return simp: define_types_ok_def lad_type_ok_def)
  show ?thesis
    unfolding LogDefine_from_string_def by (intro last returns_intros)
qed

lemma logs_from_good:
  "returns_only (set_from_string Y ld_name (LogDefine_from_string Y) t) (\<lambda>ds. logs_good (Inl ds :: log_define list + 'u))"
proof -
  let ?I = "\<lambda>ds. set_ok ld_name ds \<and> (\<forall>d\<in>set ds. define_types_ok d)"
  have "returns_only (read_elems Y (LogDefine_from_string Y) (set_insert ld_name) node is []) ?I" for node "is"
  proof (rule read_elems_returns [OF LogDefine_from_string_types])
    show "?I (set_insert ld_name d ds)" if "define_types_ok d" "?I ds" for d ds
      using that subsetD [OF set_set_insert, of _ ld_name d ds] by (auto simp: set_ok_insert)
  qed (simp add: set_ok_def)
  then show ?thesis
    unfolding set_from_string_def read_sequence_def logs_good_def
    by (intro returns_only_bind_any) simp
qed

lemma conf_inv_root: "log_inv w \<Longrightarrow> mgr_built w \<Longrightarrow> conf_inv w"
  by (simp add: conf_inv_def)

lemma log_root_built: "mgr_built (snd (log_root lv file line msg w))"
proof -
  have "log_frame (GetInstance w) (snd (log_root lv file line msg w))"
    using Logger_log_frame
    by (simp add: log_root_def getRoot_def Let_def SYLAR_LOG_LEVEL_def LogEventWrap_destroy_def)
  then show ?thesis by (simp add: log_frame_def)
qed

text \<open>
  The listener from any state of the logging module: its outcome is that of its log line, and when
  that ends normally the definitions are applied, with the frame of \<open>affected_names\<close> from there on.
\<close>

lemma on_changed_outcome:
  assumes w: "log_inv w" and types: "\<forall>d\<in>set new_value. define_types_ok d"
    and sets: "set_ok ld_name old_value" "set_ok ld_name new_value"
    and run: "on_logger_conf_changed old_value new_value w = (r, v)"
  shows "r = fst (log_root INFO ''sylar/log.cc'' 882 ''on_logger_conf_changed'' w) \<and>
    r \<in> {Inr (), Inl (Undefined Indeterminate_Value)} \<and>
    (r = Inr () \<longrightarrow> log_inv v \<and> mgr_built v \<and>
      (\<forall>d\<in>set new_value. define_changed old_value d \<longrightarrow> logger_matches v d) \<and>
      (\<forall>d\<in>set old_value. ld_name d \<notin> ld_name ` set new_value \<longrightarrow> logger_gone v d) \<and>
      confs_frame (affected_names old_value new_value)
        (snd (log_root INFO ''sylar/log.cc'' 882 ''on_logger_conf_changed'' w)) v)"
proof -
  let ?log = "log_root INFO ''sylar/log.cc'' 882 ''on_logger_conf_changed''"
  let ?gone = "\<lambda>d. find_define d new_value = None"
  obtain q u where first: "?log w = (q, u)" by fastforce
  have "log_grown 0 w" using w by (simp add: log_grown_def)
  then have q: "log_grown 0 u" "q \<in> {Inr (), Inl (Undefined Indeterminate_Value)}"
    using yieldsD [OF yields_log_root, of 0 w INFO "''sylar/log.cc''" 882 "''on_logger_conf_changed''"] first
    by simp_all
  have "mgr_built u" using log_root_built [of INFO "''sylar/log.cc''" 882 "''on_logger_conf_changed''" w] first by simp
  with q(1) have "conf_inv u" by (simp add: conf_inv_def log_grown_def)
  from listener_loops [OF this types sets] obtain v' where
    v': "bind_comp (for_each new_value (configure_logger old_value))
        (\<lambda>_. for_each old_value (remove_logger new_value)) u = (Inr (), v')" "conf_inv v'"
      "\<forall>d\<in>set new_value. define_changed old_value d \<longrightarrow> logger_matches v' d"
      "\<forall>d\<in>set old_value. ?gone d \<longrightarrow> logger_gone v' d"
      "confs_frame (affected_names old_value new_value) u v'" by blast
  show ?thesis
  proof (cases "q = Inr ()")
    case True
    with run first v'(1) have "r = Inr ()" "v = v'"
      by (simp_all add: on_logger_conf_changed_def bind_comp_apply)
    then show ?thesis
      using v'(2-5) first True by (simp add: conf_inv_def find_define_None)
  next
    case False
    with run first q(2) show ?thesis by (auto simp: on_logger_conf_changed_def bind_comp_apply)
  qed
qed

text \<open>The listener does not break the logging module: it keeps its invariant, and never throws.\<close>

lemma keeps_on_changed:
  assumes "\<forall>d\<in>set new_value. define_types_ok d" "set_ok ld_name old_value" "set_ok ld_name new_value"
  shows "keeps (log_grown n) (on_logger_conf_changed old_value new_value)"
proof (rule keepsI)
  fix w
  assume w: "log_grown n w"
  obtain r u where first: "log_root INFO ''sylar/log.cc'' 882 ''on_logger_conf_changed'' w = (r, u)" by fastforce
  have u: "log_grown n u" "safe_result r" "mgr_built u"
    using keepsD [OF safe_log_root w, of INFO "''sylar/log.cc''" 882 "''on_logger_conf_changed''"] first
      log_root_built [of INFO "''sylar/log.cc''" 882 "''on_logger_conf_changed''" w] by simp_all
  then have "conf_inv u" by (simp add: log_grown_def conf_inv_def)
  from listener_loops [OF this assms] obtain v where
    v: "bind_comp (for_each new_value (configure_logger old_value))
      (\<lambda>_. for_each old_value (remove_logger new_value)) u = (Inr (), v)" "conf_inv v"
      "next_logger u \<le> next_logger v" unfolding confs_frame_def by blast
  show "log_grown n (snd (on_logger_conf_changed old_value new_value w)) \<and>
    safe_result (fst (on_logger_conf_changed old_value new_value w))"
    using first u v by (cases r) (auto simp: on_logger_conf_changed_def bind_comp_apply log_grown_def conf_inv_def)
qed

lemma safe_logs_from:
  "keeps (log_grown n) (set_from_string Y ld_name (LogDefine_from_string Y) t)"
  unfolding set_from_string_def read_sequence_def
  by (intro safe_intros safe_read_elems)

lemma safe_logs_to:
  "keeps (log_grown n) (set_to_string Y (LogDefine_to_string Y) ds)"
  unfolding set_to_string_def write_sequence_def LogDefine_to_string_def
  by (intro safe_intros safe_write_elems)

lemma logs_contract: "config_type_contract (logs_type Y) logs_good"
proof
  show "safe_comp (ct_from (logs_type Y) t)" for t
    unfolding logs_type_def by (simp add: safe_logs_from safe_intros)
  show "logs_good v" if "fst (ct_from (logs_type Y) t w) = Inr v" for w t v
  proof -
    obtain r u where run: "set_from_string Y ld_name (LogDefine_from_string Y) t w = (r, u)" by fastforce
    with that obtain ds where "r = Inr ds" "v = Inl ds"
      by (cases r) (auto simp: logs_type_def comp_simps)
    with run logs_from_good [of Y t, where 'u = 'b] show ?thesis by (auto simp: returns_only_def)
  qed
  show "safe_comp (ct_to (logs_type Y) v)" if "logs_good v" for v
    unfolding logs_type_def by (cases v) (simp_all add: safe_logs_to safe_intros)
qed

interpretation logs: listener_contract "logs_type Y" logs_good logs_cb
  for Y :: yaml_lib
proof (intro listener_contract.intro logs_contract listener_contract_axioms.intro allI)
  fix old_value new_value :: "log_define list + 'a" and n
  assume "logs_good old_value" "logs_good new_value"
  then show "keeps (log_grown n) (logs_cb old_value new_value)"
    by (cases old_value; cases new_value) (auto simp: logs_good_def intro!: keeps_on_changed safe_intros)
qed

lemma logs_default: "default_ok (logs_type Y) (Inl [])"
  unfolding default_ok_def using logs_contract
  by (intro exI [of _ logs_good]) (simp add: logs_good_def set_ok_def)

lemma valid_logs: "valid_name ''logs''"
  by (simp add: valid_name_def has_char_not_of_def config_chars_def)

text \<open>Start up: the variable is created and the listener attached.\<close>

lemma init_log_config_spec:
  assumes s: "cfg_reachable s" and new: "map_of (datas s) ''logs'' = None"
  shows "\<exists>t. init_log_config Y s = (Inr (), t) \<and> cfg_reachable t \<and>
    map_of (datas t) ''logs'' = Some (next_var s) \<and> cv_type (vars t (next_var s)) = logs_type Y \<and>
    cv_val (vars t (next_var s)) = Inl [] \<and> cv_cbs (vars t (next_var s)) = [(0xF1E231, Some logs_cb)] \<and>
    sys_world t = sys_world s \<and> next_var t = Suc (next_var s) \<and> datas t = omap_put ''logs'' (next_var s) (datas s)"
proof -
  let ?p = "next_var s"
  obtain u where u: "Lookup (logs_type Y) ''logs'' (Inl []) ''logs config'' s = (Inr (Some ?p), u)"
    "vars u ?p = ConfigVar (logs_type Y) ''logs'' (Inl []) ''logs config''" "next_var u = Suc ?p"
    "datas u = omap_put ''logs'' ?p (datas s)" "sys_world u = sys_world s"
    using new valid_logs by (simp add: Lookup_def valid_name_def)
  have ok: "omap_ok (datas s)" using cfg_reachable_inv [OF s] by (simp add: sys_inv_def registry_ok_def)
  have reach: "cfg_reachable u"
    using cfg_reachable.step [OF s cfg_step.look_up [OF logs_default [of Y], where name = "''logs''" and d = "''logs config''"]]
      u(1) by simp
  have "listener_ok (cv_type (vars u ?p)) logs_good (Some logs_cb)"
    using logs.listener_contract_axioms u(2) by (simp add: listener_ok_def ConfigVar_def)
  moreover have "var_safe_for logs_good (vars u ?p)"
    using u(2) logs_contract by (simp add: var_safe_for_def ConfigVar_def logs_good_def set_ok_def)
  ultimately have "cfg_step u (LogIniter ?p u)"
    unfolding LogIniter_def using u(3) by (intro cfg_step.add_listener) simp_all
  with reach have "cfg_reachable (LogIniter ?p u)" by (rule cfg_reachable.step)
  with u ok show ?thesis
    by (intro exI [of _ "LogIniter ?p u"])
      (simp add: init_log_config_def comp_simps LogIniter_def addListener_def ConfigVar_def)
qed

end
