(* ===== verification/Log_Config_Properties.thy ===== *)
theory Log_Config_Properties
  imports Log_Config
begin

text \<open>
  The properties of the configured logging module: loading any document is safe, the listener does
  what the definitions say, and the two defects of \<open>LogDefine\<close>: changes of appenders are not
  seen, and the levels of appenders are not read.
\<close>

section \<open>Properties\<close>

text \<open>
  C11. After start up, loading any document, be it from \<open>yaml-cpp\<close> or not, and so applying any
  definitions to the loggers, ends normally, with an exception of the YAML library, or with a date
  that its buffer cannot hold: no null pointer is dereferenced, no recursion is endless, and the
  invariants of the registry and of the logging module hold afterwards.
\<close>

theorem logging_config_safe:
  assumes "cfg_reachable s" and "map_of (datas s) ''logs'' = None" and "init_log_config Y s = (r, t)"
  shows "r = Inr () \<and> cfg_reachable t \<and>
    fst (LoadFromYaml Y doc t) \<notin> {Inl (Undefined Null_Dereference), Inl (Undefined Stack_Overflow)} \<and>
    registry_ok (snd (LoadFromYaml Y doc t)) \<and> log_inv (sys_world (snd (LoadFromYaml Y doc t)))"
proof -
  from init_log_config_spec [OF assms(1,2), of Y] assms(3) have t: "r = Inr ()" "cfg_reachable t" by auto
  have inv: "sys_from t t" using cfg_reachable_inv [OF t(2)] by (simp add: sys_from_refl)
  from keepsD [OF LoadFromYaml_keeps inv, of Y doc] t show ?thesis
    by (auto simp: sys_from_def sys_inv_def safe_result_def)
qed

text \<open>An empty registry, whose values may be sets of definitions or texts.\<close>

definition empty_system :: "(log_define list + string) system" where
  "empty_system = \<lparr>sys_world = first_world, vars = (\<lambda>_. ConfigVar (logs_type codec_yaml) [] (Inl []) []),
     next_var = 0, datas = []\<rparr>"

lemma empty_system_reachable: "cfg_reachable empty_system"
  by (rule cfg_reachable.start) (simp_all add: empty_system_def first_world_reachable)

theorem logging_config_safe_witness:
  "fst (init_log_config codec_yaml empty_system) = Inr () \<and>
   cfg_reachable (snd (init_log_config codec_yaml empty_system))"
proof -
  have "map_of (datas empty_system) ''logs'' = None" by (simp add: empty_system_def)
  from logging_config_safe [OF empty_system_reachable this, of codec_yaml _ _ YNull] show ?thesis
    by (metis prod.collapse)
qed

text \<open>A logger that is not affected keeps everything, and its appenders keep level, class and stream.\<close>

lemma unaffected_kept:
  assumes "confs_frame S u v" and "map_of (mgr_loggers u) k = Some l" and "k \<notin> S"
    and "\<forall>ap\<in>set (lg_appenders (loggers u l)). ap < next_appender u"
  shows "map_of (mgr_loggers v) k = Some l \<and> loggers v l = loggers u l \<and>
    (\<forall>ap\<in>set (lg_appenders (loggers u l)).
       la_level (appenders v ap) = la_level (appenders u ap) \<and>
       la_class (appenders v ap) = la_class (appenders u ap) \<and>
       ((\<forall>j\<in>S. ap \<notin> owned u j) \<longrightarrow> la_formatter (appenders v ap) = la_formatter (appenders u ap)))"
  using assms by (simp add: confs_frame_def owned_frame_def)

text \<open>
  C10. The listener does what the new value says, unless its first log line fails: the outcome of that
  line is its outcome. Otherwise every definition that is new, or in which \<open>operator==\<close> sees a
  difference, ends as a registered logger with its level, its pattern when that is valid, and
  exactly the appenders of the definition, of the right kind, file, level and formatter, in order
  and shared with no other registered logger; the logger of a definition that is gone accepts every
  level and has no appenders. Every other registered logger, of a name in neither value or of a
  definition that is in both without a difference, is untouched: it keeps its level, formatter and
  appenders, and these keep their level and their stream as the log line left them (so no file is
  opened again), and their formatter unless a logger that is changed had the appender as well.
\<close>

theorem listener_applies:
  assumes "log_reachable w" and "mgr_built w"
    and "\<forall>d\<in>set new_value. define_types_ok d"
    and "set_ok ld_name old_value" and "set_ok ld_name new_value"
    and "on_logger_conf_changed old_value new_value w = (r, v)"
    and u: "u = snd (log_root INFO ''sylar/log.cc'' 882 ''on_logger_conf_changed'' w)"
  shows "r = fst (log_root INFO ''sylar/log.cc'' 882 ''on_logger_conf_changed'' w) \<and>
    r \<in> {Inr (), Inl (Undefined Indeterminate_Value)} \<and>
    (r = Inr () \<longrightarrow> log_inv v \<and>
      (\<forall>d\<in>set new_value. define_changed old_value d \<longrightarrow> logger_matches v d) \<and>
      (\<forall>d\<in>set old_value. ld_name d \<notin> ld_name ` set new_value \<longrightarrow> logger_gone v d) \<and>
      (\<forall>k l. map_of (mgr_loggers w) k = Some l \<longrightarrow> map_of (mgr_loggers v) k = Some l \<and>
         (k \<notin> affected_names old_value new_value \<longrightarrow>
            loggers v l = loggers w l \<and>
            (\<forall>ap\<in>set (lg_appenders (loggers w l)).
               la_level (appenders v ap) = la_level (appenders w ap) \<and>
               la_class (appenders v ap) = la_class (appenders u ap) \<and>
               ((\<forall>j\<in>affected_names old_value new_value. ap \<notin> owned w j) \<longrightarrow>
                  la_formatter (appenders v ap) = la_formatter (appenders u ap))))))"
proof -
  note inv = log_reachable_inv [OF assms(1)]
  note outcome = on_changed_outcome [OF inv assms(3-6)]
  have frame: "log_frame w u" using log_root_frame [OF assms(2)] by (simp add: u)
  then have same: "mgr_loggers u = mgr_loggers w" "loggers u = loggers w" "next_appender u = next_appender w"
    "\<And>ap. la_level (appenders u ap) = la_level (appenders w ap)" "owned u = owned w"
    by (simp_all add: log_frame_def owned_def fun_eq_iff split: option.split)
  have "\<forall>ap\<in>set (lg_appenders (loggers w l)). ap < next_appender w" if "map_of (mgr_loggers w) k = Some l" for k l
    using log_inv_appender [OF inv] log_inv_find [OF inv assms(2) that] by blast
  then have "map_of (mgr_loggers v) k = Some l \<and> (k \<notin> affected_names old_value new_value \<longrightarrow>
      loggers v l = loggers w l \<and> (\<forall>ap\<in>set (lg_appenders (loggers w l)).
        la_level (appenders v ap) = la_level (appenders w ap) \<and>
        la_class (appenders v ap) = la_class (appenders u ap) \<and>
        ((\<forall>j\<in>affected_names old_value new_value. ap \<notin> owned w j) \<longrightarrow>
           la_formatter (appenders v ap) = la_formatter (appenders u ap))))"
    if "map_of (mgr_loggers w) k = Some l" "r = Inr ()" for k l
    using outcome that unaffected_kept [of "affected_names old_value new_value" u v k l]
      confs_frame_kept [of "affected_names old_value new_value" u v k l] by (simp add: same u [symmetric])
  with outcome show ?thesis by blast
qed

theorem listener_applies_witness:
  "fst (on_logger_conf_changed [] [system_define ERROR] first_world) = Inr () \<and>
   logger_matches (snd (on_logger_conf_changed [] [system_define ERROR] first_world)) (system_define ERROR)"
proof -
  have types: "\<forall>d\<in>set [system_define ERROR]. define_types_ok d"
    by (simp add: define_types_ok_def system_define_def)
  have sets: "set_ok ld_name []" "set_ok ld_name [system_define ERROR]" by (simp_all add: set_ok_def)
  from listener_applies [OF first_world_reachable first_world_simps(3) types sets prod.collapse [symmetric] refl]
  show ?thesis by (simp add: first_world_logs less_eq_level_def define_changed_def find_define_def)
qed

text \<open>
  C35. \<open>operator==\<close> of the definitions compares the appenders of the left operand with themselves.
  A new value that differs from the old one in appenders only counts as equal: setting it returns
  at once, the variable keeps the old value, and no listener is called, whatever the two values'
  appenders are.
\<close>

theorem appender_changes_ignored:
  assumes "cv_type (vars s p) = logs_type Y" and "cv_val (vars s p) = Inl old_value"
    and "list_all2 (\<lambda>a b. ld_name a = ld_name b \<and> ld_level a = ld_level b \<and> ld_formatter a = ld_formatter b)
      new_value old_value"
  shows "setValue p (Inl new_value) s = (Inr (), s) \<and>
    (\<forall>d it. find_define d old_value = Some it \<and> ld_level d = ld_level it \<and> ld_formatter d = ld_formatter it \<longrightarrow>
       configure_logger old_value d = return ())"
proof
  have self: "seq_eq lad_eq as as" for as
    by (simp add: seq_eq_def list_all2_same lad_eq_def)
  have "seq_eq ld_eq new_value old_value"
    unfolding seq_eq_def using assms(3) by (rule list_all2_mono) (simp add: ld_eq_def self)
  with assms(1,2) show "setValue p (Inl new_value) s = (Inr (), s)"
    by (simp add: setValue_def logs_type_def)
  show "\<forall>d it. find_define d old_value = Some it \<and> ld_level d = ld_level it \<and> ld_formatter d = ld_formatter it \<longrightarrow>
      configure_logger old_value d = return ()"
    using find_define_name by (fastforce simp: configure_logger_def ld_eq_def self)
qed

definition logs_system :: "(log_define list + string) system" where
  "logs_system = snd (setValue 0 (Inl [system_define UNKNOW]) (empty_system\<lparr>next_var := 1\<rparr>))"

lemma logs_system_value:
  "cv_type (vars logs_system 0) = logs_type codec_yaml" "cv_val (vars logs_system 0) = Inl [system_define UNKNOW]"
  by (simp_all add: logs_system_def setValue_def empty_system_def ConfigVar_def logs_type_def seq_eq_def
      run_cbs_def comp_simps in_world_eq)

theorem appender_changes_ignored_witness:
  "setValue 0 (Inl [(system_define UNKNOW)\<lparr>ld_appenders := []\<rparr>]) logs_system = (Inr (), logs_system)"
  using appender_changes_ignored [OF logs_system_value, of "[(system_define UNKNOW)\<lparr>ld_appenders := []\<rparr>]"]
  by simp

text \<open>
  The level of an appender cannot be configured: no text that the cast accepts gives an
  appender a level other than UNKNOW, which accepts every event, although the casts write the
  level and the listener sets it.
\<close>

lemma appender_level_not_read:
  assumes "LogDefine_from_string Y t w = (Inr d, v)" and "a \<in> set (ld_appenders d)"
  shows "lad_level a = UNKNOW \<and> lad_level a \<le> lv \<and>
    la_level (defined_appender fm can a) = UNKNOW"
proof -
  have one: "returns_only (read_appender Y x) (\<lambda>r. \<forall>lad. r = Some lad \<longrightarrow> lad_level lad = UNKNOW)" for x
    unfolding read_appender_def by (intro returns_intros) simp_all
  have all: "returns_only (read_appenders Y node is acc) (\<lambda>lads. \<forall>lad\<in>set lads. lad_level lad = UNKNOW)"
    if "\<forall>lad\<in>set acc. lad_level lad = UNKNOW" for node "is" acc
    using that
  proof (induction "is" arbitrary: acc)
    case Nil
    then show ?case by (simp add: returns_only_return)
  next
    case (Cons i "is")
    show ?case
      unfolding read_appenders.simps
      by (intro returns_only_bind_any returns_only_bind [OF one] Cons.IH)
        (use Cons.prems in \<open>auto split: option.split\<close>)
  qed
  have last: "returns_only (bind_comp
      (if IsDefined as then read_appenders Y as [0..<y_size Y as] [] else return [])
      (\<lambda>lads. return \<lparr>ld_name = n, ld_level = lev, ld_formatter = f, ld_appenders = lads\<rparr>))
      (\<lambda>d. \<forall>a\<in>set (ld_appenders d). lad_level a = UNKNOW)" for as n lev f
    by (rule returns_only_bind [where Q = "\<lambda>lads. \<forall>lad\<in>set lads. lad_level lad = UNKNOW"])
      (use all [of "[]"] in \<open>auto intro!: returns_only_return\<close>)
  have "returns_only (LogDefine_from_string Y t) (\<lambda>d. \<forall>a\<in>set (ld_appenders d). lad_level a = UNKNOW)"
    unfolding LogDefine_from_string_def by (intro last returns_intros)
  with assms have "lad_level a = UNKNOW" by (auto simp: returns_only_def)
  then show ?thesis by (simp add: defined_appender_def)
qed

end
