(* ===== verification/Log_Load.thy ===== *)
theory Log_Load
  imports Log_Config_Properties
begin

text \<open>
  The configuration module and the logging module together: what loading a document with the
  definitions of loggers under \<open>logs\<close> does to the variable and, through its listener, to the loggers.
\<close>

section \<open>Reading the document\<close>

text \<open>The document \<open>logs: [...]\<close> with the definitions as the cast to text writes them.\<close>

definition logs_doc :: "yaml_lib \<Rightarrow> log_define list \<Rightarrow> yaml" where
  "logs_doc Y ds = YMap [(YScalar ''logs'', YSeq (map (define_yaml Y) ds))]"

lemma logs_list:
  assumes "yaml_laws Y"
  shows "ListAllMember Y [] (logs_doc Y ds) [] =
    return [([], logs_doc Y ds), (''logs'', YSeq (map (define_yaml Y) ds))]"
proof -
  have "\<not> has_char_not_of [] config_chars" "\<not> has_char_not_of ''logs'' config_chars"
    using valid_logs valid_port(3) by (simp_all add: valid_name_def)
  with assms show ?thesis
    by (simp add: logs_doc_def ListAllMember.simps child_path_def yaml_simps)
qed

lemma logs_from_doc:
  assumes laws: "yaml_laws Y" and ok: "\<forall>d\<in>set ds. define_ok d" and "set_ok ld_name ds"
  shows "set_from_string Y ld_name (LogDefine_from_string Y) (y_emit Y (YSeq (map (define_yaml Y) ds))) =
    return (map forget_levels ds)"
proof -
  let ?ns = "map (define_yaml Y) ds"
  have print_all: "printable (YSeq ?ns)" using ok define_yaml_printable [OF laws] by simp
  have "list_all2 (\<lambda>a n. LogDefine_from_string Y (y_emit Y n) = return a) (map forget_levels ds) ?ns"
    using ok read_define_yaml [OF laws _ yaml_lawsD(1) [OF laws define_yaml_printable [OF laws]]]
    by (auto simp: list_all2_conv_all_nth)
  from read_elems_codec [OF laws this, of "set_insert ld_name" "[]" "[]"]
  have "read_elems Y (LogDefine_from_string Y) (set_insert ld_name) (YSeq ?ns) [0..<length ?ns] [] =
      return (fold (set_insert ld_name) (map forget_levels ds) [])" by simp
  moreover have "set_ok ld_name ([] @ map forget_levels ds)"
    using assms(3) by (simp add: set_ok_def sorted_wrt_map forget_levels_def)
  ultimately show ?thesis
    using laws yaml_lawsD(1) [OF laws print_all] fold_set_insert
    by (fastforce simp: set_from_string_def read_sequence_def yaml_simps)
qed

lemma forget_types: "define_ok d \<Longrightarrow> define_types_ok (forget_levels d)"
  by (auto simp: define_ok_def appender_define_ok_def define_types_ok_def forget_levels_def)

lemma forget_set_ok: "set_ok ld_name ds \<Longrightarrow> set_ok ld_name (map forget_levels ds)"
  by (simp add: set_ok_def sorted_wrt_map forget_levels_def)

text \<open>\<open>fromString\<close> on the variable: the value is read, and an unequal one goes through the listener.\<close>

lemma logs_fromString:
  assumes "cv_type (vars s p) = logs_type Y" "cv_val (vars s p) = Inl old_value"
    and "cv_cbs (vars s p) = [(0xF1E231, Some logs_cb)]"
    and "set_from_string Y ld_name (LogDefine_from_string Y) t (sys_world s) = (Inr new_value, w0)"
    and "on_logger_conf_changed old_value new_value w0 = (r, w)" "r \<in> {Inr (), Inl (Undefined e)}"
  shows "fromString p t s =
    (if seq_eq ld_eq new_value old_value then (Inr True, s\<lparr>sys_world := w0\<rparr>)
     else if r = Inr () then
       (Inr True, upd_var p (cv_val_update (\<lambda>_. Inl new_value)) (s\<lparr>sys_world := w\<rparr>))
     else (Inl (Undefined e), s\<lparr>sys_world := w\<rparr>))"
  using assms
  by (auto simp: fromString_def logs_type_def setValue_def run_cbs_def Let_def comp_simps in_world_eq)

section \<open>Property\<close>

text \<open>
  C8. Loading the document of a set of definitions configures the loggers. Unless the listener's
  log line fails, loading ends normally, the variable \<open>logs\<close> has the definitions (without the levels
  of appenders, which are not read), every definition in which \<open>operator==\<close> sees a change is a
  registered logger with its level and pattern and exactly its appenders, and the loggers of definitions that are
  gone have no appenders; when \<open>operator==\<close> sees no change at all nothing happens.
\<close>

theorem logs_document_configures:
  assumes "yaml_laws Y" and "cfg_reachable t" and "map_of (datas t) ''logs'' = Some p"
    and "cv_type (vars t p) = logs_type Y" and "cv_val (vars t p) = Inl old_value"
    and "cv_cbs (vars t p) = [(0xF1E231, Some logs_cb)]" and "set_ok ld_name old_value"
    and "\<forall>d\<in>set ds. define_ok d" and "set_ok ld_name ds"
    and "new_value = map forget_levels ds" and "LoadFromYaml Y (logs_doc Y ds) t = (r, u)"
  shows "if seq_eq ld_eq new_value old_value then r = Inr () \<and> u = t
    else r = fst (log_root INFO ''sylar/log.cc'' 882 ''on_logger_conf_changed'' (sys_world t)) \<and>
      r \<in> {Inr (), Inl (Undefined Indeterminate_Value)} \<and>
      (r = Inr () \<longrightarrow> getValue p u = Inl new_value \<and>
       (\<forall>d\<in>set new_value. define_changed old_value d \<longrightarrow> logger_matches (sys_world u) d) \<and>
       (\<forall>d\<in>set old_value. ld_name d \<notin> ld_name ` set new_value \<longrightarrow> logger_gone (sys_world u) d))"
proof -
  let ?n = "YSeq (map (define_yaml Y) ds)"
  have inv: "log_inv (sys_world t)" using cfg_reachable_inv [OF assms(2)] by (simp add: sys_inv_def)
  have types: "\<forall>d\<in>set new_value. define_types_ok d" using assms(8,10) forget_types by auto
  have sorted: "set_ok ld_name new_value" using assms(9,10) forget_set_ok by simp
  obtain lr w where listener: "on_logger_conf_changed old_value new_value (sys_world t) = (lr, w)" by fastforce
  note outcome = on_changed_outcome [OF inv types assms(7) sorted listener]
  then have lr: "lr \<in> {Inr (), Inl (Undefined Indeterminate_Value)}" by blast
  have read: "set_from_string Y ld_name (LogDefine_from_string Y) (node_text Y ?n) = return new_value"
    using logs_from_doc [OF assms(1,8,9)] assms(10) by (simp add: node_text_def)
  note assigned = logs_fromString [OF assms(4-6) fun_cong [OF read, unfolded return_apply] listener lr]
  have none: "load_member Y ([], logs_doc Y ds) t = (Inr (), t)" by (simp add: load_member_def)
  have member: "load_member Y (''logs'', ?n) t = bind_comp (fromString p (node_text Y ?n)) (\<lambda>_. return ()) t"
    using assms(3) valid_logs by (intro load_member_some [OF assms(1)]) simp_all
  have "(r, u) = bind_comp (fromString p (node_text Y ?n)) (\<lambda>_. return ()) t"
    using assms(11) none member
    by (auto simp: LoadFromYaml_def logs_list [OF assms(1)] bind_comp_apply in_world_eq return_apply
        split: sum.splits prod.splits)
  then show ?thesis
    using outcome lr by (auto simp: bind_comp_apply return_apply assigned getValue_def split: if_splits)
qed

definition configured_system :: "(log_define list + string) system" where
  "configured_system = snd (init_log_config codec_yaml empty_system)"

lemma configured_system_facts:
  "cfg_reachable configured_system" "map_of (datas configured_system) ''logs'' = Some 0"
  "cv_type (vars configured_system 0) = logs_type codec_yaml" "cv_val (vars configured_system 0) = Inl []"
  "cv_cbs (vars configured_system 0) = [(0xF1E231, Some logs_cb)]" "sys_world configured_system = first_world"
proof -
  have "map_of (datas empty_system) ''logs'' = None" by (simp add: empty_system_def)
  from init_log_config_spec [OF empty_system_reachable this, of codec_yaml]
  show "cfg_reachable configured_system" "map_of (datas configured_system) ''logs'' = Some 0"
    "cv_type (vars configured_system 0) = logs_type codec_yaml" "cv_val (vars configured_system 0) = Inl []"
    "cv_cbs (vars configured_system 0) = [(0xF1E231, Some logs_cb)]"
    by (auto simp: configured_system_def empty_system_def)
  show "sys_world configured_system = first_world"
    using valid_logs
    by (simp add: configured_system_def init_log_config_def Lookup_def empty_system_def valid_name_def
        bind_comp_apply modify_apply LogIniter_def)
qed

theorem logs_document_configures_witness:
  "fst (LoadFromYaml codec_yaml (logs_doc codec_yaml [system_define ERROR]) configured_system) = Inr () \<and>
   logger_matches (sys_world (snd (LoadFromYaml codec_yaml (logs_doc codec_yaml [system_define ERROR])
     configured_system))) (system_define UNKNOW)"
proof -
  have sets: "set_ok ld_name []" "set_ok ld_name [system_define ERROR]" by (simp_all add: set_ok_def)
  have ok: "\<forall>d\<in>set [system_define ERROR]. define_ok d" by (simp add: system_define_ok)
  from logs_document_configures [OF codec_yaml_laws configured_system_facts(1-5) sets(1) ok sets(2) refl prod.collapse [symmetric]]
  show ?thesis
    by (simp add: system_define_ok seq_eq_def define_changed_def find_define_def
        configured_system_facts(6) first_world_logs
        less_eq_level_def)
qed

end
