(* ===== verification/Log_Shipped.thy ===== *)
theory Log_Shipped
  imports Log_Load
begin

text \<open>
  The configuration file that comes with the program, \<open>bin/conf/log.yml\<close>, as the tree the YAML
  parser makes of it, and what loading it does to the loggers.
\<close>

section \<open>The file\<close>

abbreviation field :: "string \<Rightarrow> string \<Rightarrow> yaml \<times> yaml" where
  "field k v \<equiv> (YScalar k, YScalar v)"

text \<open>The first appender of \<open>root\<close> has a misspelt type.\<close>

definition misspelt_appender :: yaml where
  "misspelt_appender = YMap [field ''type'' ''FdfggsileLogAppender'', field ''file'' ''root.txt'']"

definition root_entry :: yaml where
  "root_entry = YMap [field ''name'' ''root'', field ''level'' ''info'',
     (YScalar ''appenders'', YSeq [misspelt_appender, YMap [field ''type'' ''StdoutLogAppender'']])]"

definition system_entry :: yaml where
  "system_entry = YMap [field ''name'' ''system'', field ''level'' ''info'', field ''formatter'' ''%d%T%m'',
     (YScalar ''appenders'', YSeq [YMap [field ''type'' ''FileLogAppender'', field ''file'' ''system.txt''],
        YMap [field ''type'' ''StdoutLogAppender'']])]"

definition log_yml :: yaml where
  "log_yml = YMap [(YScalar ''logs'', YSeq [root_entry, system_entry])]"

text \<open>The definitions it stands for: \<open>system_define UNKNOW\<close> is that of the logger \<open>system\<close>.\<close>

definition root_define :: log_define where
  "root_define = \<lparr>ld_name = ''root'', ld_level = INFO, ld_formatter = [],
     ld_appenders = [\<lparr>lad_type = 2, lad_level = UNKNOW, lad_formatter = [], lad_file = []\<rparr>]\<rparr>"

lemma shipped_printable: "printable root_entry" "printable system_entry"
  by (simp_all add: root_entry_def system_entry_def misspelt_appender_def plain_def)

lemma read_root_entry:
  assumes "yaml_laws Y"
  shows "LogDefine_from_string Y (y_emit Y root_entry) w =
    (Inr root_define, print (''log config error: appender type is invalid, '' @ y_emit Y misspelt_appender @ endl) w)"
proof -
  have load: "y_load Y (y_emit Y root_entry) = Inr root_entry"
    by (rule yaml_lawsD(1) [OF assms shipped_printable(1)])
  show ?thesis
    unfolding LogDefine_from_string_def load
    by (simp add: root_entry_def yaml_simps [OF assms] map_get_def IsDefined_def field_or_def read_appender_def
        misspelt_appender_def log_config_error_def root_define_def FromString_def comp_simps upt_rec del: append.simps)
qed

lemma read_system_entry:
  assumes "yaml_laws Y"
  shows "LogDefine_from_string Y (y_emit Y system_entry) w = (Inr (system_define UNKNOW), w)"
proof -
  have load: "y_load Y (y_emit Y system_entry) = Inr system_entry"
    by (rule yaml_lawsD(1) [OF assms shipped_printable(2)])
  show ?thesis
    unfolding LogDefine_from_string_def load
    by (simp add: system_entry_def yaml_simps [OF assms] map_get_def IsDefined_def field_or_def read_appender_def
        system_define_def FromString_def comp_simps upt_rec)
qed

definition misspelt_report :: "yaml_lib \<Rightarrow> string" where
  "misspelt_report Y = ''log config error: appender type is invalid, '' @ y_emit Y misspelt_appender @ endl"

lemma read_log_yml:
  assumes laws: "yaml_laws Y"
  shows "set_from_string Y ld_name (LogDefine_from_string Y) (y_emit Y (YSeq [root_entry, system_entry])) w =
    (Inr [root_define, system_define UNKNOW], print (misspelt_report Y) w)"
proof -
  have load: "y_load Y (y_emit Y (YSeq [root_entry, system_entry])) = Inr (YSeq [root_entry, system_entry])"
    by (rule yaml_lawsD(1) [OF laws]) (simp add: shipped_printable)
  have order: "ld_name root_define < ld_name (system_define UNKNOW)"
    by (simp add: root_define_def system_define_def less_char_def)
  have insert: "set_insert ld_name (system_define UNKNOW) [root_define] = [root_define, system_define UNKNOW]"
    unfolding set_insert.simps if_P [OF order] ..
  show ?thesis
    unfolding set_from_string_def read_sequence_def load
    by (simp add: yaml_simps [OF laws] upt_rec comp_simps read_root_entry [OF laws] read_system_entry [OF laws]
        insert misspelt_report_def del: append.simps set_insert.simps(2))
qed

lemma list_log_yml:
  assumes "yaml_laws Y"
  shows "ListAllMember Y [] log_yml [] =
    return [([], log_yml), (''logs'', YSeq [root_entry, system_entry])]"
proof -
  have "\<not> has_char_not_of [] config_chars" "\<not> has_char_not_of ''logs'' config_chars"
    using valid_logs valid_port(3) by (simp_all add: valid_name_def)
  with assms show ?thesis
    by (simp add: log_yml_def ListAllMember.simps child_path_def yaml_simps)
qed

section \<open>The loggers it configures\<close>

lemma pattern_dTm: "own_pattern ''%d%T%m'' = Some (LogFormatter ''%d%T%m'')"
proof -
  have ok: "tokens_ok [Item ''d'' None, Item ''T'' None, Item ''m'' None]" by (simp_all add: isalpha_def)
  have "render [Item ''d'' None, Item ''T'' None, Item ''m'' None] = ''%d%T%m''" by simp
  with LogFormatter_render [OF ok] show ?thesis
    by (simp add: own_pattern_def isError_def token_known_def s_format_items_def del: isError_LogFormatter)
qed

text \<open>The logger \<open>system\<close> writes an event to its file and to standard output.\<close>

lemma system_logs:
  assumes inv: "log_inv w" and built: "mgr_built w" and sys: "logger_matches w (system_define UNKNOW)"
    and line: "lf_format (w_time w) ''system'' INFO ev (LogFormatter ''%d%T%m'') = Inr line"
  shows "\<exists>l ap st v. map_of (mgr_loggers w) ''system'' = Some l \<and>
    la_class (appenders w ap) = FileLogAppender ''system.txt'' st \<and> Logger_log l INFO ev w = (Inr (), v) \<and>
    la_class (appenders v ap) = FileLogAppender ''system.txt'' (ofstream_write (w_can_write w ''system.txt'') line st) \<and>
    std_out v = std_out w @ line @ [CHR 0x0A]"
proof -
  obtain l where l: "map_of (mgr_loggers w) ''system'' = Some l" "lg_level (loggers w l) = INFO"
    "lg_formatter (loggers w l) = Some (LogFormatter ''%d%T%m'')"
    and aps: "list_all2 (appender_matches (lg_formatter (loggers w l)) w)
      (ld_appenders (system_define UNKNOW)) (lg_appenders (loggers w l))"
    using sys by (auto simp: logger_matches_def system_define_def pattern_dTm)
  have name: "lg_name (loggers w l) = ''system''" using log_inv_find [OF inv built l(1)] by simp
  obtain a b st where ab: "lg_appenders (loggers w l) = [a, b]"
    "la_class (appenders w a) = FileLogAppender ''system.txt'' st" "la_class (appenders w b) = StdoutLogAppender"
    "la_level (appenders w a) = UNKNOW" "la_level (appenders w b) = UNKNOW"
    "la_formatter (appenders w a) = Some (LogFormatter ''%d%T%m'')"
    "la_formatter (appenders w b) = Some (LogFormatter ''%d%T%m'')"
    using aps l(3)
    by (auto simp: system_define_def list_all2_Cons1 appender_matches_def own_pattern_def)
  let ?st = "ofstream_write (w_can_write w ''system.txt'') line st"
  let ?u = "upd_appender a (la_class_update (\<lambda>_. FileLogAppender ''system.txt'' ?st)) w"
  have low: "UNKNOW \<le> INFO" "INFO \<le> INFO" by (simp_all add: less_eq_level_def)
  have file_part: "appender_log a l INFO ev w = (Inr (), ?u)"
    using ab low line name by (simp add: appender_log_def file_log_def)
  have "b \<noteq> a" using ab(2,3) by auto
  then have out_part: "appender_log b l INFO ev ?u = (Inr (), print (line @ [CHR 0x0A]) ?u)"
    using ab low line name by (simp add: appender_log_def stdout_log_def Let_def)
  have "Logger_log l INFO ev w = (Inr (), print (line @ [CHR 0x0A]) ?u)"
    using l(2) ab(1) low file_part out_part by (simp add: Logger_log_def comp_simps)
  then show ?thesis
    using l(1) ab(2) by (intro exI [of _ l] exI [of _ a] exI [of _ st] exI) (auto simp: print_def)
qed

text \<open>Loading the file runs the listener on its definitions.\<close>

lemma load_log_yml:
  assumes laws: "yaml_laws Y" and var: "map_of (datas t) ''logs'' = Some p"
    "cv_type (vars t p) = logs_type Y" "cv_val (vars t p) = Inl []" "cv_cbs (vars t p) = [(0xF1E231, Some logs_cb)]"
    and listener: "on_logger_conf_changed [] [root_define, system_define UNKNOW]
      (print (misspelt_report Y) (sys_world t)) = (lr, w)"
    and lr: "lr \<in> {Inr (), Inl (Undefined Indeterminate_Value)}"
    and load: "LoadFromYaml Y log_yml t = (r, u)"
  shows "r = lr" and "sys_world u = w" and "lr = Inr () \<Longrightarrow> getValue p u = Inl [root_define, system_define UNKNOW]"
proof -
  let ?n = "YSeq [root_entry, system_entry]" and ?new = "[root_define, system_define UNKNOW]"
  have read: "set_from_string Y ld_name (LogDefine_from_string Y) (node_text Y ?n) (sys_world t) =
      (Inr ?new, print (misspelt_report Y) (sys_world t))"
    using read_log_yml [OF laws] by (simp add: node_text_def)
  have "\<not> seq_eq ld_eq ?new []" by (simp add: seq_eq_def)
  note assigned = logs_fromString [OF var(2-4) read listener lr, unfolded if_not_P [OF this]]
  have none: "load_member Y ([], log_yml) t = (Inr (), t)" by (simp add: load_member_def)
  have member: "load_member Y (''logs'', ?n) t = bind_comp (fromString p (node_text Y ?n)) (\<lambda>_. return ()) t"
    using var(1) valid_logs by (intro load_member_some [OF laws]) simp_all
  have "(r, u) = bind_comp (fromString p (node_text Y ?n)) (\<lambda>_. return ()) t"
    using load none member
    by (auto simp: LoadFromYaml_def list_log_yml [OF laws] bind_comp_apply in_world_eq return_apply
        split: sum.splits prod.splits)
  then show "r = lr" and "sys_world u = w" and "lr = Inr () \<Longrightarrow> getValue p u = Inl ?new"
    using lr by (auto simp: bind_comp_apply return_apply assigned getValue_def)
qed

text \<open>
  C9. Loading the file that comes with the program into the freshly set up variable \<open>logs\<close>: the
  misspelt appender is reported and left out, and unless the listener's log line fails the loggers \<open>root\<close>
  and \<open>system\<close> are as the file says. An event of level INFO logged to \<open>system\<close> then appends its line to
  \<open>system.txt\<close>, if the file takes it, and prints it.
\<close>

theorem shipped_file_configures:
  assumes laws: "yaml_laws Y" and reach: "cfg_reachable t" and var: "map_of (datas t) ''logs'' = Some p"
    "cv_type (vars t p) = logs_type Y" "cv_val (vars t p) = Inl []" "cv_cbs (vars t p) = [(0xF1E231, Some logs_cb)]"
    and load: "LoadFromYaml Y log_yml t = (r, u)"
  shows "r = fst (log_root INFO ''sylar/log.cc'' 882 ''on_logger_conf_changed''
        (print (misspelt_report Y) (sys_world t))) \<and>
    r \<in> {Inr (), Inl (Undefined Indeterminate_Value)} \<and>
    (r = Inr () \<longrightarrow> getValue p u = Inl [root_define, system_define UNKNOW] \<and>
      logger_matches (sys_world u) root_define \<and> logger_matches (sys_world u) (system_define UNKNOW) \<and>
      (\<forall>ev line. lf_format (w_time (sys_world u)) ''system'' INFO ev (LogFormatter ''%d%T%m'') = Inr line \<longrightarrow>
        (\<exists>l ap st v. map_of (mgr_loggers (sys_world u)) ''system'' = Some l \<and>
           la_class (appenders (sys_world u) ap) = FileLogAppender ''system.txt'' st \<and>
           Logger_log l INFO ev (sys_world u) = (Inr (), v) \<and>
           la_class (appenders v ap) =
             FileLogAppender ''system.txt'' (ofstream_write (w_can_write (sys_world u) ''system.txt'') line st) \<and>
           std_out v = std_out (sys_world u) @ line @ [CHR 0x0A])))"
proof -
  let ?new = "[root_define, system_define UNKNOW]"
  let ?w0 = "print (misspelt_report Y) (sys_world t)"
  have inv: "log_inv ?w0" using cfg_reachable_inv [OF reach] by (simp add: sys_inv_def print_inv)
  have types: "\<forall>d\<in>set ?new. define_types_ok d"
    by (simp add: define_types_ok_def root_define_def system_define_def)
  have sets: "set_ok ld_name []" "set_ok ld_name ?new"
    by (simp_all add: set_ok_def root_define_def system_define_def less_char_def)
  obtain lr w where listener: "on_logger_conf_changed [] ?new ?w0 = (lr, w)" by fastforce
  note outcome = on_changed_outcome [OF inv types sets listener]
  then have lr: "lr \<in> {Inr (), Inl (Undefined Indeterminate_Value)}" by blast
  note r = load_log_yml [OF laws var listener lr load]
  show ?thesis
  proof (intro conjI impI)
    show "r = fst (log_root INFO ''sylar/log.cc'' 882 ''on_logger_conf_changed'' ?w0)" using outcome r by simp
    show "r \<in> {Inr (), Inl (Undefined Indeterminate_Value)}" using lr r by simp
    assume returned: "r = Inr ()"
    show "getValue p u = Inl ?new" using returned r by simp
    have changed: "define_changed [] d" for d by (simp add: define_changed_def find_define_def)
    with outcome returned r show root: "logger_matches (sys_world u) root_define"
      and sys: "logger_matches (sys_world u) (system_define UNKNOW)" by simp_all
    have "log_inv (sys_world u)" using outcome returned r by simp
    moreover have "mgr_built (sys_world u)" using outcome returned r by simp
    ultimately show "\<forall>ev line. lf_format (w_time (sys_world u)) ''system'' INFO ev (LogFormatter ''%d%T%m'') = Inr line \<longrightarrow>
        (\<exists>l ap st v. map_of (mgr_loggers (sys_world u)) ''system'' = Some l \<and>
           la_class (appenders (sys_world u) ap) = FileLogAppender ''system.txt'' st \<and>
           Logger_log l INFO ev (sys_world u) = (Inr (), v) \<and>
           la_class (appenders v ap) =
             FileLogAppender ''system.txt'' (ofstream_write (w_can_write (sys_world u) ''system.txt'') line st) \<and>
           std_out v = std_out (sys_world u) @ line @ [CHR 0x0A])"
      using system_logs [OF _ _ sys] by blast
  qed
qed

text \<open>In the world of the first use of the macros the listener's line does not fail.\<close>

lemma printed_world_logs: "fst (log_root INFO file line msg (print t first_world)) = Inr ()"
proof -
  have root: "getRoot (print t first_world) = (0, print t first_world)"
    by (simp add: getRoot_def GetInstance_def print_def)
  obtain s where "lf_format start_env ''root'' INFO
      (stream_into msg (macro_event 0 INFO file line (print t first_world))) (LogFormatter default_pattern) = Inr s"
    using start_env_default by blast
  with root show ?thesis
    by (simp add: log_root_def SYLAR_LOG_LEVEL_def LogEventWrap_destroy_def getLevel_def macro_event_def
        LogEvent_def stream_into_def Logger_log_def comp_simps appender_log_def stdout_log_def print_def
        first_world_def manager_construction less_eq_level_def)
qed

theorem shipped_file_configures_witness:
  "fst (LoadFromYaml codec_yaml log_yml configured_system) = Inr () \<and>
   logger_matches (sys_world (snd (LoadFromYaml codec_yaml log_yml configured_system))) root_define \<and>
   logger_matches (sys_world (snd (LoadFromYaml codec_yaml log_yml configured_system))) (system_define UNKNOW)"
  using shipped_file_configures [OF codec_yaml_laws configured_system_facts(1-5) prod.collapse [symmetric]]
  by (simp add: configured_system_facts(6) printed_world_logs)

end
