(* ===== verification/Test_Values.thy ===== *)
theory Test_Values
  imports Log_Load Container_Casts
begin

text \<open>
  The types and variables of \<open>tests/test_config.cc\<close>: the class \<open>Person\<close> with casts of its own, the
  containers of \<open>int\<close>, and the configuration variables the program creates before \<open>main\<close>.
\<close>

section \<open>\<open>Person\<close>\<close>

record person =
  p_name :: string
  p_age :: i32
  p_sex :: bool

definition new_Person :: person where
  "new_Person = \<lparr>p_name = [], p_age = 0, p_sex = False\<rparr>"

definition Person_toString :: "person \<Rightarrow> string" where
  "Person_toString p =
     ''(Person name='' @ p_name p @ '' age='' @ show_int (sint (p_age p)) @
     '' sex='' @ (if p_sex p then ''1'' else ''0'') @ '' )''"

definition person_eq :: "person \<Rightarrow> person \<Rightarrow> bool" where
  "person_eq a b = (p_name a = p_name b \<and> p_age a = p_age b \<and> p_sex a = p_sex b)"

text \<open>
  What the libraries do with numbers: \<open>boost::lexical_cast\<close> between texts and \<open>int\<close> and \<open>float\<close>,
  and \<open>as<int>\<close>, \<open>as<bool>\<close> and the assignment of an \<open>int\<close> or \<open>bool\<close> to a node.
\<close>

record 'f cast_lib =
  int_from :: "string \<Rightarrow> string + i32"
  int_to :: "i32 \<Rightarrow> string + string"
  float_from :: "string \<Rightarrow> string + 'f"
  float_to :: "'f \<Rightarrow> string + string"
  as_int :: "yaml \<Rightarrow> string + i32"
  as_bool :: "yaml \<Rightarrow> string + bool"
  of_int_node :: "i32 \<Rightarrow> yaml"
  of_bool_node :: "bool \<Rightarrow> yaml"

text \<open>The two casts; the texts they print are in UTF-8.\<close>

definition call_text :: string where
  "call_text = [CHR 0xE8, CHR 0xB0, CHR 0x83, CHR 0xE7, CHR 0x94, CHR 0xA8]"

definition to_text :: string where
  "to_text = [CHR 0xE8, CHR 0xBD, CHR 0xAC]"

definition Person_from_string :: "yaml_lib \<Rightarrow> 'f cast_lib \<Rightarrow> (world, person) from_str" where
  "Person_from_string Y L v =
     bind_comp (lib_call (y_load Y v)) (\<lambda>node.
     bind_comp (lib_call (y_get Y node ''name'')) (\<lambda>n.
     bind_comp (lib_call (y_as_string Y n)) (\<lambda>name.
     bind_comp (lib_call (y_get Y node ''age'')) (\<lambda>a.
     bind_comp (lib_call (as_int L a)) (\<lambda>age.
     bind_comp (lib_call (y_get Y node ''sex'')) (\<lambda>s.
     bind_comp (lib_call (as_bool L s)) (\<lambda>sex.
     bind_comp (modify (print (call_text @ ''string'' @ to_text @ ''person'' @ endl))) (\<lambda>_.
     return \<lparr>p_name = name, p_age = age, p_sex = sex\<rparr>))))))))"

definition Person_to_string :: "yaml_lib \<Rightarrow> 'f cast_lib \<Rightarrow> (world, person) to_str" where
  "Person_to_string Y L v =
     (let node = y_set Y YNull ''name'' (YScalar (p_name v));
          node = y_set Y node ''sex'' (of_bool_node L (p_sex v));
          node = y_set Y node ''age'' (of_int_node L (p_age v))
      in bind_comp (modify (print (call_text @ ''person'' @ to_text @ ''string'' @ endl)))
           (\<lambda>_. return (y_emit Y node)))"

section \<open>The values of the variables\<close>

datatype 'f test_value =
    V_Int i32
  | V_Float 'f
  | V_Ints "i32 list"
  | V_Map "(string \<times> i32) list"
  | V_Person person
  | V_Persons "(string \<times> person) list"

fun the_Int :: "'f test_value \<Rightarrow> i32 option" where
  "the_Int (V_Int x) = Some x" | "the_Int _ = None"

fun the_Float :: "'f test_value \<Rightarrow> 'f option" where
  "the_Float (V_Float x) = Some x" | "the_Float _ = None"

fun the_Ints :: "'f test_value \<Rightarrow> i32 list option" where
  "the_Ints (V_Ints x) = Some x" | "the_Ints _ = None"

fun the_Map :: "'f test_value \<Rightarrow> (string \<times> i32) list option" where
  "the_Map (V_Map x) = Some x" | "the_Map _ = None"

fun the_Person :: "'f test_value \<Rightarrow> person option" where
  "the_Person (V_Person x) = Some x" | "the_Person _ = None"

fun the_Persons :: "'f test_value \<Rightarrow> (string \<times> person) list option" where
  "the_Persons (V_Persons x) = Some x" | "the_Persons _ = None"

text \<open>A C++ type as a type of the registry, whose values on the left are those of \<open>logs\<close>.\<close>

definition boxed ::
  "('a \<Rightarrow> 'u) \<Rightarrow> ('u \<Rightarrow> 'a option) \<Rightarrow> string \<Rightarrow> (world, 'a) from_str \<Rightarrow> (world, 'a) to_str \<Rightarrow>
   ('a \<Rightarrow> 'a \<Rightarrow> bool) \<Rightarrow> (log_define list + 'u) config_type" where
  "boxed box unbox name from to eq =
     \<lparr>ct_name = name,
      ct_from = (\<lambda>t. bind_comp (from t) (\<lambda>a. return (Inr (box a)))),
      ct_to = (\<lambda>v. case v of
         Inl _ \<Rightarrow> return []
       | Inr u \<Rightarrow> (case unbox u of None \<Rightarrow> return [] | Some a \<Rightarrow> to a)),
      ct_eq = (\<lambda>a b. case (a, b) of
         (Inr x, Inr y) \<Rightarrow> (case (unbox x, unbox y) of (Some a, Some b) \<Rightarrow> eq a b | _ \<Rightarrow> False)
       | _ \<Rightarrow> False)\<rparr>"

abbreviation int_cast :: "'f cast_lib \<Rightarrow> (world, i32) from_str" where
  "int_cast L \<equiv> base_cast (int_from L)"

abbreviation int_text :: "'f cast_lib \<Rightarrow> (world, i32) to_str" where
  "int_text L \<equiv> base_cast (int_to L)"

definition int_type :: "'f cast_lib \<Rightarrow> (log_define list + 'f test_value) config_type" where
  "int_type L = boxed V_Int the_Int ''int'' (int_cast L) (int_text L) (=)"

definition float_type ::
  "'f cast_lib \<Rightarrow> ('f \<Rightarrow> 'f \<Rightarrow> bool) \<Rightarrow> (log_define list + 'f test_value) config_type" where
  "float_type L eq = boxed V_Float the_Float ''float'' (base_cast (float_from L)) (base_cast (float_to L)) eq"

definition vector_type :: "yaml_lib \<Rightarrow> 'f cast_lib \<Rightarrow> (log_define list + 'f test_value) config_type" where
  "vector_type Y L = boxed V_Ints the_Ints ''std::vector<int>''
     (vector_from_string Y (int_cast L)) (vector_to_string Y (int_text L)) (=)"

definition list_type :: "yaml_lib \<Rightarrow> 'f cast_lib \<Rightarrow> (log_define list + 'f test_value) config_type" where
  "list_type Y L = boxed V_Ints the_Ints ''std::list<int>''
     (list_from_string Y (int_cast L)) (list_to_string Y (int_text L)) (=)"

definition set_type :: "yaml_lib \<Rightarrow> 'f cast_lib \<Rightarrow> (log_define list + 'f test_value) config_type" where
  "set_type Y L = boxed V_Ints the_Ints ''std::set<int>''
     (set_from_string Y sint (int_cast L)) (set_to_string Y (int_text L)) (=)"

text \<open>Unordered containers are equal when they hold the same elements; \<open>place\<close> is their order.\<close>

definition unordered_set_type ::
  "yaml_lib \<Rightarrow> 'f cast_lib \<Rightarrow> (i32 \<Rightarrow> i32 list \<Rightarrow> i32 list) \<Rightarrow> (log_define list + 'f test_value) config_type" where
  "unordered_set_type Y L place = boxed V_Ints the_Ints ''std::unordered_set<int>''
     (unordered_set_from_string Y place (int_cast L)) (unordered_set_to_string Y (int_text L))
     (\<lambda>a b. length a = length b \<and> set a = set b)"

definition map_type :: "yaml_lib \<Rightarrow> 'f cast_lib \<Rightarrow> (log_define list + 'f test_value) config_type" where
  "map_type Y L = boxed V_Map the_Map ''std::map<std::string, int>''
     (map_from_string Y (int_cast L)) (map_to_string Y (int_text L)) (=)"

definition unordered_map_type ::
  "yaml_lib \<Rightarrow> 'f cast_lib \<Rightarrow> (string \<times> i32 \<Rightarrow> (string \<times> i32) list \<Rightarrow> (string \<times> i32) list) \<Rightarrow>
   (log_define list + 'f test_value) config_type" where
  "unordered_map_type Y L place = boxed V_Map the_Map ''std::unordered_map<std::string, int>''
     (unordered_map_from_string Y place (int_cast L)) (unordered_map_to_string Y (int_text L))
     (\<lambda>a b. length a = length b \<and> set a = set b)"

definition person_type :: "yaml_lib \<Rightarrow> 'f cast_lib \<Rightarrow> (log_define list + 'f test_value) config_type" where
  "person_type Y L = boxed V_Person the_Person ''Person'' (Person_from_string Y L) (Person_to_string Y L) person_eq"

definition person_map_type :: "yaml_lib \<Rightarrow> 'f cast_lib \<Rightarrow> (log_define list + 'f test_value) config_type" where
  "person_map_type Y L = boxed V_Persons the_Persons ''std::map<std::string, Person>''
     (map_from_string Y (Person_from_string Y L)) (map_to_string Y (Person_to_string Y L))
     (\<lambda>a b. length a = length b \<and> list_all2 (\<lambda>x y. fst x = fst y \<and> person_eq (snd x) (snd y)) a b)"

section \<open>The variables\<close>

text \<open>Type, name, default value and description, in the order of the file; \<open>f\<close> is \<open>10.2f\<close>.\<close>

definition test_variables ::
  "yaml_lib \<Rightarrow> 'f cast_lib \<Rightarrow> (i32 \<Rightarrow> i32 list \<Rightarrow> i32 list) \<Rightarrow>
   (string \<times> i32 \<Rightarrow> (string \<times> i32) list \<Rightarrow> (string \<times> i32) list) \<Rightarrow> ('f \<Rightarrow> 'f \<Rightarrow> bool) \<Rightarrow> 'f \<Rightarrow>
   ((log_define list + 'f test_value) config_type \<times> string \<times> 'f test_value \<times> string) list" where
  "test_variables Y L place place' feq f =
     [(int_type L, ''system.port'', V_Int 8080, ''system port''),
      (float_type L feq, ''system.value'', V_Float f, ''system value''),
      (vector_type Y L, ''system.int_vec'', V_Ints [1, 2, 3], ''system int vec''),
      (list_type Y L, ''system.int_list'', V_Ints [1, 2, 3], ''system int list''),
      (set_type Y L, ''system.int_set'', V_Ints [1, 2, 3], ''system int set''),
      (unordered_set_type Y L place, ''system.int_unorderedset'',
         V_Ints (fold (uset_insert place) [11, 22, 33] []), ''system int unordered_set''),
      (map_type Y L, ''system.int_map'', V_Map [(''k'', 2)], ''system int unordered_set''),
      (unordered_map_type Y L place', ''system.int_unorderedmap'', V_Map (umap_insert place' ''k'' 2 []),
         ''system int unordered_set''),
      (person_type Y L, ''class.person'', V_Person new_Person, ''system person''),
      (person_map_type Y L, ''class.map'', V_Persons [], ''system person'')]"

text \<open>The static initialisers: one \<open>Lookup\<close> for each; the results are the global pointers.\<close>

fun lookup_all ::
  "((log_define list + 'u) config_type \<times> string \<times> 'u \<times> string) list \<Rightarrow>
   ((log_define list + 'u) system, var_ptr option list) comp" where
  "lookup_all [] = return []"
| "lookup_all ((T, name, v, d) # xs) =
     bind_comp (Lookup T name (Inr v) d) (\<lambda>p. bind_comp (lookup_all xs) (\<lambda>ps. return (p # ps)))"

section \<open>Properties\<close>

text \<open>What is relied on of the libraries' numbers in documents.\<close>

definition cast_laws :: "yaml_lib \<Rightarrow> 'f cast_lib \<Rightarrow> bool" where
  "cast_laws Y L =
     ((\<forall>i. as_int L (of_int_node L i) = Inr i \<and> printable (of_int_node L i)) \<and>
      (\<forall>b. as_bool L (of_bool_node L b) = Inr b \<and> printable (of_bool_node L b)))"

text \<open>
  A \<open>Person\<close> with a printable name survives its casts; each of them prints its line, and
  \<open>operator==\<close> holds of exactly equal persons.
\<close>

lemma person_round_trip:
  assumes "yaml_laws Y" and "cast_laws Y L" and "plain (p_name p)"
    and "Person_to_string Y L p w = (r, v)"
  shows "v = print (call_text @ ''person'' @ to_text @ ''string'' @ endl) w \<and>
    (\<exists>t. r = Inr t \<and> Person_from_string Y L t u =
       (Inr p, print (call_text @ ''string'' @ to_text @ ''person'' @ endl) u)) \<and>
    (person_eq p q \<longleftrightarrow> p = q)"
proof -
  let ?n = "YMap [(YScalar ''name'', YScalar (p_name p)), (YScalar ''sex'', of_bool_node L (p_sex p)),
    (YScalar ''age'', of_int_node L (p_age p))]"
  have out: "Person_to_string Y L p w = (Inr (y_emit Y ?n), print (call_text @ ''person'' @ to_text @ ''string'' @ endl) w)"
    using assms(1) by (simp add: Person_to_string_def yaml_simps Let_def comp_simps del: append.simps)
  have "printable ?n" using assms(2,3) by (simp add: cast_laws_def plain_def)
  then have load: "y_load Y (y_emit Y ?n) = Inr ?n" by (rule yaml_lawsD(1) [OF assms(1)])
  have "Person_from_string Y L (y_emit Y ?n) u =
      (Inr p, print (call_text @ ''string'' @ to_text @ ''person'' @ endl) u)"
    using assms(1,2) unfolding Person_from_string_def load
    by (simp add: yaml_simps map_get_def comp_simps cast_laws_def del: append.simps)
  moreover have "person_eq p q \<longleftrightarrow> p = q" by (cases p; cases q) (simp add: person_eq_def)
  ultimately show ?thesis using out assms(4) by auto
qed

text \<open>Numbers that satisfy the laws, in unary notation.\<close>

definition unary_casts :: "string cast_lib" where
  "unary_casts =
     \<lparr>int_from = (\<lambda>s. Inr (of_nat (length s))), int_to = (\<lambda>i. Inr (replicate (unat i) (CHR ''1''))),
      float_from = Inr, float_to = Inr,
      as_int = (\<lambda>n. case n of YScalar s \<Rightarrow> Inr (of_nat (length s)) | _ \<Rightarrow> Inl ''bad conversion''),
      as_bool = (\<lambda>n. case n of YScalar s \<Rightarrow> Inr (s = ''1'') | _ \<Rightarrow> Inl ''bad conversion''),
      of_int_node = (\<lambda>i. YScalar (replicate (unat i) (CHR ''1''))),
      of_bool_node = (\<lambda>b. YScalar (if b then ''1'' else ''0''))\<rparr>"

lemma unary_cast_laws: "cast_laws Y unary_casts"
  by (simp add: cast_laws_def unary_casts_def plain_def)

text \<open>A boxed type keeps the contract of a type when its casts are safe.\<close>

lemma boxed_contract:
  assumes "\<And>t. safe_comp (from t)" and "\<And>a. safe_comp (to a)"
  shows "config_type_contract (boxed box unbox name from to eq) (\<lambda>_. True)"
proof
  show "safe_comp (ct_from (boxed box unbox name from to eq) t)" for t
    using assms(1) by (auto simp: boxed_def intro!: safe_intros)
  show "safe_comp (ct_to (boxed box unbox name from to eq) v)" for v
    using assms(2) by (auto simp: boxed_def intro!: safe_intros split: sum.split option.split)
qed simp

lemma safe_base_cast [safe_intros]: "keeps P (base_cast boost v)"
  by (simp add: base_cast_def safe_intros)

lemma safe_read_sequence:
  "(\<And>t. keeps P (cast t)) \<Longrightarrow> keeps P (read_sequence Y cast ins emp v)"
  unfolding read_sequence_def by (intro safe_intros safe_read_elems)

lemma safe_write_sequence: "(\<And>a. keeps P (cast a)) \<Longrightarrow> keeps P (write_sequence Y cast as)"
  unfolding write_sequence_def by (intro safe_intros safe_write_elems)

lemma safe_read_pairs: "(\<And>t. keeps P (cast t)) \<Longrightarrow> keeps P (read_pairs Y cast ins ps acc)"
  by (induction ps arbitrary: acc) (auto intro!: safe_intros)

lemma safe_read_mapping: "(\<And>t. keeps P (cast t)) \<Longrightarrow> keeps P (read_mapping Y cast ins emp v)"
  unfolding read_mapping_def by (intro safe_intros safe_read_pairs)

lemma safe_write_pairs: "(\<And>a. keeps P (cast a)) \<Longrightarrow> keeps P (write_pairs Y cast ps node)"
  by (induction ps arbitrary: node) (auto intro!: safe_intros)

lemma safe_write_mapping: "(\<And>a. keeps P (cast a)) \<Longrightarrow> keeps P (write_mapping Y cast ps)"
  unfolding write_mapping_def by (intro safe_intros safe_write_pairs)

lemma safe_Person_casts [safe_intros]:
  "keeps (log_grown n) (Person_from_string Y L t)" "keeps (log_grown n) (Person_to_string Y L p)"
  unfolding Person_from_string_def Person_to_string_def Let_def by (intro safe_intros)+

lemmas container_casts = vector_from_string_def list_from_string_def set_from_string_def
  unordered_set_from_string_def map_from_string_def unordered_map_from_string_def
  vector_to_string_def list_to_string_def set_to_string_def unordered_set_to_string_def
  map_to_string_def unordered_map_to_string_def

lemmas test_types = int_type_def float_type_def vector_type_def list_type_def set_type_def
  unordered_set_type_def map_type_def unordered_map_type_def person_type_def person_map_type_def

lemma test_variables_ok:
  "(T, name, v, d) \<in> set (test_variables Y L place place' feq f) \<Longrightarrow>
     config_type_contract T (\<lambda>_. True) \<and> valid_name name"
  by (auto simp: test_variables_def test_types container_casts valid_name_def has_char_not_of_def config_chars_def
      intro!: boxed_contract safe_intros safe_read_sequence safe_write_sequence safe_read_mapping safe_write_mapping)

text \<open>The lookups create the variables, next to each other, and log nothing.\<close>

definition looked_up ::
  "(log_define list + 'u) system \<Rightarrow> ((log_define list + 'u) config_type \<times> string \<times> 'u \<times> string) list \<Rightarrow>
   (log_define list + 'u) system \<Rightarrow> bool" where
  "looked_up s xs t =
     (lookup_all xs s = (Inr (map Some [next_var s..<next_var s + length xs]), t) \<and>
      cfg_reachable t \<and> sys_world t = sys_world s \<and>
      (\<forall>p<next_var s. vars t p = vars s p) \<and>
      (\<forall>k. k \<notin> fst ` snd ` set xs \<longrightarrow> map_of (datas t) k = map_of (datas s) k) \<and>
      (\<forall>i<length xs. case xs ! i of (T, name, v, d) \<Rightarrow>
         map_of (datas t) name = Some (next_var s + i) \<and> vars t (next_var s + i) = ConfigVar T name (Inr v) d))"

lemma lookup_all_spec:
  assumes "cfg_reachable s" and "\<And>T name v d. (T, name, v, d) \<in> set xs \<Longrightarrow> default_ok T (Inr v) \<and> valid_name name"
    and "distinct (map (fst \<circ> snd) xs)" "\<And>x. x \<in> set xs \<Longrightarrow> map_of (datas s) (fst (snd x)) = None"
  shows "\<exists>t. looked_up s xs t"
  using assms
proof (induction xs arbitrary: s)
  case Nil
  then show ?case by (simp add: looked_up_def return_apply)
next
  case (Cons x xs)
  obtain T name v d where x: "x = (T, name, v, d)" by (cases x)
  have ok: "default_ok T (Inr v)" "valid_name name" "map_of (datas s) name = None"
    using Cons.prems(2) [of T name v d] Cons.prems(4) [of x] x by auto
  define u where "u = s\<lparr>vars := (vars s)(next_var s := ConfigVar T name (Inr v) d), next_var := Suc (next_var s),
    datas := omap_put name (next_var s) (datas s)\<rparr>"
  have run: "Lookup T name (Inr v) d s = (Inr (Some (next_var s)), u)"
    using ok(2,3) by (simp add: Lookup_def valid_name_def u_def)
  have reach: "cfg_reachable u"
    using cfg_reachable.step [OF Cons.prems(1) cfg_step.look_up [OF ok(1), where name = name and d = d]] run by simp
  have omap: "omap_ok (datas s)" using cfg_reachable_inv [OF Cons.prems(1)] by (simp add: sys_inv_def registry_ok_def)
  have u: "next_var u = Suc (next_var s)" "sys_world u = sys_world s" "vars u (next_var s) = ConfigVar T name (Inr v) d"
    "map_of (datas u) k = (if k = name then Some (next_var s) else map_of (datas s) k)"
    "p < next_var s \<Longrightarrow> vars u p = vars s p" for k p using omap by (simp_all add: u_def)
  have new: "map_of (datas u) (fst (snd y)) = None" if "y \<in> set xs" for y
    using Cons.prems(3) Cons.prems(4) [of y] that x by (auto simp: u)
  have names: "distinct (map (fst \<circ> snd) xs)" "name \<notin> fst ` snd ` set xs"
    using Cons.prems(3) x by (auto simp: comp_def image_image)
  have types: "default_ok T (Inr v) \<and> valid_name name" if "(T, name, v, d) \<in> set xs" for T name v d
    using Cons.prems(2) [of T name v d] that by simp
  have "\<exists>t. looked_up u xs t"
    by (rule Cons.IH [OF reach]) (use types names(1) new in \<open>auto simp: comp_def\<close>)
  then obtain t where t: "looked_up u xs t" by blast
  note t = t [unfolded looked_up_def]
  have first: "map_of (datas t) name = Some (next_var s)" "vars t (next_var s) = ConfigVar T name (Inr v) d"
    using t names(2) by (simp_all add: u)
  have "\<forall>i<length (x # xs). case (x # xs) ! i of (T, name, v, d) \<Rightarrow>
      map_of (datas t) name = Some (next_var s + i) \<and> vars t (next_var s + i) = ConfigVar T name (Inr v) d"
    using first t by (auto simp: nth_Cons x u split: nat.split)
  moreover have "lookup_all (x # xs) s = (Inr (map Some [next_var s..<next_var s + length (x # xs)]), t)"
    using run t by (simp add: x comp_simps u upt_conv_Cons del: upt_Suc)
  moreover have "\<forall>k. k \<notin> fst ` snd ` set (x # xs) \<longrightarrow> map_of (datas t) k = map_of (datas s) k"
    using t by (simp add: x u)
  ultimately have "looked_up s (x # xs) t" using t unfolding looked_up_def by (simp add: u)
  then show ?case by blast
qed

end
