(* ===== verification/Threads.thy ===== *)
theory Threads
  imports Logger_Log
begin

text \<open>
  The thread class (\<open>sylar/thread.h\<close>, \<open>sylar/thread.cc\<close>). The objects are in a heap in which a
  destroyed object is gone; the operating system's threads are a list, each at a statement of
  \<open>Thread::run\<close>; the steps of the threads and the calls of the program interleave. What a thread
  does in its callback is a list of the class's operations and of log statements, which go to the
  logging module with the thread's own id; the rest of the program may use the logging module in
  between. Of \<open>pthread_create\<close> and
  \<open>pthread_join\<close> the model takes the result as an argument; a handle that \<open>pthread_create\<close>
  gives is not 0, and it is used again only when its last thread has finished and was joined or
  detached.
\<close>

section \<open>State\<close>

text \<open>What a thread streams into a log statement.\<close>

datatype log_part =
    Part_Text string
  | Part_GetName             \<comment> \<open>\<open>Thread::GetName()\<close>\<close>
  | Part_This_getName        \<comment> \<open>\<open>Thread::GetThis()->getName()\<close>\<close>
  | Part_GetThreadId         \<comment> \<open>\<open>GetThreadId()\<close>\<close>
  | Part_This_getId          \<comment> \<open>\<open>Thread::GetThis()->getId()\<close>\<close>

text \<open>
  What a callback does: it calls static operations of the class and operations of its own object, and
  it logs. It does not use other \<open>Thread\<close> objects; the calls of the main program do.
  A logger of \<open>None\<close> is \<open>SYLAR_LOG_ROOT()\<close>, of \<open>Some name\<close> it is \<open>SYLAR_LOG_NAME(name)\<close>.
\<close>

datatype thread_op =
    Call_SetName string      \<comment> \<open>\<open>Thread::SetName(name)\<close>\<close>
  | Call_GetThis             \<comment> \<open>\<open>Thread::GetThis()->getName()\<close>, \<open>getId()\<close>\<close>
  | Call_GetName             \<comment> \<open>\<open>Thread::GetName()\<close>\<close>
  | is_log: Call_Log "string option" level string i32 "log_part list"
      \<comment> \<open>\<open>SYLAR_LOG_LEVEL(logger, level) << part << ...\<close> in a line of a file\<close>

text \<open>A callback: \<open>None\<close> is an empty \<open>std::function\<close>.\<close>

type_synonym thread_cb = "thread_op list option"

record thread_obj =
  th_id :: int
  th_handle :: nat           \<comment> \<open>\<open>m_thread\<close>\<close>
  th_cb :: thread_cb
  th_name :: string

text \<open>The statement of \<open>Thread::run\<close> a thread executes next.\<close>

datatype run_pc = Run_This | Run_Name | Run_Id | Run_SetName | Run_Swap | Run_Call | Run_Done

record os_thread =
  ot_arg :: nat              \<comment> \<open>the object \<open>run\<close> was given\<close>
  ot_handle :: nat
  ot_tid :: int
  ot_pc :: run_pc
  ot_this :: "nat option"    \<comment> \<open>thread local \<open>t_thread\<close>\<close>
  ot_name :: string          \<comment> \<open>thread local \<open>t_thread_name\<close>\<close>
  ot_comm :: string          \<comment> \<open>the name \<open>pthread_setname_np\<close> was given\<close>
  ot_cb :: thread_cb         \<comment> \<open>the local variable \<open>cb\<close>\<close>
  ot_detached :: bool

datatype thread_fault =
    Use_After_Free           \<comment> \<open>a destroyed \<open>Thread\<close> is accessed\<close>
  | Null_This                \<comment> \<open>\<open>GetThis()\<close> is null and dereferenced\<close>
  | Terminated               \<comment> \<open>an exception leaves \<open>run\<close>: \<open>std::terminate\<close>\<close>
  | Log_Undefined undefined_behaviour   \<comment> \<open>a log statement has undefined behaviour\<close>

record thread_sys =
  ts_objs :: "nat \<Rightarrow> thread_obj option"
  ts_next :: nat
  ts_threads :: "os_thread list"
  ts_main_name :: string     \<comment> \<open>\<open>t_thread_name\<close> of the main thread, whose \<open>t_thread\<close> is null\<close>
  ts_main_tid :: int         \<comment> \<open>the kernel's id of the main thread\<close>
  ts_fault :: "thread_fault option"
  ts_world :: world
  ts_logger :: logger_ptr    \<comment> \<open>\<open>g_logger\<close>\<close>

abbreviation upd_obj :: "nat \<Rightarrow> thread_obj \<Rightarrow> thread_sys \<Rightarrow> thread_sys" where
  "upd_obj p x s \<equiv> s\<lparr>ts_objs := (ts_objs s)(p := Some x)\<rparr>"

abbreviation upd_thread :: "nat \<Rightarrow> os_thread \<Rightarrow> thread_sys \<Rightarrow> thread_sys" where
  "upd_thread i t s \<equiv> s\<lparr>ts_threads := (ts_threads s)[i := t]\<rparr>"

definition thread_fails :: "thread_fault \<Rightarrow> thread_sys \<Rightarrow> thread_sys" where
  "thread_fails f s = s\<lparr>ts_fault := Some f\<rparr>"

text \<open>What the outcome of a call of the main thread means for the process: exceptions are its own matter.\<close>

definition settle :: "(error + 'a) \<times> thread_sys \<Rightarrow> thread_sys" where
  "settle r = (case r of (Inl (Undefined u), s) \<Rightarrow> thread_fails (Log_Undefined u) s | (_, s) \<Rightarrow> s)"

section \<open>Construction, joining, destruction\<close>

text \<open>The error line of a call of the main thread.\<close>

definition log_thread_error :: "i32 \<Rightarrow> string \<Rightarrow> (thread_sys, unit) comp" where
  "log_thread_error line msg = (\<lambda>s.
     case SYLAR_LOG_LEVEL (ts_logger s) ERROR ''sylar/thread.cc'' line msg
         ((ts_world s)\<lparr>w_tid := ts_main_tid s\<rparr>) of
       (r, w) \<Rightarrow> (r, s\<lparr>ts_world := w\<rparr>))"

text \<open>
  \<open>Thread::Thread\<close>: \<open>created\<close> is what \<open>pthread_create\<close> does, an error number or a handle with the
  kernel's id of the new thread.
\<close>

definition Thread_ctor ::
  "thread_cb \<Rightarrow> string \<Rightarrow> int + nat \<times> int \<Rightarrow> (thread_sys, nat) comp" where
  "Thread_ctor cb name created =
     (let m_name = (if name = [] then ''UNKNOW'' else name) in
      case created of
        Inl rt \<Rightarrow>
          bind_comp (log_thread_error 42
              (''pthread_create thread fail,rt='' @ show_int rt @ '' name='' @ name))
            (\<lambda>_. throw (Std_Exception ''pthread_create error''))
      | Inr (h, tid) \<Rightarrow> (\<lambda>s.
          (Inr (ts_next s),
           s\<lparr>ts_objs := (ts_objs s)(ts_next s :=
                Some \<lparr>th_id = -1, th_handle = h, th_cb = cb, th_name = m_name\<rparr>),
             ts_next := Suc (ts_next s),
             ts_threads := ts_threads s @
               [\<lparr>ot_arg = ts_next s, ot_handle = h, ot_tid = tid, ot_pc = Run_This, ot_this = None,
                 ot_name = ''UNKNOW'', ot_comm = [], ot_cb = None, ot_detached = False\<rparr>]\<rparr>)))"

text \<open>\<open>Thread::join\<close>: \<open>rt\<close> is what \<open>pthread_join\<close> returns, once it returns.\<close>

definition Thread_join :: "thread_obj \<Rightarrow> nat \<Rightarrow> int \<Rightarrow> (thread_sys, unit) comp" where
  "Thread_join x p rt =
     (if th_handle x \<noteq> 0 then
        (if rt \<noteq> 0 then
           bind_comp (log_thread_error 74
               (''pthread_join thread fail,rt='' @ show_int rt @ '' name='' @ th_name x))
             (\<lambda>_. throw (Std_Exception ''pthread_join error''))
         else modify (upd_obj p (x\<lparr>th_handle := 0\<rparr>)))
      else return ())"

text \<open>
  \<open>Thread::~Thread\<close>: a thread that was not joined is detached and goes on. The handle names the
  thread that was created with the object, not an earlier one with the same handle.
\<close>

definition Thread_dtor :: "thread_obj \<Rightarrow> nat \<Rightarrow> thread_sys \<Rightarrow> thread_sys" where
  "Thread_dtor x p s =
     (let s1 = (if th_handle x \<noteq> 0
                then s\<lparr>ts_threads := map (\<lambda>t. if ot_handle t = th_handle x \<and> ot_arg t = p
                                               then t\<lparr>ot_detached := True\<rparr> else t) (ts_threads s)\<rparr>
                else s)
      in s1\<lparr>ts_objs := (ts_objs s1)(p := None)\<rparr>)"

section \<open>The running thread\<close>

text \<open>\<open>Thread::SetName\<close> in thread \<open>i\<close> and in the main thread.\<close>

definition SetName :: "nat \<Rightarrow> string \<Rightarrow> thread_sys \<Rightarrow> thread_sys" where
  "SetName i name s =
     (let t = ts_threads s ! i in
      if name = [] then s
      else (case ot_this t of
              None \<Rightarrow> upd_thread i (t\<lparr>ot_name := name\<rparr>) s
            | Some p \<Rightarrow>
                (case ts_objs s p of
                   None \<Rightarrow> thread_fails Use_After_Free s
                 | Some x \<Rightarrow> upd_thread i (t\<lparr>ot_name := name\<rparr>) (upd_obj p (x\<lparr>th_name := name\<rparr>) s))))"

definition SetName_main :: "string \<Rightarrow> thread_sys \<Rightarrow> thread_sys" where
  "SetName_main name s = (if name = [] then s else s\<lparr>ts_main_name := name\<rparr>)"

text \<open>\<open>Thread::getName\<close> and \<open>getId\<close> of an object.\<close>

definition Thread_getName :: "thread_obj \<Rightarrow> string" where
  "Thread_getName x = th_name x"

definition Thread_getId :: "thread_obj \<Rightarrow> int" where
  "Thread_getId x = th_id x"

text \<open>\<open>Thread::GetThis\<close> and \<open>Thread::GetName\<close>.\<close>

definition GetThis :: "nat \<Rightarrow> thread_sys \<Rightarrow> nat option" where
  "GetThis i s = ot_this (ts_threads s ! i)"

definition GetName :: "nat \<Rightarrow> thread_sys \<Rightarrow> string" where
  "GetName i s = ot_name (ts_threads s ! i)"

text \<open>\<open>GetThis()->f()\<close> in thread \<open>i\<close>.\<close>

definition via_this :: "nat \<Rightarrow> (thread_obj \<Rightarrow> 'a) \<Rightarrow> thread_sys \<Rightarrow> thread_fault + 'a" where
  "via_this i f s =
     (case GetThis i s of
        None \<Rightarrow> Inl Null_This
      | Some p \<Rightarrow>
          (case ts_objs s p of
             None \<Rightarrow> Inl Use_After_Free
           | Some x \<Rightarrow> Inr (f x)))"

text \<open>The text of a log statement; nothing is written when one of its parts fails.\<close>

fun part_text :: "nat \<Rightarrow> thread_sys \<Rightarrow> log_part \<Rightarrow> thread_fault + string" where
  "part_text i s (Part_Text t) = Inr t"
| "part_text i s Part_GetName = Inr (GetName i s)"
| "part_text i s Part_This_getName = via_this i Thread_getName s"
| "part_text i s Part_GetThreadId = Inr (show_int (ot_tid (ts_threads s ! i)))"
| "part_text i s Part_This_getId = via_this i (\<lambda>x. show_int (Thread_getId x)) s"

fun parts_text :: "nat \<Rightarrow> thread_sys \<Rightarrow> log_part list \<Rightarrow> thread_fault + string" where
  "parts_text i s [] = Inr []"
| "parts_text i s (p # ps) =
     (case part_text i s p of
        Inl f \<Rightarrow> Inl f
      | Inr t \<Rightarrow> (case parts_text i s ps of Inl f \<Rightarrow> Inl f | Inr u \<Rightarrow> Inr (t @ u)))"

definition log_target :: "string option \<Rightarrow> world \<Rightarrow> logger_ptr \<times> world" where
  "log_target logger w = (case logger of None \<Rightarrow> getRoot w | Some name \<Rightarrow> getLogger name w)"

definition log_outcome :: "error + unit \<Rightarrow> thread_sys \<Rightarrow> thread_sys" where
  "log_outcome r s =
     (case r of
        Inr _ \<Rightarrow> s
      | Inl (Undefined u) \<Rightarrow> thread_fails (Log_Undefined u) s
      | Inl (Std_Exception _) \<Rightarrow> thread_fails Terminated s)"

text \<open>
  A log statement in thread \<open>i\<close>: \<open>GetThreadId\<close> is the thread's own id, and the parts are evaluated
  only when the logger's level lets the event pass. It is one step here, which is what the code does
  as long as nobody else uses the logging module meanwhile: the source has no lock, and
  \<open>Thread_Races\<close> records what the statement accesses and treats an overlap as undefined.
\<close>

definition thread_log ::
  "nat \<Rightarrow> string option \<Rightarrow> level \<Rightarrow> string \<Rightarrow> i32 \<Rightarrow> log_part list \<Rightarrow> thread_sys \<Rightarrow> thread_sys" where
  "thread_log i logger lv file line parts s =
     (case log_target logger ((ts_world s)\<lparr>w_tid := ot_tid (ts_threads s ! i)\<rparr>) of
        (l, w) \<Rightarrow>
          if getLevel l w \<le> lv then
            (case parts_text i s parts of
               Inl f \<Rightarrow> thread_fails f (s\<lparr>ts_world := w\<rparr>)
             | Inr msg \<Rightarrow>
                 (case SYLAR_LOG_LEVEL l lv file line msg w of
                    (r, v) \<Rightarrow> log_outcome r (s\<lparr>ts_world := v\<rparr>)))
          else s\<lparr>ts_world := w\<rparr>)"

definition thread_call :: "nat \<Rightarrow> thread_op \<Rightarrow> thread_sys \<Rightarrow> thread_sys" where
  "thread_call i op s =
     (case op of
        Call_SetName name \<Rightarrow> SetName i name s
      | Call_GetThis \<Rightarrow>
          (case via_this i Thread_getName s of Inl f \<Rightarrow> thread_fails f s | Inr _ \<Rightarrow> s)
      | Call_GetName \<Rightarrow> s
      | Call_Log logger lv file line parts \<Rightarrow> thread_log i logger lv file line parts s)"

text \<open>One statement of \<open>Thread::run\<close>; the object is reached through the argument \<open>thread\<close>.\<close>

definition run_with :: "nat \<Rightarrow> (os_thread \<Rightarrow> thread_obj \<Rightarrow> os_thread \<times> thread_obj) \<Rightarrow> thread_sys \<Rightarrow> thread_sys" where
  "run_with i f s =
     (let t = ts_threads s ! i in
      case ts_objs s (ot_arg t) of
        None \<Rightarrow> thread_fails Use_After_Free s
      | Some x \<Rightarrow> (case f t x of (t', x') \<Rightarrow> upd_thread i t' (upd_obj (ot_arg t) x' s)))"

definition run_step :: "nat \<Rightarrow> thread_sys \<Rightarrow> thread_sys" where
  "run_step i s =
     (let t = ts_threads s ! i in
      case ot_pc t of
        Run_This \<Rightarrow> upd_thread i (t\<lparr>ot_this := Some (ot_arg t), ot_pc := Run_Name\<rparr>) s
      | Run_Name \<Rightarrow> run_with i (\<lambda>t x. (t\<lparr>ot_name := th_name x, ot_pc := Run_Id\<rparr>, x)) s
      | Run_Id \<Rightarrow> run_with i (\<lambda>t x. (t\<lparr>ot_pc := Run_SetName\<rparr>, x\<lparr>th_id := ot_tid t\<rparr>)) s
      | Run_SetName \<Rightarrow>
          run_with i (\<lambda>t x. (t\<lparr>ot_comm := c_str (substr (th_name x) 0 15), ot_pc := Run_Swap\<rparr>, x)) s
      | Run_Swap \<Rightarrow> run_with i (\<lambda>t x. (t\<lparr>ot_cb := th_cb x, ot_pc := Run_Call\<rparr>, x\<lparr>th_cb := None\<rparr>)) s
      | Run_Call \<Rightarrow>
          (case ot_cb t of
             None \<Rightarrow> thread_fails Terminated s
           | Some [] \<Rightarrow> upd_thread i (t\<lparr>ot_pc := Run_Done\<rparr>) s
           | Some (op # ops) \<Rightarrow> thread_call i op (upd_thread i (t\<lparr>ot_cb := Some ops\<rparr>) s))
      | Run_Done \<Rightarrow> s)"

section \<open>Interleavings\<close>

text \<open>
  The steps of the program and of its threads, in any order. \<open>P\<close> restricts when an object may be
  destroyed. \<open>pthread_join\<close> succeeds only when the thread has finished. Every other thing the
  program does with the logging module, in any thread, is a step of that module. At the start
  \<open>g_logger\<close> has been initialised.
\<close>

definition handle_finished :: "thread_sys \<Rightarrow> nat \<Rightarrow> bool" where
  "handle_finished s h = (\<forall>t\<in>set (ts_threads s). ot_handle t = h \<longrightarrow> ot_pc t = Run_Done)"

definition handle_free :: "thread_sys \<Rightarrow> nat \<Rightarrow> bool" where
  "handle_free s h = (handle_finished s h \<and> (\<forall>p x. ts_objs s p = Some x \<longrightarrow> th_handle x \<noteq> h))"

inductive thread_step :: "(thread_obj \<Rightarrow> bool) \<Rightarrow> thread_sys \<Rightarrow> thread_sys \<Rightarrow> bool" for P where
  create: "ts_fault s = None \<Longrightarrow> h \<noteq> 0 \<Longrightarrow> handle_free s h \<Longrightarrow> 0 < tid \<Longrightarrow>
    thread_step P s (settle (Thread_ctor cb name (Inr (h, tid)) s))"
| create_fails: "ts_fault s = None \<Longrightarrow> thread_step P s (settle (Thread_ctor cb name (Inl rt) s))"
| run: "ts_fault s = None \<Longrightarrow> i < length (ts_threads s) \<Longrightarrow> thread_step P s (run_step i s)"
| join: "ts_fault s = None \<Longrightarrow> ts_objs s p = Some x \<Longrightarrow>
    (th_handle x \<noteq> 0 \<Longrightarrow> rt = 0 \<Longrightarrow> handle_finished s (th_handle x)) \<Longrightarrow>
    thread_step P s (settle (Thread_join x p rt s))"
| destroy: "ts_fault s = None \<Longrightarrow> ts_objs s p = Some x \<Longrightarrow> P x \<Longrightarrow> thread_step P s (Thread_dtor x p s)"
| main_name: "ts_fault s = None \<Longrightarrow> thread_step P s (SetName_main name s)"
| logging: "ts_fault s = None \<Longrightarrow> log_step (ts_world s) w \<Longrightarrow> thread_step P s (s\<lparr>ts_world := w\<rparr>)"

inductive thread_reachable :: "(thread_obj \<Rightarrow> bool) \<Rightarrow> thread_sys \<Rightarrow> bool" for P where
  start: "ts_objs s = (\<lambda>_. None) \<Longrightarrow> ts_next s = 0 \<Longrightarrow> ts_threads s = [] \<Longrightarrow> ts_fault s = None \<Longrightarrow>
    log_reachable w \<Longrightarrow> getLogger ''system'' w = (ts_logger s, ts_world s) \<Longrightarrow> thread_reachable P s"
| step: "thread_reachable P s \<Longrightarrow> thread_step P s t \<Longrightarrow> thread_reachable P t"

end
