(* ===== verification/Thread_Invariant.thy ===== *)
theory Thread_Invariant
  imports Threads
begin

text \<open>
  The invariant of a process whose \<open>Thread\<close> objects are joined before they are destroyed: every
  object belongs to one thread, both agree on handle, name and id, a thread whose object is gone has
  finished, and the logging module is in a state its own operations reach. Every step of the
  threads, of the main program and of the logging module keeps it.
\<close>

section \<open>The logging module, called from a thread\<close>

lemma reachable_tid: "log_reachable w \<Longrightarrow> log_reachable (w\<lparr>w_tid := tid\<rparr>)"
  using log_step.env [where w = w and t = "w_time w" and co = "w_can_open w" and cw = "w_can_write w"
      and tid = tid and now = "w_now w"]
  by (auto intro: log_reachable.step)

lemma log_target_reachable:
  assumes w: "log_reachable w" and t: "log_target logger w = (l, v)"
  shows "log_reachable v \<and> l < next_logger v \<and> next_logger w \<le> next_logger v"
proof (cases logger)
  case None
  with t have v: "v = snd (getRoot w)" "l = mgr_root v" "mgr_built v"
    by (auto simp: log_target_def getRoot_def Let_def)
  moreover have "log_reachable v" unfolding v(1) by (rule log_reachable.step [OF w log_step.get_root])
  ultimately show ?thesis
    using log_inv_mgr [OF log_reachable_inv, of v] getRoot_count [of w] by (simp add: mgr_ok_def)
next
  case (Some name)
  with t have v: "v = snd (getLogger name w)" by (simp add: log_target_def)
  have "log_reachable v" unfolding v by (rule log_reachable.step [OF w log_step.get_logger])
  moreover have "l < next_logger v"
    using manager_getLogger_spec [OF GetInstance_inv [OF log_reachable_inv [OF w]] GetInstance_built, of name l v] t Some
    by (simp add: log_target_def getLogger_def)
  ultimately show ?thesis using getLogger_count [of w name] v by simp
qed

lemma macro_reachable:
  assumes w: "log_reachable w" and l: "l < next_logger w" and run: "SYLAR_LOG_LEVEL l lv file line msg w = (r, v)"
  shows "log_reachable v \<and> next_logger v = next_logger w \<and> log_result_ok r"
proof (cases "getLevel l w \<le> lv")
  case True
  let ?ev = "stream_into msg (macro_event l lv file line w)"
  have ev: "m_logger ?ev = l" "m_level ?ev = lv" by (simp_all add: stream_into_def macro_event_def LogEvent_def)
  with True run have log: "Logger_log l lv ?ev w = (r, v)"
    by (simp add: SYLAR_LOG_LEVEL_def LogEventWrap_destroy_def)
  have "log_reachable (snd (Logger_log l lv ?ev w))" by (rule log_reachable.step [OF w log_step.emit [OF l]])
  moreover have "next_logger (snd (Logger_log l lv ?ev w)) = next_logger w"
    using Logger_log_frame [of w l lv ?ev] by (simp add: log_frame_def)
  moreover have "log_result_ok (fst (Logger_log l lv ?ev w))"
    by (rule Logger_log_safe [OF log_reachable_inv [OF w] l])
  ultimately show ?thesis by (simp add: log)
next
  case False
  with run w show ?thesis by (auto simp: SYLAR_LOG_LEVEL_def log_result_ok_def)
qed

lemma log_result_cases:
  assumes "log_result_ok r"
  obtains "r = Inr ()" | "r = Inl (Undefined Indeterminate_Value)"
  using assms by (auto simp: log_result_ok_def)

section \<open>The invariant when objects are joined before they are destroyed\<close>

definition named :: "run_pc \<Rightarrow> bool" where
  "named pc = (pc \<noteq> Run_This \<and> pc \<noteq> Run_Name)"

definition identified :: "run_pc \<Rightarrow> bool" where
  "identified pc = (pc \<in> {Run_SetName, Run_Swap, Run_Call, Run_Done})"

text \<open>A thread and its object, if that still exists.\<close>

definition pair_ok :: "os_thread \<Rightarrow> thread_obj option \<Rightarrow> bool" where
  "pair_ok t obj =
     (ot_this t = (if ot_pc t = Run_This then None else Some (ot_arg t)) \<and>
      (case obj of
         None \<Rightarrow> ot_pc t = Run_Done
       | Some x \<Rightarrow>
           (th_handle x = ot_handle t \<or> th_handle x = 0 \<and> ot_pc t = Run_Done) \<and>
           (named (ot_pc t) \<longrightarrow> ot_name t = th_name x) \<and>
           th_id x = (if identified (ot_pc t) then ot_tid t else -1)))"

definition threads_ok :: "thread_sys \<Rightarrow> bool" where
  "threads_ok s =
     (distinct (map ot_arg (ts_threads s)) \<and>
      (\<forall>t\<in>set (ts_threads s). ot_handle t \<noteq> 0 \<and> ot_arg t < ts_next s \<and> pair_ok t (ts_objs s (ot_arg t))) \<and>
      (\<forall>p x. ts_objs s p = Some x \<longrightarrow> (\<exists>t\<in>set (ts_threads s). ot_arg t = p)) \<and>
      ts_fault s \<in> {None, Some Terminated, Some (Log_Undefined Indeterminate_Value)} \<and>
      log_reachable (ts_world s) \<and> ts_logger s < next_logger (ts_world s))"

definition joined :: "thread_obj \<Rightarrow> bool" where
  "joined x = (th_handle x = 0)"

lemma threads_okD:
  "threads_ok s \<Longrightarrow> t \<in> set (ts_threads s) \<Longrightarrow> pair_ok t (ts_objs s (ot_arg t))"
  by (simp add: threads_ok_def)

lemma threads_ok_obj:
  assumes "threads_ok s" "ts_objs s p = Some x"
  obtains t where "t \<in> set (ts_threads s)" "ot_arg t = p" "ot_handle t \<noteq> 0"
    "th_handle x = ot_handle t \<or> th_handle x = 0 \<and> ot_pc t = Run_Done"
  using assms by (fastforce simp: threads_ok_def pair_ok_def)

text \<open>A step of one thread that changes the thread and its own object.\<close>

lemma threads_ok_update:
  assumes ok: "threads_ok s" and i: "i < length (ts_threads s)"
    and same: "ot_arg t' = ot_arg (ts_threads s ! i)" "ot_handle t' = ot_handle (ts_threads s ! i)"
    and obj: "objs = (ts_objs s)(ot_arg t' := obj)" "obj \<noteq> None \<Longrightarrow> ts_objs s (ot_arg t') \<noteq> None"
    and pair: "pair_ok t' obj"
  shows "threads_ok (s\<lparr>ts_threads := (ts_threads s)[i := t'], ts_objs := objs\<rparr>)"
proof -
  let ?ts = "ts_threads s"
  have maps: "map ot_arg (?ts[i := t']) = map ot_arg ?ts"
    using i same by (simp_all add: map_update list_update_same_conv)
  have args: "distinct (map ot_arg ?ts)" using ok by (simp add: threads_ok_def)
  have "ot_handle t \<noteq> 0 \<and> ot_arg t < ts_next s \<and> pair_ok t (objs (ot_arg t))"
    if t: "t \<in> set (?ts[i := t'])" for t
  proof -
    obtain j where j: "j < length ?ts" "t = ?ts[i := t'] ! j" using t by (metis in_set_conv_nth length_list_update)
    show ?thesis
    proof (cases "j = i")
      case True
      with j i same ok obj(1) pair show ?thesis by (auto simp: threads_ok_def)
    next
      case False
      then have "ot_arg (?ts ! j) \<noteq> ot_arg (?ts ! i)"
        using args i j(1) by (simp add: distinct_conv_nth)
      with False j ok same obj(1) show ?thesis by (auto simp: threads_ok_def)
    qed
  qed
  moreover have "\<exists>t\<in>set (?ts[i := t']). ot_arg t = p" if "objs p = Some x" for p x
  proof -
    have "ts_objs s p \<noteq> None" using that obj by (auto split: if_splits)
    then obtain t where "t \<in> set ?ts" "ot_arg t = p" using ok by (auto simp: threads_ok_def)
    then have "p \<in> set (map ot_arg ?ts)" by auto
    then have "p \<in> set (map ot_arg (?ts[i := t']))" by (simp add: maps)
    then show ?thesis by auto
  qed
  ultimately show ?thesis using ok maps by (simp add: threads_ok_def)
qed

lemma thread_object:
  assumes "threads_ok s" "i < length (ts_threads s)" "ot_pc (ts_threads s ! i) \<noteq> Run_Done"
  obtains x where "ts_objs s (ot_arg (ts_threads s ! i)) = Some x"
    "pair_ok (ts_threads s ! i) (Some x)"
  using threads_okD [OF assms(1), of "ts_threads s ! i"] assms(2,3)
  by (cases "ts_objs s (ot_arg (ts_threads s ! i))") (auto simp: pair_ok_def)

lemma run_with_ok:
  assumes ok: "threads_ok s" and i: "i < length (ts_threads s)" and pc: "ot_pc (ts_threads s ! i) \<noteq> Run_Done"
    and f: "\<And>x t' x'. pair_ok (ts_threads s ! i) (Some x) \<Longrightarrow> f (ts_threads s ! i) x = (t', x') \<Longrightarrow>
      pair_ok t' (Some x') \<and> ot_arg t' = ot_arg (ts_threads s ! i) \<and> ot_handle t' = ot_handle (ts_threads s ! i)"
  shows "threads_ok (run_with i f s)"
proof -
  from ok i pc obtain x where x: "ts_objs s (ot_arg (ts_threads s ! i)) = Some x"
    "pair_ok (ts_threads s ! i) (Some x)" by (rule thread_object)
  obtain t' x' where f': "f (ts_threads s ! i) x = (t', x')" by fastforce
  note t' = f [OF x(2) f']
  have "run_with i f s = s\<lparr>ts_threads := (ts_threads s)[i := t'],
      ts_objs := (ts_objs s)(ot_arg t' := Some x')\<rparr>"
    using x f' t' by (simp add: run_with_def)
  with threads_ok_update [OF ok i, of t' _ "Some x'"] t' x(1) show ?thesis by simp
qed

lemma finished_none: "pair_ok t None \<Longrightarrow> ot_pc t = Run_Done"
  by (simp add: pair_ok_def)

lemma thread_fault_ok:
  "threads_ok s \<Longrightarrow> f \<in> {Terminated, Log_Undefined Indeterminate_Value} \<Longrightarrow> threads_ok (thread_fails f s)"
  by (auto simp: threads_ok_def thread_fails_def)

text \<open>A log statement touches the world only, and its one possible fault is an overlong date.\<close>

lemma thread_log_keeps [simp]:
  "ts_objs (thread_log i logger lv file line parts s) = ts_objs s"
  "ts_threads (thread_log i logger lv file line parts s) = ts_threads s"
  "ts_next (thread_log i logger lv file line parts s) = ts_next s"
  "ts_logger (thread_log i logger lv file line parts s) = ts_logger s"
  "ts_main_tid (thread_log i logger lv file line parts s) = ts_main_tid s"
  by (simp_all add: thread_log_def log_outcome_def thread_fails_def split: prod.split sum.split error.split)

lemma thread_log_fault: "ts_fault (thread_log i logger lv file line parts s) = None \<Longrightarrow> ts_fault s = None"
  by (auto simp: thread_log_def log_outcome_def thread_fails_def split: prod.splits sum.splits error.splits if_splits)

lemma own_parts_text:
  assumes "GetThis i s = Some p" and "ts_objs s p = Some x"
  shows "\<exists>msg. parts_text i s parts = Inr msg"
proof (induction parts)
  case (Cons p ps)
  have "\<exists>t. part_text i s p = Inr t" using assms by (cases p) (simp_all add: via_this_def)
  with Cons show ?case by auto
qed simp

lemma thread_log_world:
  assumes w: "log_reachable (ts_world s)" and parts: "parts_text i s parts = Inr msg"
    and u: "u = thread_log i logger lv file line parts s"
  shows "log_reachable (ts_world u)" and "next_logger (ts_world s) \<le> next_logger (ts_world u)"
    and "ts_fault u \<in> {ts_fault s, Some (Log_Undefined Indeterminate_Value)}"
proof -
  obtain l v where target: "log_target logger ((ts_world s)\<lparr>w_tid := ot_tid (ts_threads s ! i)\<rparr>) = (l, v)"
    by fastforce
  note v = log_target_reachable [OF reachable_tid [OF w] target]
  obtain r v' where macro: "SYLAR_LOG_LEVEL l lv file line msg v = (r, v')" by fastforce
  note v' = macro_reachable [OF _ _ macro]
  have "u = (if getLevel l v \<le> lv then log_outcome r (s\<lparr>ts_world := v'\<rparr>) else s\<lparr>ts_world := v\<rparr>)"
    using target parts macro u by (simp add: thread_log_def)
  moreover have "r = Inr () \<or> r = Inl (Undefined Indeterminate_Value)"
    using v v' by (simp add: log_result_ok_def)
  ultimately show "log_reachable (ts_world u)" and "next_logger (ts_world s) \<le> next_logger (ts_world u)"
    and "ts_fault u \<in> {ts_fault s, Some (Log_Undefined Indeterminate_Value)}"
    using v v' by (auto simp: log_outcome_def thread_fails_def)
qed

lemma thread_log_ok:
  assumes ok: "threads_ok s" and parts: "parts_text i s parts = Inr msg"
  shows "threads_ok (thread_log i logger lv file line parts s)"
proof -
  have w: "log_reachable (ts_world s)" using ok by (simp add: threads_ok_def)
  note log = thread_log_world [OF w parts refl]
  show ?thesis using ok log(1) log(2,3) [of logger lv "file" line] by (auto simp: threads_ok_def)
qed

lemma set_own_thread_ok:
  assumes ok: "threads_ok s" and i: "i < length (ts_threads s)"
    and same: "ot_arg t' = ot_arg (ts_threads s ! i)" "ot_handle t' = ot_handle (ts_threads s ! i)"
    and pair: "pair_ok t' (ts_objs s (ot_arg t'))"
  shows "threads_ok (upd_thread i t' s)"
proof -
  have objs: "ts_objs s = (ts_objs s)(ot_arg t' := ts_objs s (ot_arg t'))" by simp
  have "threads_ok (s\<lparr>ts_threads := (ts_threads s)[i := t'], ts_objs := ts_objs s\<rparr>)"
    by (rule threads_ok_update [OF ok i same objs _ pair])
  then show ?thesis by simp
qed

lemma thread_call_ok:
  assumes ok: "threads_ok s" and i: "i < length (ts_threads s)" and pc: "ot_pc (ts_threads s ! i) = Run_Call"
  shows "threads_ok (thread_call i op s)"
proof -
  let ?t = "ts_threads s ! i"
  from ok i obtain x where x: "ts_objs s (ot_arg ?t) = Some x" "pair_ok ?t (Some x)"
    by (rule thread_object) (simp add: pc)
  then have this_ptr: "ot_this ?t = Some (ot_arg ?t)" using pc by (simp add: pair_ok_def)
  show ?thesis
  proof (cases op)
    case (Call_SetName name)
    have "pair_ok (?t\<lparr>ot_name := name\<rparr>) (Some (x\<lparr>th_name := name\<rparr>))"
      using x(2) by (auto simp: pair_ok_def)
    then have new: "threads_ok (s\<lparr>ts_threads := (ts_threads s)[i := ?t\<lparr>ot_name := name\<rparr>],
        ts_objs := (ts_objs s)(ot_arg ?t := Some (x\<lparr>th_name := name\<rparr>))\<rparr>)"
      using x(1) by (intro threads_ok_update [OF ok i]) simp_all
    have "thread_call i op s = (if name = [] then s else
        s\<lparr>ts_threads := (ts_threads s)[i := ?t\<lparr>ot_name := name\<rparr>],
          ts_objs := (ts_objs s)(ot_arg ?t := Some (x\<lparr>th_name := name\<rparr>))\<rparr>)"
      using Call_SetName this_ptr x(1) by (simp add: thread_call_def SetName_def Let_def)
    with new ok show ?thesis by simp
  next
    case (Call_Log logger lv fn line parts)
    have "GetThis i s = Some (ot_arg ?t)" using this_ptr by (simp add: GetThis_def)
    then obtain msg where "parts_text i s parts = Inr msg" using own_parts_text x(1) by blast
    with Call_Log thread_log_ok [OF ok] show ?thesis by (simp add: thread_call_def)
  qed (use ok this_ptr x(1) in \<open>simp_all add: thread_call_def via_this_def GetThis_def\<close>)
qed

lemma run_step_ok:
  assumes ok: "threads_ok s" and i: "i < length (ts_threads s)"
  shows "threads_ok (run_step i s)"
proof (cases "ot_pc (ts_threads s ! i)")
  case Run_This
  from ok i obtain x where x: "ts_objs s (ot_arg (ts_threads s ! i)) = Some x" "pair_ok (ts_threads s ! i) (Some x)"
    by (rule thread_object) (simp add: Run_This)
  have "threads_ok (upd_thread i ((ts_threads s ! i)\<lparr>ot_this := Some (ot_arg (ts_threads s ! i)), ot_pc := Run_Name\<rparr>) s)"
    using x Run_This by (intro set_own_thread_ok [OF ok i]) (auto simp: pair_ok_def named_def identified_def)
  with Run_This show ?thesis by (simp add: run_step_def Let_def)
next
  case Run_Call
  show ?thesis
  proof (cases "ot_cb (ts_threads s ! i)")
    case None
    with Run_Call ok show ?thesis by (simp add: run_step_def Let_def thread_fault_ok)
  next
    case (Some ops)
    let ?t = "ts_threads s ! i"
    from ok i obtain x where x: "ts_objs s (ot_arg ?t) = Some x" "pair_ok ?t (Some x)"
      by (rule thread_object) (simp add: Run_Call)
    have finished: "threads_ok (upd_thread i (?t\<lparr>ot_pc := Run_Done\<rparr>) s)"
      using x Run_Call by (intro set_own_thread_ok [OF ok i]) (auto simp: pair_ok_def named_def identified_def)
    have rest: "threads_ok (upd_thread i (?t\<lparr>ot_cb := Some os\<rparr>) s)" for os
      using x by (intro set_own_thread_ok [OF ok i]) (auto simp: pair_ok_def)
    from thread_call_ok [OF rest, of i] i Run_Call Some finished show ?thesis
      by (cases ops) (simp_all add: run_step_def Let_def)
  qed
qed (use ok i in \<open>auto simp: run_step_def Let_def pair_ok_def named_def identified_def intro!: run_with_ok\<close>)

lemma log_thread_error_keeps:
  "ts_objs (snd (log_thread_error line msg s)) = ts_objs s"
  "ts_threads (snd (log_thread_error line msg s)) = ts_threads s"
  "ts_next (snd (log_thread_error line msg s)) = ts_next s"
  "ts_fault (snd (log_thread_error line msg s)) = ts_fault s"
  "ts_logger (snd (log_thread_error line msg s)) = ts_logger s"
  by (simp_all add: log_thread_error_def split: prod.split)

lemma log_then_throw:
  "snd (bind_comp (log_thread_error line msg) (\<lambda>_. throw e) s) = snd (log_thread_error line msg s)"
  by (auto simp: comp_simps split: sum.split prod.split)

lemma log_thread_error_world:
  assumes "threads_ok s"
  shows "log_reachable (ts_world (snd (log_thread_error line msg s)))"
    and "next_logger (ts_world (snd (log_thread_error line msg s))) = next_logger (ts_world s)"
    and "log_result_ok (fst (log_thread_error line msg s))"
proof -
  have w: "log_reachable (ts_world s)" and l: "ts_logger s < next_logger (ts_world s)"
    using assms by (simp_all add: threads_ok_def)
  obtain r v where macro: "SYLAR_LOG_LEVEL (ts_logger s) ERROR ''sylar/thread.cc'' line msg
      ((ts_world s)\<lparr>w_tid := ts_main_tid s\<rparr>) = (r, v)" by fastforce
  from macro_reachable [OF reachable_tid [OF w] _ macro] l
  show "log_reachable (ts_world (snd (log_thread_error line msg s)))"
    "next_logger (ts_world (snd (log_thread_error line msg s))) = next_logger (ts_world s)"
    "log_result_ok (fst (log_thread_error line msg s))"
    by (simp_all add: log_thread_error_def macro)
qed

lemma log_thread_error_ok: "threads_ok s \<Longrightarrow> threads_ok (snd (log_thread_error line msg s))"
  using log_thread_error_world [of s line msg] by (simp add: threads_ok_def log_thread_error_keeps)

lemma log_then_throw_ok:
  assumes "threads_ok s"
  shows "threads_ok (settle (bind_comp (log_thread_error line msg) (\<lambda>_. throw (Std_Exception e)) s))"
  using log_thread_error_ok [OF assms, of line msg] log_thread_error_world(3) [OF assms, of line msg]
  by (auto simp: comp_simps settle_def log_result_ok_def thread_fault_ok split: prod.split)

lemma settle_Inr [simp]: "settle (Inr x, s) = s"
  by (simp add: settle_def)

lemma settle_keeps [simp]:
  "ts_objs (settle r) = ts_objs (snd r)" "ts_threads (settle r) = ts_threads (snd r)"
  by (cases r; simp add: settle_def thread_fails_def split: sum.split error.split)+

text \<open>Updates of an object whose thread has finished.\<close>

lemma finished_object_ok:
  assumes ok: "threads_ok s" and x: "ts_objs s p = Some x"
    and fin: "\<And>t. t \<in> set (ts_threads s) \<Longrightarrow> ot_arg t = p \<Longrightarrow> ot_pc t = Run_Done"
    and obj: "obj = None \<or> obj = Some (x\<lparr>th_handle := 0\<rparr>)"
  shows "threads_ok (s\<lparr>ts_objs := (ts_objs s)(p := obj)\<rparr>)"
proof -
  have "pair_ok t (((ts_objs s)(p := obj)) (ot_arg t))" if t: "t \<in> set (ts_threads s)" for t
  proof (cases "ot_arg t = p")
    case True
    with threads_okD [OF ok t] x fin [OF t True] obj show ?thesis by (auto simp: pair_ok_def)
  next
    case False
    with threads_okD [OF ok t] show ?thesis by simp
  qed
  with ok x show ?thesis by (auto simp: threads_ok_def split: if_splits)
qed

lemma own_thread_finished:
  assumes ok: "threads_ok s" and x: "ts_objs s p = Some x" and t: "t \<in> set (ts_threads s)" "ot_arg t = p"
    and fin: "th_handle x \<noteq> 0 \<Longrightarrow> handle_finished s (th_handle x)"
  shows "ot_pc t = Run_Done"
proof -
  have "th_handle x = ot_handle t \<or> th_handle x = 0 \<and> ot_pc t = Run_Done" "ot_handle t \<noteq> 0"
    using threads_okD [OF ok t(1)] x t(2) ok t(1) by (auto simp: pair_ok_def threads_ok_def)
  with fin t(1) show ?thesis by (auto simp: handle_finished_def)
qed

lemma Thread_join_ok:
  assumes ok: "threads_ok s" and x: "ts_objs s p = Some x"
    and fin: "th_handle x \<noteq> 0 \<Longrightarrow> rt = 0 \<Longrightarrow> handle_finished s (th_handle x)"
  shows "threads_ok (settle (Thread_join x p rt s))"
proof (cases "th_handle x \<noteq> 0 \<and> rt = 0")
  case True
  with finished_object_ok [OF ok x, of "Some (x\<lparr>th_handle := 0\<rparr>)"] own_thread_finished [OF ok x] fin
  show ?thesis by (simp add: Thread_join_def modify_apply)
next
  case False
  with ok show ?thesis
    by (auto simp: Thread_join_def log_then_throw_ok return_apply simp del: append.simps)
qed

lemma Thread_ctor_ok:
  assumes ok: "threads_ok s" and h: "h \<noteq> 0"
  shows "threads_ok (settle (Thread_ctor cb name (Inr (h, tid)) s))"
proof -
  have "ot_arg t \<noteq> ts_next s" if "t \<in> set (ts_threads s)" for t
    using ok that by (auto simp: threads_ok_def)
  with ok h show ?thesis
    by (auto simp: threads_ok_def Thread_ctor_def Let_def pair_ok_def named_def identified_def less_Suc_eq)
qed

lemma thread_step_ok: "thread_step joined s t \<Longrightarrow> threads_ok s \<Longrightarrow> threads_ok t"
proof (induction rule: thread_step.induct)
  case (create s h tid cb name)
  then show ?case by (intro Thread_ctor_ok)
next
  case (create_fails s cb name rt)
  then show ?case by (simp add: Thread_ctor_def Let_def log_then_throw_ok del: append.simps)
next
  case (run s i)
  then show ?case by (intro run_step_ok)
next
  case (join s p x rt)
  then show ?case by (intro Thread_join_ok)
next
  case (destroy s p x)
  then have "threads_ok (s\<lparr>ts_objs := (ts_objs s)(p := None)\<rparr>)"
    using own_thread_finished [of s p x]
    by (intro finished_object_ok [of s p x]) (auto simp: joined_def)
  with destroy show ?case by (simp add: Thread_dtor_def joined_def)
next
  case (main_name s name)
  then show ?case by (simp add: SetName_main_def threads_ok_def)
next
  case (logging s w)
  then show ?case
    using log_step_count [of "ts_world s" w] by (auto simp: threads_ok_def intro: log_reachable.step)
qed

lemma thread_reachable_ok: "thread_reachable joined s \<Longrightarrow> threads_ok s"
proof (induction rule: thread_reachable.induct)
  case (start s w)
  then have "log_target (Some ''system'') w = (ts_logger s, ts_world s)" by (simp add: log_target_def)
  with start log_target_reachable [of w] show ?case by (simp add: threads_ok_def)
next
  case (step s t)
  then show ?case by (blast intro: thread_step_ok)
qed

end
