(* ===== verification/Thread_Properties.thy ===== *)
theory Thread_Properties
  imports Thread_Invariant Logger_Properties
begin

text \<open>
  The properties of the thread class: memory safety when objects are joined before they are
  destroyed, what \<open>join\<close> gives, the fault without that discipline, the names and ids the program
  sees, failing system calls, and that threads finish.
\<close>

section \<open>Properties\<close>

text \<open>A process without threads, and one thread after \<open>n\<close> of its statements.\<close>

definition no_threads :: thread_sys where
  "no_threads = \<lparr>ts_objs = (\<lambda>_. None), ts_next = 0, ts_threads = [], ts_main_name = ''UNKNOW'',
     ts_main_tid = 42, ts_fault = None, ts_world = snd (getLogger ''system'' start_world),
     ts_logger = fst (getLogger ''system'' start_world)\<rparr>"

definition one_thread :: "nat \<Rightarrow> thread_sys" where
  "one_thread n = (run_step 0 ^^ n)
     (settle (Thread_ctor (Some [Call_SetName ''w2'', Call_GetThis]) ''worker'' (Inr (7, 43)) no_threads))"

lemma one_thread_0:
  "one_thread 0 = settle (Thread_ctor (Some [Call_SetName ''w2'', Call_GetThis]) ''worker'' (Inr (7, 43)) no_threads)"
  by (simp add: one_thread_def)

lemma one_thread_Suc: "one_thread (Suc n) = run_step 0 (one_thread n)"
  by (simp add: one_thread_def)

lemma no_threads_reachable: "thread_reachable P no_threads"
  by (rule thread_reachable.start [where w = start_world])
    (simp_all add: no_threads_def start_world_reachable)

lemma one_thread_eval:
  "ts_fault (one_thread 0) = None" "ts_threads (one_thread 0) =
     [\<lparr>ot_arg = 0, ot_handle = 7, ot_tid = 43, ot_pc = Run_This, ot_this = None, ot_name = ''UNKNOW'',
       ot_comm = [], ot_cb = None, ot_detached = False\<rparr>]"
  "ts_objs (one_thread 0) 0 = Some \<lparr>th_id = -1, th_handle = 7,
     th_cb = Some [Call_SetName ''w2'', Call_GetThis], th_name = ''worker''\<rparr>"
  by (simp_all add: one_thread_0 Thread_ctor_def Let_def no_threads_def)

lemma one_thread_start: "thread_reachable P (one_thread 0)"
  unfolding one_thread_0
  by (rule thread_reachable.step [OF no_threads_reachable thread_step.create])
    (simp_all add: no_threads_def handle_free_def handle_finished_def)

lemma one_thread_done:
  "ts_fault (one_thread 8) = None \<and> ts_threads (one_thread 8) =
     [\<lparr>ot_arg = 0, ot_handle = 7, ot_tid = 43, ot_pc = Run_Done, ot_this = Some 0, ot_name = ''w2'',
       ot_comm = ''worker'', ot_cb = Some [], ot_detached = False\<rparr>] \<and>
   ts_objs (one_thread 8) 0 = Some \<lparr>th_id = 43, th_handle = 7, th_cb = None, th_name = ''w2''\<rparr>"
  by (simp add: one_thread_def eval_nat_numeral Thread_ctor_def no_threads_def run_step_def run_with_def
      thread_call_def SetName_def via_this_def GetThis_def substr_def c_str_def)

lemma run_step_fault: "ts_fault (run_step i s) = None \<Longrightarrow> ts_fault s = None"
  by (auto simp: run_step_def run_with_def thread_call_def SetName_def thread_fails_def Let_def
      dest: thread_log_fault split: run_pc.splits option.splits list.splits thread_op.splits sum.splits prod.splits if_splits)

lemma run_step_length [simp]: "length (ts_threads (run_step i s)) = length (ts_threads s)"
  by (auto simp: run_step_def run_with_def thread_call_def SetName_def thread_fails_def Let_def
      split: run_pc.splits option.splits prod.splits list.splits thread_op.splits sum.splits if_splits)

lemma run_steps_fault: "ts_fault ((run_step i ^^ n) s) = None \<Longrightarrow> ts_fault s = None"
  by (induction n) (auto dest: run_step_fault)

lemma run_steps_length [simp]: "length (ts_threads ((run_step i ^^ n) s)) = length (ts_threads s)"
  by (induction n) simp_all

lemma reachable_runs:
  assumes "thread_reachable P s" and "ts_fault ((run_step i ^^ n) s) = None" and "i < length (ts_threads s)"
  shows "thread_reachable P ((run_step i ^^ n) s)"
  using assms
proof (induction n)
  case (Suc n)
  have fault: "ts_fault ((run_step i ^^ n) s) = None" using Suc.prems(2) by (auto dest: run_step_fault)
  have "thread_step P ((run_step i ^^ n) s) (run_step i ((run_step i ^^ n) s))"
    by (rule thread_step.run [OF fault]) (simp add: Suc.prems(3))
  with Suc.IH [OF Suc.prems(1) fault Suc.prems(3)] show ?case
    by (auto intro: thread_reachable.step)
qed simp

lemma one_thread_reachable: "ts_fault (one_thread n) = None \<Longrightarrow> thread_reachable P (one_thread n)"
proof -
  assume "ts_fault (one_thread n) = None"
  moreover have "(run_step 0 ^^ n) (one_thread 0) = one_thread n" by (simp add: one_thread_def)
  ultimately show ?thesis using reachable_runs [where i = 0 and n = n, OF one_thread_start] by (simp add: one_thread_eval)
qed

text \<open>
  Statement by statement: if every \<open>Thread\<close> is joined before it is destroyed, no thread ever touches a
  destroyed object, dereferences a null \<open>GetThis()\<close> or crashes in a log statement, except for a date
  that does not fit its buffer, and an object is only destroyed when its thread has finished.
\<close>

lemma joined_statements_safe:
  assumes "thread_reachable joined s"
  shows "ts_fault s \<in> {None, Some Terminated, Some (Log_Undefined Indeterminate_Value)} \<and>
    log_reachable (ts_world s) \<and>
    (\<forall>t\<in>set (ts_threads s). ts_objs s (ot_arg t) = None \<longrightarrow> ot_pc t = Run_Done)"
proof -
  note ok = thread_reachable_ok [OF assms]
  then have "ot_pc t = Run_Done" if "t \<in> set (ts_threads s)" "ts_objs s (ot_arg t) = None" for t
    using threads_okD [OF ok that(1)] that(2) finished_none by simp
  moreover have "ts_fault s \<in> {None, Some Terminated, Some (Log_Undefined Indeterminate_Value)}"
    "log_reachable (ts_world s)" using ok by (simp_all add: threads_ok_def)
  ultimately show ?thesis by blast
qed

text \<open>
  C15. When \<open>join\<close> returns, the thread has finished, \<open>getId\<close> gives the kernel's id of that thread
  and \<open>getName\<close> the name the thread had last, and joining again does nothing.
\<close>

theorem join_returns:
  assumes "thread_reachable joined s" and "ts_fault s = None" and "ts_objs s p = Some x"
    and "th_handle x \<noteq> 0 \<Longrightarrow> rt = 0 \<Longrightarrow> handle_finished s (th_handle x)"
    and "Thread_join x p rt s = (Inr (), u)"
  shows "\<exists>t y. t \<in> set (ts_threads u) \<and> ot_arg t = p \<and> ot_pc t = Run_Done \<and>
    ts_objs u p = Some y \<and> th_handle y = 0 \<and> th_id y = ot_tid t \<and> th_name y = ot_name t \<and>
    Thread_join y p rt' u = (Inr (), u)"
proof -
  have "thread_step joined s (settle (Thread_join x p rt s))"
    by (rule thread_step.join [OF assms(2,3)]) (rule assms(4))
  then have "thread_step joined s u" by (simp add: assms(5))
  with assms(1) have ok: "threads_ok u" using thread_reachable_ok thread_reachable.step by blast
  have y: "ts_objs u p = Some (x\<lparr>th_handle := 0\<rparr>)"
    using assms(3,5)
    by (auto simp: Thread_join_def comp_simps split: if_splits sum.splits prod.splits)
  from ok y obtain t where t: "t \<in> set (ts_threads u)" "ot_arg t = p" "ot_handle t \<noteq> 0"
    "th_handle (x\<lparr>th_handle := 0\<rparr>) = ot_handle t \<or> th_handle (x\<lparr>th_handle := 0\<rparr>) = 0 \<and> ot_pc t = Run_Done"
    by (rule threads_ok_obj)
  then have pc: "ot_pc t = Run_Done" by simp
  with threads_okD [OF ok t(1)] t(2) y
  have "th_id x = ot_tid t" "th_name x = ot_name t" by (simp_all add: pair_ok_def named_def identified_def)
  with t pc y show ?thesis
    by (intro exI [of _ t] exI [of _ "x\<lparr>th_handle := 0\<rparr>"]) (simp add: Thread_join_def return_apply)
qed

theorem join_returns_witness:
  "\<exists>u y. Thread_join \<lparr>th_id = 43, th_handle = 7, th_cb = None, th_name = ''w2''\<rparr> 0 0 (one_thread 8) = (Inr (), u) \<and>
     ts_objs u 0 = Some y \<and> th_handle y = 0 \<and> Thread_join y 0 5 u = (Inr (), u)"
proof -
  let ?x = "\<lparr>th_id = 43, th_handle = 7, th_cb = None, th_name = ''w2''\<rparr>"
  have run: "Thread_join ?x 0 0 (one_thread 8) = (Inr (), upd_obj 0 (?x\<lparr>th_handle := 0\<rparr>) (one_thread 8))"
    by (simp add: Thread_join_def modify_apply)
  have "handle_finished (one_thread 8) 7" by (simp add: handle_finished_def one_thread_done)
  with join_returns [OF one_thread_reachable _ _ _ run, of 5] one_thread_done run show ?thesis
    by (metis thread_obj.select_convs(2))
qed

text \<open>
  C36. The destructor of a thread that was not joined detaches it, while \<open>run\<close> goes on to use the
  object: constructing a thread and destroying the object at once can make the thread read, and
  write, memory that was freed.
\<close>

theorem detach_use_after_free:
  "\<exists>s. thread_reachable (\<lambda>_. True) s \<and> ts_fault s = Some Use_After_Free \<and>
    (\<exists>t\<in>set (ts_threads s). ot_detached t \<and> ot_pc t = Run_Name)"
proof -
  let ?x = "\<lparr>th_id = -1, th_handle = 7, th_cb = Some [Call_SetName ''w2'', Call_GetThis], th_name = ''worker''\<rparr>"
  let ?u = "Thread_dtor ?x 0 (one_thread 0)"
  have reach: "thread_reachable (\<lambda>_. True) ?u"
    by (rule thread_reachable.step [OF one_thread_start thread_step.destroy]) (simp_all add: one_thread_eval)
  have u: "ts_fault ?u = None" "length (ts_threads ?u) = 1"
    by (simp_all add: Thread_dtor_def one_thread_eval)
  have v: "thread_reachable (\<lambda>_. True) (run_step 0 ?u)"
    by (rule thread_reachable.step [OF reach thread_step.run [OF u(1)]]) (simp add: u(2))
  have "ts_fault (run_step 0 ?u) = None"
    by (simp add: Thread_dtor_def one_thread_eval run_step_def)
  then have "thread_reachable (\<lambda>_. True) (run_step 0 (run_step 0 ?u))"
    using v u(2) by (intro thread_reachable.step [OF v thread_step.run]) simp_all
  moreover have "ts_fault (run_step 0 (run_step 0 ?u)) = Some Use_After_Free"
    "\<exists>t\<in>set (ts_threads (run_step 0 (run_step 0 ?u))). ot_detached t \<and> ot_pc t = Run_Name"
    by (simp_all add: Thread_dtor_def one_thread_eval run_step_def run_with_def thread_fails_def)
  ultimately show ?thesis by blast
qed

text \<open>
  C17. As long as a thread's object exists, both views of the thread agree: from the second statement
  of \<open>run\<close> on \<open>GetThis\<close> is the object and its name is \<open>GetName\<close>, whatever names were set. The id is
  different: \<open>getId\<close> is -1 until the new thread has got to its third statement, so the creator can
  see -1 after the constructor has returned.
\<close>

theorem thread_and_object_agree:
  assumes "thread_reachable joined s" and "i < length (ts_threads s)" and "t = ts_threads s ! i"
    and "ts_objs s (ot_arg t) = Some x"
  shows "(named (ot_pc t) \<longrightarrow> GetThis i s = Some (ot_arg t) \<and> GetName i s = th_name x) \<and>
    th_id x = (if identified (ot_pc t) then ot_tid t else -1)"
proof -
  have "pair_ok t (Some x)"
    using threads_okD [OF thread_reachable_ok [OF assms(1)], of t] assms(2-4) by simp
  with assms(3) show ?thesis by (auto simp: pair_ok_def named_def GetThis_def GetName_def)
qed

theorem thread_and_object_agree_witness:
  "GetThis 0 (one_thread 8) = Some 0 \<and> GetName 0 (one_thread 8) = ''w2'' \<and>
   th_id (the (ts_objs (one_thread 0) 0)) = -1"
proof -
  have last_state: "ts_fault (one_thread 8) = None" "0 < length (ts_threads (one_thread 8))"
    "ot_arg (ts_threads (one_thread 8) ! 0) = 0" "named (ot_pc (ts_threads (one_thread 8) ! 0))"
    "ts_objs (one_thread 8) 0 = Some \<lparr>th_id = 43, th_handle = 7, th_cb = None, th_name = ''w2''\<rparr>"
    using one_thread_done by (simp_all add: named_def)
  have first_state: "0 < length (ts_threads (one_thread 0))" "ot_arg (ts_threads (one_thread 0) ! 0) = 0"
    "\<not> identified (ot_pc (ts_threads (one_thread 0) ! 0))"
    "ts_objs (one_thread 0) 0 = Some \<lparr>th_id = -1, th_handle = 7,
      th_cb = Some [Call_SetName ''w2'', Call_GetThis], th_name = ''worker''\<rparr>"
    by (simp_all add: one_thread_eval identified_def)
  show ?thesis
    using thread_and_object_agree [OF one_thread_reachable [OF last_state(1)] last_state(2) refl]
      thread_and_object_agree [OF one_thread_start first_state(1) refl] last_state(3-5) first_state(2-4)
    by simp
qed

lemma length_comm: "length (c_str (substr name 0 15)) \<le> 15"
  using length_c_str [of "substr name 0 15"] by (simp add: substr_def)

definition comm_ok :: "thread_sys \<Rightarrow> bool" where
  "comm_ok s = (\<forall>t\<in>set (ts_threads s). length (ot_comm t) \<le> 15)"

lemma comm_ok_update: "comm_ok s \<Longrightarrow> length (ot_comm t) \<le> 15 \<Longrightarrow> comm_ok (s\<lparr>ts_threads := (ts_threads s)[i := t]\<rparr>)"
  using set_update_subset_insert [of "ts_threads s" i t] by (auto simp: comm_ok_def)

lemma comm_ok_objs [simp]:
  "comm_ok (s\<lparr>ts_objs := objs, ts_threads := ts\<rparr>) = comm_ok (s\<lparr>ts_threads := ts\<rparr>)"
  by (simp add: comm_ok_def)

lemma comm_ok_keeps:
  assumes "comm_ok s"
  shows "comm_ok (thread_fails e s)" and "comm_ok (upd_obj p x s)"
    and "comm_ok (snd (log_thread_error line msg s))"
    and "comm_ok (s\<lparr>ts_world := w\<rparr>)"
  using assms by (simp_all add: comm_ok_def thread_fails_def log_thread_error_keeps)

lemma settle_comm: "comm_ok (settle r) = comm_ok (snd r)"
  by (simp add: comm_ok_def)

lemma run_with_comm:
  assumes "comm_ok s" and "\<And>x. length (ot_comm (fst (f (ts_threads s ! i) x))) \<le> 15"
  shows "comm_ok (run_with i f s)"
proof (cases "ts_objs s (ot_arg (ts_threads s ! i))")
  case None
  with assms(1) show ?thesis by (simp add: run_with_def comm_ok_keeps)
next
  case (Some x)
  obtain t' x' where f: "f (ts_threads s ! i) x = (t', x')" by fastforce
  have "comm_ok (upd_thread i t' s)" using assms(2) [of x] by (intro comm_ok_update [OF assms(1)]) (simp add: f)
  then show ?thesis using Some f by (simp add: run_with_def comm_ok_def)
qed

lemma thread_call_comm: "comm_ok s \<Longrightarrow> i < length (ts_threads s) \<Longrightarrow> comm_ok (thread_call i op s)"
  by (auto simp: thread_call_def SetName_def Let_def comm_ok_keeps split: thread_op.split option.split sum.split
      intro!: comm_ok_update) (auto simp: comm_ok_def)

lemma run_step_comm:
  assumes ok: "comm_ok s" and i: "i < length (ts_threads s)"
  shows "comm_ok (run_step i s)"
proof -
  have own: "length (ot_comm (ts_threads s ! i)) \<le> 15" using ok i by (simp add: comm_ok_def)
  show ?thesis
    using ok own i
    by (cases "ot_pc (ts_threads s ! i)")
      (auto simp: run_step_def Let_def comm_ok_keeps length_comm split: option.split list.split
        intro!: run_with_comm comm_ok_update thread_call_comm)
qed

lemma thread_step_comm: "thread_step P s t \<Longrightarrow> comm_ok s \<Longrightarrow> comm_ok t"
proof (induction rule: thread_step.induct)
  case (create s h tid cb name)
  then show ?case by (simp add: settle_comm comm_ok_def Thread_ctor_def Let_def)
next
  case (create_fails s cb name rt)
  then show ?case by (simp add: settle_comm Thread_ctor_def Let_def log_then_throw comm_ok_keeps del: append.simps)
next
  case (run s i)
  then show ?case by (intro run_step_comm)
next
  case (join s p x rt)
  then show ?case
    by (auto simp: settle_comm Thread_join_def log_then_throw comm_ok_keeps modify_apply return_apply
        simp del: append.simps)
next
  case (destroy s p x)
  then show ?case by (auto simp: Thread_dtor_def comm_ok_def)
next
  case (main_name s name)
  then show ?case by (simp add: SetName_main_def comm_ok_def)
next
  case (logging s w)
  then show ?case by (simp add: comm_ok_keeps)
qed

text \<open>
  The name given to the kernel is at most 15 bytes, which with the terminating NUL fits the
  kernel's 16: \<open>pthread_setname_np\<close> is never given a name that is too long, in any interleaving
  and even when objects are destroyed too early.
\<close>

lemma kernel_name_bound:
  assumes "thread_reachable P s" and "t \<in> set (ts_threads s)"
  shows "length (ot_comm t) \<le> 15"
proof -
  from assms(1) have "comm_ok s"
  proof (induction rule: thread_reachable.induct)
    case (start s w)
    then show ?case by (simp add: comm_ok_def)
  next
    case (step s t)
    then show ?case by (blast intro: thread_step_comm)
  qed
  with assms(2) show ?thesis by (simp add: comm_ok_def)
qed

text \<open>
  When \<open>pthread_create\<close> or \<open>pthread_join\<close> fails, the caller gets the exception of the class
  (unless the error line itself meets an overlong date), and no object, no thread and no handle
  changes: the object of a failed \<open>join\<close> can be joined again.
\<close>

lemma pthread_errors_throw:
  assumes "thread_reachable joined s" and "rt \<noteq> 0" and "th_handle x \<noteq> 0"
  shows "fst (Thread_join x p rt s) \<in>
      {Inl (Std_Exception ''pthread_join error''), Inl (Undefined Indeterminate_Value)} \<and>
    ts_objs (snd (Thread_join x p rt s)) = ts_objs s \<and>
    ts_threads (snd (Thread_join x p rt s)) = ts_threads s \<and>
    fst (Thread_ctor cb name (Inl rt) s) \<in>
      {Inl (Std_Exception ''pthread_create error''), Inl (Undefined Indeterminate_Value)} \<and>
    ts_objs (snd (Thread_ctor cb name (Inl rt) s)) = ts_objs s \<and>
    ts_threads (snd (Thread_ctor cb name (Inl rt) s)) = ts_threads s"
proof -
  have throws: "fst (bind_comp (log_thread_error line msg) (\<lambda>_. throw e) s) \<in> {Inl e, Inl (Undefined Indeterminate_Value)}"
    for line msg and e
    using log_thread_error_world(3) [OF thread_reachable_ok [OF assms(1)], of line msg]
    by (auto simp: comp_simps log_result_ok_def split: prod.split)
  have join: "Thread_join x p rt s = bind_comp (log_thread_error 74
      (''pthread_join thread fail,rt='' @ show_int rt @ '' name='' @ th_name x))
      (\<lambda>_. throw (Std_Exception ''pthread_join error'')) s"
    using assms(2,3) by (simp add: Thread_join_def)
  have ctor: "Thread_ctor cb name (Inl rt) s = bind_comp (log_thread_error 42
      (''pthread_create thread fail,rt='' @ show_int rt @ '' name='' @ name))
      (\<lambda>_. throw (Std_Exception ''pthread_create error'')) s"
    by (simp add: Thread_ctor_def Let_def)
  show ?thesis
    unfolding join ctor by (intro conjI throws) (simp_all only: log_then_throw log_thread_error_keeps)
qed

section \<open>Progress\<close>

text \<open>What is left of a thread's callback, and how many statements the thread has to execute.\<close>

definition pending :: "os_thread \<Rightarrow> thread_obj option \<Rightarrow> thread_cb" where
  "pending t obj =
     (if ot_pc t = Run_Call then ot_cb t
      else (case obj of None \<Rightarrow> None | Some x \<Rightarrow> th_cb x))"

definition stmts_left :: "os_thread \<Rightarrow> thread_obj option \<Rightarrow> nat" where
  "stmts_left t obj =
     (let k = (case pending t obj of None \<Rightarrow> 0 | Some ops \<Rightarrow> length ops) in
      case ot_pc t of
        Run_This \<Rightarrow> k + 6 | Run_Name \<Rightarrow> k + 5 | Run_Id \<Rightarrow> k + 4 | Run_SetName \<Rightarrow> k + 3
      | Run_Swap \<Rightarrow> k + 2 | Run_Call \<Rightarrow> k + 1 | Run_Done \<Rightarrow> 0)"

abbreviation own_obj :: "nat \<Rightarrow> thread_sys \<Rightarrow> thread_obj option" where
  "own_obj i s \<equiv> ts_objs s (ot_arg (ts_threads s ! i))"

abbreviation thread_left :: "nat \<Rightarrow> thread_sys \<Rightarrow> nat" where
  "thread_left i s \<equiv> stmts_left (ts_threads s ! i) (own_obj i s)"

abbreviation thread_pending :: "nat \<Rightarrow> thread_sys \<Rightarrow> thread_cb" where
  "thread_pending i s \<equiv> pending (ts_threads s ! i) (own_obj i s)"

lemma own_call:
  assumes "threads_ok s" "i < length (ts_threads s)" "ot_pc (ts_threads s ! i) = Run_Call"
  shows "ts_fault (thread_call i op s) \<in> {ts_fault s, Some (Log_Undefined Indeterminate_Value)} \<and>
    (\<not> is_log op \<longrightarrow> ts_fault (thread_call i op s) = ts_fault s) \<and>
    ot_cb (ts_threads (thread_call i op s) ! i) = ot_cb (ts_threads s ! i) \<and>
    ot_pc (ts_threads (thread_call i op s) ! i) = Run_Call"
proof -
  obtain x where x: "own_obj i s = Some x" "pair_ok (ts_threads s ! i) (Some x)"
    using assms by (rule_tac thread_object [of s i]) simp_all
  show ?thesis
  proof (cases op)
    case (Call_Log logger lv fn line parts)
    have "GetThis i s = Some (ot_arg (ts_threads s ! i))"
      using x(2) assms(3) by (simp add: GetThis_def pair_ok_def)
    then obtain msg where "parts_text i s parts = Inr msg" using own_parts_text x(1) by blast
    from thread_log_world(3) [OF _ this refl] Call_Log assms(1,3) show ?thesis
      by (simp add: thread_call_def threads_ok_def)
  qed (use x assms(2,3) in \<open>auto simp: thread_call_def SetName_def via_this_def GetThis_def Let_def pair_ok_def\<close>)
qed

text \<open>A callback without log statements.\<close>

definition quiet :: "thread_cb \<Rightarrow> bool" where
  "quiet cb = (case cb of None \<Rightarrow> True | Some ops \<Rightarrow> list_all (\<lambda>op. \<not> is_log op) ops)"

lemma own_step:
  assumes ok: "threads_ok s" and i: "i < length (ts_threads s)"
    and pc: "ot_pc (ts_threads s ! i) \<noteq> Run_Done" and cb: "thread_pending i s \<noteq> None"
  shows "ts_fault (run_step i s) \<in> {ts_fault s, Some (Log_Undefined Indeterminate_Value)} \<and>
    (quiet (thread_pending i s) \<longrightarrow> ts_fault (run_step i s) = ts_fault s \<and>
       (ot_pc (ts_threads (run_step i s) ! i) = Run_Done \<or> quiet (thread_pending i (run_step i s)))) \<and>
    Suc (thread_left i (run_step i s)) = thread_left i s \<and>
    (ot_pc (ts_threads (run_step i s) ! i) = Run_Done \<or> thread_pending i (run_step i s) \<noteq> None)"
proof -
  obtain x where x: "own_obj i s = Some x" "pair_ok (ts_threads s ! i) (Some x)"
    using thread_object [OF ok i pc] .
  show ?thesis
  proof (cases "ot_pc (ts_threads s ! i) = Run_Call")
    case True
    then obtain ops where ops: "ot_cb (ts_threads s ! i) = Some ops" using cb by (auto simp: pending_def)
    show ?thesis
    proof (cases ops)
      case Nil
      with True ops i show ?thesis by (simp add: run_step_def Let_def stmts_left_def pending_def)
    next
      case (Cons op rest)
      let ?u = "upd_thread i ((ts_threads s ! i)\<lparr>ot_cb := Some rest\<rparr>) s"
      have "threads_ok ?u" using x by (intro set_own_thread_ok [OF ok i]) (auto simp: pair_ok_def)
      from own_call [OF this, of i op] True ops Cons i show ?thesis
        by (simp add: run_step_def Let_def stmts_left_def pending_def quiet_def)
    qed
  next
    case False
    with x i pc cb show ?thesis
      by (cases "ot_pc (ts_threads s ! i)")
        (auto simp: run_step_def run_with_def Let_def stmts_left_def pending_def)
  qed
qed

lemma run_alone:
  assumes "threads_ok s" and "i < length (ts_threads s)"
    and "ot_pc (ts_threads s ! i) = Run_Done \<or> thread_pending i s \<noteq> None"
  shows "ts_fault ((run_step i ^^ thread_left i s) s) \<in> {ts_fault s, Some (Log_Undefined Indeterminate_Value)} \<and>
    (quiet (thread_pending i s) \<longrightarrow> ts_fault ((run_step i ^^ thread_left i s) s) = ts_fault s) \<and>
    ot_pc (ts_threads ((run_step i ^^ thread_left i s) s) ! i) = Run_Done"
  using assms
proof (induction "thread_left i s" arbitrary: s)
  case 0
  then show ?case by (cases "ot_pc (ts_threads s ! i)") (auto simp: stmts_left_def Let_def)
next
  case (Suc n)
  let ?v = "run_step i s"
  from Suc have pc: "ot_pc (ts_threads s ! i) \<noteq> Run_Done" by (auto simp: stmts_left_def)
  with Suc.prems have "thread_pending i s \<noteq> None" by simp
  note own = own_step [OF Suc.prems(1,2) pc this]
  with Suc.hyps(2) have n: "n = thread_left i ?v" by simp
  have finished: "n = 0" if "ot_pc (ts_threads ?v ! i) = Run_Done"
    using that n by (simp add: stmts_left_def)
  have rest: "ts_fault ((run_step i ^^ n) ?v) \<in> {ts_fault ?v, Some (Log_Undefined Indeterminate_Value)} \<and>
      (quiet (thread_pending i ?v) \<longrightarrow> ts_fault ((run_step i ^^ n) ?v) = ts_fault ?v) \<and>
      ot_pc (ts_threads ((run_step i ^^ n) ?v) ! i) = Run_Done"
    using Suc.hyps(1) [OF n] run_step_ok [OF Suc.prems(1,2)] Suc.prems(2) own n by simp
  have "quiet (thread_pending i s) \<longrightarrow> ts_fault ((run_step i ^^ n) ?v) = ts_fault s"
    using own rest finished by (metis funpow_0)
  with own rest show ?case unfolding Suc.hyps(2) [symmetric] by (auto simp: funpow_swap1)
qed

text \<open>
  C16. A thread that has a callback is never stuck: from every state the program can be in, the thread
  alone reaches the end of \<open>run\<close>, in exactly the number of statements counted by \<open>stmts_left\<close> (one
  for each of the five assignments, one for each operation of the callback and one to return), so a
  \<open>join\<close> of it can return. Only a log statement with an overlong date can go wrong on the way.
\<close>

theorem thread_finishes:
  assumes "thread_reachable joined s" and "ts_fault s = None" and "i < length (ts_threads s)"
    and "thread_pending i s \<noteq> None"
  shows "ts_fault ((run_step i ^^ thread_left i s) s) \<in> {None, Some (Log_Undefined Indeterminate_Value)} \<and>
    (quiet (thread_pending i s) \<longrightarrow> ts_fault ((run_step i ^^ thread_left i s) s) = None) \<and>
    ot_pc (ts_threads ((run_step i ^^ thread_left i s) s) ! i) = Run_Done"
  using run_alone [OF thread_reachable_ok [OF assms(1)] assms(3)] assms(2,4) by simp

theorem thread_finishes_witness:
  "thread_left 0 (one_thread 0) = 8 \<and> ts_fault ((run_step 0 ^^ 8) (one_thread 0)) = None \<and>
   ot_pc (ts_threads ((run_step 0 ^^ 8) (one_thread 0)) ! 0) = Run_Done"
proof -
  have left: "thread_left 0 (one_thread 0) = 8" "thread_pending 0 (one_thread 0) \<noteq> None"
    and quiet: "quiet (thread_pending 0 (one_thread 0))"
    by (simp_all add: one_thread_eval stmts_left_def pending_def quiet_def)
  with thread_finishes [OF one_thread_start one_thread_eval(1) _ left(2)] show ?thesis
    by (simp add: one_thread_eval)
qed

text \<open>A step of another thread, or of the program, does not touch a thread that has not finished.\<close>

lemma pending_cong:
  "ot_pc t = ot_pc t' \<Longrightarrow> ot_cb t = ot_cb t' \<Longrightarrow> map_option th_cb obj = map_option th_cb obj' \<Longrightarrow>
   stmts_left t obj = stmts_left t' obj'"
  by (cases obj; cases obj') (auto simp: stmts_left_def pending_def)

lemma other_args:
  assumes "threads_ok s" "i < length (ts_threads s)" "j < length (ts_threads s)" "i \<noteq> j"
  shows "ot_arg (ts_threads s ! i) \<noteq> ot_arg (ts_threads s ! j)"
  using assms by (simp add: threads_ok_def distinct_conv_nth)

lemma run_step_other:
  assumes ok: "threads_ok s" and ij: "i < length (ts_threads s)" "j < length (ts_threads s)" "i \<noteq> j"
  shows "ts_threads (run_step j s) ! i = ts_threads s ! i \<and> own_obj i (run_step j s) = own_obj i s"
proof -
  have this_ptr: "ot_this (ts_threads s ! j) \<in> {None, Some (ot_arg (ts_threads s ! j))}"
    using threads_okD [OF ok, of "ts_threads s ! j"] ij(2) by (auto simp: pair_ok_def split: if_splits)
  with other_args [OF ok ij] ij show ?thesis
    by (cases "ot_pc (ts_threads s ! j)")
      (auto simp: run_step_def run_with_def thread_call_def SetName_def thread_fails_def Let_def
        split: option.splits prod.splits list.splits thread_op.splits sum.splits)
qed

lemma run_step_left:
  assumes ok: "threads_ok s" and i: "i < length (ts_threads s)"
  shows "thread_left i (run_step i s) \<le> thread_left i s"
proof -
  consider "ot_pc (ts_threads s ! i) = Run_Done"
    | "ot_pc (ts_threads s ! i) \<noteq> Run_Done" "thread_pending i s \<noteq> None"
    | "ot_pc (ts_threads s ! i) \<noteq> Run_Done" "thread_pending i s = None" by blast
  then show ?thesis
  proof cases
    case 1
    then show ?thesis by (simp add: run_step_def)
  next
    case 2
    show ?thesis using own_step [OF ok i 2] by linarith
  next
    case 3
    obtain x where x: "own_obj i s = Some x" using thread_object [OF ok i 3(1)] by blast
    with 3 i show ?thesis
      by (cases "ot_pc (ts_threads s ! i)")
        (auto simp: run_step_def run_with_def Let_def stmts_left_def pending_def thread_fails_def)
  qed
qed

text \<open>
  Every thread that has a callback terminates: the number of statements it still has to execute
  never grows, whatever thread or part of the program takes the next step, and it falls by one with
  each step of the thread itself.
\<close>

lemma thread_progress:
  assumes reach: "thread_reachable joined s" and step: "thread_step joined s u"
    and i: "i < length (ts_threads s)"
  shows "thread_left i u \<le> thread_left i s \<and>
    (u = run_step i s \<and> ot_pc (ts_threads s ! i) \<noteq> Run_Done \<and> thread_pending i s \<noteq> None \<longrightarrow>
      Suc (thread_left i u) = thread_left i s)"
proof
  note ok = thread_reachable_ok [OF reach]
  show "u = run_step i s \<and> ot_pc (ts_threads s ! i) \<noteq> Run_Done \<and> thread_pending i s \<noteq> None \<longrightarrow>
      Suc (thread_left i u) = thread_left i s"
    using own_step [OF ok i] by blast
  from step ok i show "thread_left i u \<le> thread_left i s"
  proof (induction rule: thread_step.induct)
    case (create s h tid cb name)
    then have "ot_arg (ts_threads s ! i) < ts_next s" by (simp add: threads_ok_def)
    with create show ?case by (simp add: Thread_ctor_def Let_def nth_append)
  next
    case (create_fails s cb name rt)
    then show ?case
      by (simp add: Thread_ctor_def Let_def log_then_throw log_thread_error_keeps del: append.simps)
  next
    case (run s j)
    show ?case
    proof (cases "i = j")
      case True
      with run run_step_left show ?thesis by blast
    next
      case False
      with run_step_other [of s i j] run have "thread_left i (run_step j s) = thread_left i s" by metis
      then show ?thesis by simp
    qed
  next
    case (join s p x rt)
    show ?case
    proof (cases "th_handle x \<noteq> 0 \<and> rt = 0")
      case True
      have "thread_left i (upd_obj p (x\<lparr>th_handle := 0\<rparr>) s) = thread_left i s"
        using join.hyps(2) by (intro pending_cong) auto
      with True show ?thesis by (simp add: Thread_join_def modify_apply)
    next
      case False
      then show ?thesis
        by (auto simp: Thread_join_def log_then_throw log_thread_error_keeps return_apply simp del: append.simps)
    qed
  next
    case (destroy s p x)
    have "stmts_left (ts_threads s ! i) (((ts_objs s)(p := None)) (ot_arg (ts_threads s ! i))) \<le> thread_left i s"
      using own_thread_finished [OF destroy.prems(1) destroy.hyps(2), of "ts_threads s ! i"] destroy
      by (cases "ot_arg (ts_threads s ! i) = p") (auto simp: joined_def stmts_left_def)
    with destroy.hyps(3) show ?case by (simp add: Thread_dtor_def joined_def)
  qed (simp_all add: SetName_main_def)
qed

end
