(* ===== verification/Thread_Logging.thy ===== *)
theory Thread_Logging
  imports Thread_Properties
begin

text \<open>
  Threads that log: what a log statement in a thread gives to the logging module, by reference to
  the specification of delivery, and the callback of \<open>tests/test_thread.cc\<close>.
\<close>

section \<open>The program of \<open>tests/test_thread.cc\<close>\<close>

text \<open>\<open>fun1\<close>, whose \<open>g_logger\<close> is the root logger, and the construction of thread \<open>n\<close> in \<open>main\<close>.\<close>

definition fun1 :: "thread_op list" where
  "fun1 = [Call_Log None INFO ''tests/test_thread.cc'' 9
     [Part_Text ''name: '', Part_GetName, Part_Text '' this.name: '', Part_This_getName,
      Part_Text '' id: '', Part_GetThreadId, Part_Text '' this.id: '', Part_This_getId,
      Part_Text [CHR 0x0A]]]"

definition test_thread :: "nat \<Rightarrow> nat \<Rightarrow> int \<Rightarrow> thread_sys \<Rightarrow> thread_sys" where
  "test_thread n h tid s =
     settle (Thread_ctor (Some fun1) (''name_'' @ show_int (int n)) (Inr (h, tid)) s)"

text \<open>Two of its threads, both about to write their line.\<close>

definition two_threads :: thread_sys where
  "two_threads = test_thread 1 8 44 (test_thread 0 7 43 no_threads)"

definition both_calling :: thread_sys where
  "both_calling = (run_step 1 ^^ 5) ((run_step 0 ^^ 5) two_threads)"

lemma show_digits: "show_nat 0 = ''0''" "show_nat (Suc 0) = ''1''" "show_nat 43 = ''43''"
  by (simp_all add: show_nat.simps digit_char_def char_eval)

lemma both_calling_eval:
  "ts_threads both_calling =
     [\<lparr>ot_arg = 0, ot_handle = 7, ot_tid = 43, ot_pc = Run_Call, ot_this = Some 0, ot_name = ''name_0'',
       ot_comm = ''name_0'', ot_cb = Some fun1, ot_detached = False\<rparr>,
      \<lparr>ot_arg = 1, ot_handle = 8, ot_tid = 44, ot_pc = Run_Call, ot_this = Some 1, ot_name = ''name_1'',
       ot_comm = ''name_1'', ot_cb = Some fun1, ot_detached = False\<rparr>]"
  "ts_objs both_calling 0 = Some \<lparr>th_id = 43, th_handle = 7, th_cb = None, th_name = ''name_0''\<rparr>"
  "ts_objs both_calling 1 = Some \<lparr>th_id = 44, th_handle = 8, th_cb = None, th_name = ''name_1''\<rparr>"
  "ts_fault both_calling = None" "ts_world both_calling = ts_world no_threads"
  by (simp_all add: both_calling_def two_threads_def test_thread_def eval_nat_numeral Thread_ctor_def
      no_threads_def run_step_def run_with_def substr_def c_str_def show_int_def show_digits)

lemma test_thread_reachable:
  assumes "thread_reachable P s" and "ts_fault s = None" and "h \<noteq> 0" and "handle_free s h" and "0 < tid"
  shows "thread_reachable P (test_thread n h tid s)"
  unfolding test_thread_def by (rule thread_reachable.step [OF assms(1) thread_step.create [OF assms(2-5)]])

lemma both_calling_reachable: "thread_reachable P both_calling"
proof -
  have "thread_reachable P (test_thread 0 7 43 no_threads)"
    by (rule test_thread_reachable [OF no_threads_reachable])
      (simp_all add: no_threads_def handle_free_def handle_finished_def)
  then have "thread_reachable P two_threads"
    unfolding two_threads_def
    by (rule test_thread_reachable)
      (auto simp: test_thread_def Thread_ctor_def no_threads_def handle_free_def handle_finished_def)
  moreover have fault: "ts_fault ((run_step 1 ^^ 5) ((run_step 0 ^^ 5) two_threads)) = None"
    using both_calling_eval(4) by (simp only: both_calling_def)
  moreover have "length (ts_threads two_threads) = 2"
    by (simp add: two_threads_def test_thread_def Thread_ctor_def no_threads_def)
  ultimately show ?thesis
    unfolding both_calling_def using run_steps_fault [OF fault] by (intro reachable_runs) simp_all
qed

section \<open>Log statements of threads\<close>

text \<open>The text of a part, from the thread's id and its name alone.\<close>

fun part_spec :: "int \<Rightarrow> string \<Rightarrow> log_part \<Rightarrow> string" where
  "part_spec tid name (Part_Text t) = t"
| "part_spec tid name Part_GetName = name"
| "part_spec tid name Part_This_getName = name"
| "part_spec tid name Part_GetThreadId = show_int tid"
| "part_spec tid name Part_This_getId = show_int tid"

lemma parts_text_spec:
  assumes pair: "pair_ok (ts_threads s ! i) (Some x)" and pc: "ot_pc (ts_threads s ! i) = Run_Call"
    and x: "own_obj i s = Some x"
  shows "parts_text i s parts = Inr (concat (map (part_spec (ot_tid (ts_threads s ! i)) (th_name x)) parts))"
proof (induction parts)
  case (Cons p ps)
  have "part_text i s p = Inr (part_spec (ot_tid (ts_threads s ! i)) (th_name x) p)"
    using pair pc x
    by (cases p) (simp_all add: via_this_def GetThis_def GetName_def Thread_getName_def Thread_getId_def
        pair_ok_def named_def identified_def)
  with Cons show ?case by simp
qed simp

lemma log_target_tid: "log_target logger w = (l, v) \<Longrightarrow> w_tid v = w_tid w"
  by (auto simp: log_target_def getLogger_def manager_getLogger_def manager_construction
      split: option.splits if_splits)

text \<open>
  C18. From every reachable state a log statement in a thread, not overlapped by another, delivers
  one event as the logging module specifies. The event carries the kernel's id of that thread, and the text streamed in names the thread
  and its id consistently: \<open>GetName()\<close> and \<open>GetThis()->getName()\<close> agree, and so do
  \<open>GetThreadId()\<close> and \<open>GetThis()->getId()\<close>.
\<close>

theorem thread_log_delivers:
  assumes "thread_reachable joined s" and "i < length (ts_threads s)" and "t = ts_threads s ! i"
    and "ot_pc t = Run_Call" and "ot_cb t = Some (Call_Log logger lv fn line parts # ops)"
    and "ts_objs s (ot_arg t) = Some x"
    and "log_target logger ((ts_world s)\<lparr>w_tid := ot_tid t\<rparr>) = (l, w)"
    and "ev = stream_into (concat (map (part_spec (ot_tid t) (th_name x)) parts)) (macro_event l lv fn line w)"
  shows "ts_world (run_step i s) = snd (deliver w l lv ev) \<and> m_threadId ev = GetThreadId (ot_tid t)"
proof
  show "m_threadId ev = GetThreadId (ot_tid t)"
    using assms(8) log_target_tid [OF assms(7)] by (simp add: stream_into_def macro_event_def LogEvent_def)
  let ?u = "upd_thread i (t\<lparr>ot_cb := Some ops\<rparr>) s"
  note ok = thread_reachable_ok [OF assms(1)]
  have pair: "pair_ok t (Some x)" using threads_okD [OF ok, of t] assms(2,3,6) by simp
  have thread: "ts_threads ?u ! i = t\<lparr>ot_cb := Some ops\<rparr>" using assms(2) by simp
  then have parts: "parts_text i ?u parts = Inr (concat (map (part_spec (ot_tid t) (th_name x)) parts))"
    using parts_text_spec [of ?u i x parts] pair assms(4,6) by (simp add: pair_ok_def)
  have "log_reachable (ts_world s)" using ok by (simp add: threads_ok_def)
  note w = log_target_reachable [OF reachable_tid [OF this] assms(7)]
  then have deliver: "Logger_log l lv ev w = deliver w l lv ev"
    by (intro Logger_log_deliver log_reachable_inv) simp_all
  have ev: "m_logger ev = l" "m_level ev = lv" using assms(8) by (simp_all add: stream_into_def macro_event_def LogEvent_def)
  have "ts_world (run_step i s) = ts_world (thread_log i logger lv fn line parts ?u)"
    using assms(3,4,5) by (simp add: run_step_def thread_call_def)
  also have "\<dots> = (if getLevel l w \<le> lv then snd (Logger_log l lv ev w) else w)"
    using parts thread assms(7,8) ev
    by (simp add: thread_log_def SYLAR_LOG_LEVEL_def LogEventWrap_destroy_def log_outcome_def thread_fails_def
        split: prod.split sum.split error.split)
  also have "\<dots> = snd (deliver w l lv ev)"
    by (simp add: deliver deliver_def route_def getLevel_def)
  finally show "ts_world (run_step i s) = snd (deliver w l lv ev)" .
qed


theorem thread_log_delivers_witness:
  "\<exists>ev. ts_world (run_step 0 both_calling) = snd (deliver ((ts_world no_threads)\<lparr>w_tid := 43\<rparr>) 0 INFO ev) \<and>
     m_threadId ev = 43 \<and>
     getContent ev = ''name: name_0 this.name: name_0 id: 43 this.id: 43'' @ [CHR 0x0A]"
proof -
  let ?w = "(ts_world no_threads)\<lparr>w_tid := 43\<rparr>"
  let ?t = "ts_threads both_calling ! 0"
  let ?parts = "[Part_Text ''name: '', Part_GetName, Part_Text '' this.name: '', Part_This_getName,
      Part_Text '' id: '', Part_GetThreadId, Part_Text '' this.id: '', Part_This_getId, Part_Text [CHR 0x0A]]"
  let ?msg = "concat (map (part_spec (ot_tid ?t) ''name_0'') ?parts)"
  have t: "ot_arg ?t = 0" "ot_pc ?t = Run_Call" "ot_tid ?t = 43"
    "ot_cb ?t = Some (Call_Log None INFO ''tests/test_thread.cc'' 9 ?parts # [])"
    by (simp_all add: both_calling_eval fun1_def)
  have x: "ts_objs both_calling (ot_arg ?t) = Some \<lparr>th_id = 43, th_handle = 7, th_cb = None, th_name = ''name_0''\<rparr>"
    by (simp add: both_calling_eval)
  have root: "log_target None ((ts_world both_calling)\<lparr>w_tid := ot_tid ?t\<rparr>) = (0, ?w)"
    by (simp add: both_calling_eval log_target_def getRoot_def no_threads_def getLogger_def
        manager_getLogger_def manager_construction start_world_def)
  have len: "0 < length (ts_threads both_calling)" by (simp add: both_calling_eval)
  have ev: "stream_into ?msg (macro_event 0 INFO ''tests/test_thread.cc'' 9 ?w) =
      stream_into (concat (map (part_spec (ot_tid ?t)
        (th_name \<lparr>th_id = 43, th_handle = 7, th_cb = None, th_name = ''name_0''\<rparr>)) ?parts))
        (macro_event 0 INFO ''tests/test_thread.cc'' 9 ?w)" by simp
  have "?msg = ''name: name_0 this.name: name_0 id: 43 this.id: 43'' @ [CHR 0x0A]"
    by (simp add: t show_int_def show_digits)
  with thread_log_delivers [OF both_calling_reachable len refl t(2,4) x root ev] t(3) show ?thesis
    by (intro exI [of _ "stream_into ?msg (macro_event 0 INFO ''tests/test_thread.cc'' 9 ?w)"])
      (simp add: getContent_def stream_into_def macro_event_def LogEvent_def GetThreadId_def)
qed

end
