(* ===== verification/Thread_Races.thy ===== *)
theory Thread_Races
  imports Thread_Logging
begin

text \<open>
  Data races. The sources have no lock, so two accesses to one member of which one is a write race
  when nothing orders them: the next statements of two threads, or the next statement of a thread
  and a call of the main program. Here are the locations that each of them reads and writes, the
  races that cannot happen, a semantics in which a race ends every guarantee, with what a program
  that joins its threads can count on under it, and the races that do happen.
\<close>

section \<open>What a statement accesses\<close>

datatype obj_member = M_id | M_handle | M_cb | M_name

datatype location =
    Loc_Member nat obj_member   \<comment> \<open>a member of a \<open>Thread\<close>\<close>
  | Loc_Registry                \<comment> \<open>\<open>LoggerManager::m_loggers\<close>\<close>
  | Loc_Formatter appender_ptr  \<comment> \<open>\<open>LogAppender::m_formatter\<close>\<close>
  | Loc_Stream appender_ptr     \<comment> \<open>\<open>FileLogAppender::m_filestream\<close>\<close>

definition this_member :: "nat \<Rightarrow> obj_member \<Rightarrow> thread_sys \<Rightarrow> location set" where
  "this_member i m s = (case GetThis i s of None \<Rightarrow> {} | Some p \<Rightarrow> {Loc_Member p m})"

fun part_reads :: "nat \<Rightarrow> thread_sys \<Rightarrow> log_part \<Rightarrow> location set" where
  "part_reads i s Part_This_getName = this_member i M_name s"
| "part_reads i s Part_This_getId = this_member i M_id s"
| "part_reads i s _ = {}"

text \<open>A log statement finds its logger, and writes to some appenders of the world it then is in.\<close>

definition log_found :: "nat \<Rightarrow> string option \<Rightarrow> thread_sys \<Rightarrow> logger_ptr \<times> world" where
  "log_found i logger s = log_target logger ((ts_world s)\<lparr>w_tid := ot_tid (ts_threads s ! i)\<rparr>)"

definition log_receivers :: "nat \<Rightarrow> string option \<Rightarrow> level \<Rightarrow> thread_sys \<Rightarrow> appender_ptr list" where
  "log_receivers i logger lv s =
     (case log_found i logger s of
        (l, w) \<Rightarrow>
          (case route w l lv of
             None \<Rightarrow> []
           | Some t \<Rightarrow> filter (\<lambda>ap. la_level (appenders w ap) \<le> lv) (lg_appenders (loggers w t))))"

definition registers :: "string option \<Rightarrow> thread_sys \<Rightarrow> bool" where
  "registers logger s =
     (case logger of
        None \<Rightarrow> False
      | Some name \<Rightarrow> map_of (mgr_loggers (GetInstance (ts_world s))) name = None)"

fun op_reads :: "nat \<Rightarrow> thread_sys \<Rightarrow> thread_op \<Rightarrow> location set" where
  "op_reads i s Call_GetThis = this_member i M_name s \<union> this_member i M_id s"
| "op_reads i s (Call_Log logger lv _ _ parts) =
     (if logger = None then {} else {Loc_Registry}) \<union> \<Union> (set (map (part_reads i s) parts)) \<union>
     Loc_Formatter ` set (log_receivers i logger lv s)"
| "op_reads i s _ = {}"

fun op_writes :: "nat \<Rightarrow> thread_sys \<Rightarrow> thread_op \<Rightarrow> location set" where
  "op_writes i s (Call_SetName name) = (if name = [] then {} else this_member i M_name s)"
| "op_writes i s (Call_Log logger lv _ _ parts) =
     (let w = snd (log_found i logger s); aps = log_receivers i logger lv s in
      (if registers logger s then {Loc_Registry} else {}) \<union>
      Loc_Formatter ` set (filter (\<lambda>ap. is_stdout (appenders w ap) \<and> la_formatter (appenders w ap) = None) aps) \<union>
      Loc_Stream ` set (filter (\<lambda>ap. is_file (appenders w ap)) aps))"
| "op_writes i s _ = {}"

text \<open>What the next statement of thread \<open>i\<close> may read and write of the shared objects.\<close>

definition run_reads :: "nat \<Rightarrow> thread_sys \<Rightarrow> location set" where
  "run_reads i s =
     (let t = ts_threads s ! i in
      case ot_pc t of
        Run_Name \<Rightarrow> {Loc_Member (ot_arg t) M_name}
      | Run_SetName \<Rightarrow> {Loc_Member (ot_arg t) M_name}
      | Run_Swap \<Rightarrow> {Loc_Member (ot_arg t) M_cb}
      | Run_Call \<Rightarrow> (case ot_cb t of Some (op # _) \<Rightarrow> op_reads i s op | _ \<Rightarrow> {})
      | _ \<Rightarrow> {})"

definition run_writes :: "nat \<Rightarrow> thread_sys \<Rightarrow> location set" where
  "run_writes i s =
     (let t = ts_threads s ! i in
      case ot_pc t of
        Run_Id \<Rightarrow> {Loc_Member (ot_arg t) M_id}
      | Run_Swap \<Rightarrow> {Loc_Member (ot_arg t) M_cb}
      | Run_Call \<Rightarrow> (case ot_cb t of Some (op # _) \<Rightarrow> op_writes i s op | _ \<Rightarrow> {})
      | _ \<Rightarrow> {})"

text \<open>Calls of the main program on an object; a failing \<open>join\<close> reads the name for its error line.\<close>

datatype main_call = Main_getName nat | Main_getId nat | Main_join nat | Main_dtor nat

fun main_reads :: "main_call \<Rightarrow> location set" where
  "main_reads (Main_getName p) = {Loc_Member p M_name}"
| "main_reads (Main_getId p) = {Loc_Member p M_id}"
| "main_reads (Main_join p) = {Loc_Member p M_handle, Loc_Member p M_name}"
| "main_reads (Main_dtor p) = {Loc_Member p M_handle}"

fun main_writes :: "main_call \<Rightarrow> location set" where
  "main_writes (Main_join p) = {Loc_Member p M_handle}"
| "main_writes (Main_dtor p) = Loc_Member p ` {M_id, M_handle, M_cb, M_name}"
| "main_writes _ = {}"

fun main_object :: "main_call \<Rightarrow> nat" where
  "main_object (Main_getName p) = p"
| "main_object (Main_getId p) = p"
| "main_object (Main_join p) = p"
| "main_object (Main_dtor p) = p"

definition run_accesses :: "nat \<Rightarrow> thread_sys \<Rightarrow> location set" where
  "run_accesses i s = run_reads i s \<union> run_writes i s"

text \<open>The locations on which two threads, or a thread and a call of the main program, race.\<close>

definition thread_races :: "nat \<Rightarrow> nat \<Rightarrow> thread_sys \<Rightarrow> location set" where
  "thread_races i j s =
     (run_writes i s \<inter> run_accesses j s) \<union> (run_writes j s \<inter> run_accesses i s)"

definition main_races :: "nat \<Rightarrow> main_call \<Rightarrow> thread_sys \<Rightarrow> location set" where
  "main_races i c s =
     (run_writes i s \<inter> (main_reads c \<union> main_writes c)) \<union> (main_writes c \<inter> run_accesses i s)"

section \<open>Races that cannot happen\<close>

lemma op_members:
  assumes "GetThis i s = Some p"
  shows "Loc_Member q m \<in> op_reads i s op \<Longrightarrow> q = p" and "Loc_Member q m \<in> op_writes i s op \<Longrightarrow> q = p"
proof -
  have part: "Loc_Member q m \<in> part_reads i s a \<Longrightarrow> q = p" for a
    using assms by (cases a) (auto simp: this_member_def)
  show "Loc_Member q m \<in> op_reads i s op \<Longrightarrow> q = p"
    using assms part by (cases op) (auto simp: this_member_def split: if_splits)
  show "Loc_Member q m \<in> op_writes i s op \<Longrightarrow> q = p"
    using assms by (cases op) (auto simp: this_member_def Let_def split: if_splits)
qed

text \<open>A thread accesses the members of its own object only, and only before it has finished.\<close>

lemma accesses_own:
  assumes ok: "threads_ok s" and i: "i < length (ts_threads s)" and "Loc_Member p m \<in> run_accesses i s"
  shows "p = ot_arg (ts_threads s ! i) \<and> ot_pc (ts_threads s ! i) \<noteq> Run_Done"
proof (cases "ot_pc (ts_threads s ! i)")
  case Run_Call
  have "pair_ok (ts_threads s ! i) (own_obj i s)" using threads_okD [OF ok, of "ts_threads s ! i"] i by simp
  with Run_Call have "GetThis i s = Some (ot_arg (ts_threads s ! i))" by (simp add: pair_ok_def GetThis_def)
  note op_members [OF this, of p m]
  with Run_Call assms(3) show ?thesis
    by (auto simp: run_accesses_def run_reads_def run_writes_def split: option.splits list.splits)
qed (use assms(3) in \<open>auto simp: run_accesses_def run_reads_def run_writes_def\<close>)

lemma main_locations: "l \<in> main_reads c \<union> main_writes c \<Longrightarrow> \<exists>m. l = Loc_Member (main_object c) m"
  by (cases c) auto

lemma threads_no_member_race:
  assumes ok: "threads_ok s" and i: "i < length (ts_threads s)" and j: "j < length (ts_threads s)" "j \<noteq> i"
  shows "Loc_Member p m \<notin> thread_races i j s"
  using other_args [OF ok i j(1)] j accesses_own [OF ok i, of p m] accesses_own [OF ok j(1), of p m]
  by (auto simp: thread_races_def run_accesses_def)

lemma joined_no_race:
  assumes ok: "threads_ok s" and i: "i < length (ts_threads s)"
    and x: "ts_objs s (main_object c) = Some x" "joined x"
  shows "main_races i c s = {}"
proof -
  have "Loc_Member (main_object c) m \<notin> run_accesses i s" for m
  proof
    assume "Loc_Member (main_object c) m \<in> run_accesses i s"
    note own = accesses_own [OF ok i this]
    have "pair_ok (ts_threads s ! i) (Some x)" "ot_handle (ts_threads s ! i) \<noteq> 0"
      using threads_okD [OF ok, of "ts_threads s ! i"] ok i own x by (auto simp: threads_ok_def)
    with own x show False by (simp add: pair_ok_def joined_def)
  qed
  with main_locations [of _ c] show ?thesis
    by (fastforce simp: main_races_def run_accesses_def)
qed

text \<open>
  C14. Two threads never race on a \<open>Thread\<close> object, and once \<open>join\<close> has returned the program can
  read its name and id, join it again and destroy it without a race with any thread.
\<close>

theorem objects_race_free:
  assumes reach: "thread_reachable joined s" and i: "i < length (ts_threads s)"
  shows "(\<forall>j p m. j < length (ts_threads s) \<and> j \<noteq> i \<longrightarrow> Loc_Member p m \<notin> thread_races i j s) \<and>
    (\<forall>c x. ts_objs s (main_object c) = Some x \<and> joined x \<longrightarrow> main_races i c s = {})"
  using threads_no_member_race [OF thread_reachable_ok [OF reach] i]
    joined_no_race [OF thread_reachable_ok [OF reach] i] by blast

theorem objects_race_free_witness:
  "main_races 0 (Main_getId 0) (snd (Thread_join (the (ts_objs (one_thread 8) 0)) 0 0 (one_thread 8))) = {}"
proof -
  let ?x = "\<lparr>th_id = 43, th_handle = 7, th_cb = None, th_name = ''w2''\<rparr>"
  let ?s = "upd_obj 0 (?x\<lparr>th_handle := 0\<rparr>) (one_thread 8)"
  have join: "Thread_join ?x 0 0 (one_thread 8) = (Inr (), ?s)" by (simp add: Thread_join_def modify_apply)
  have "thread_step joined (one_thread 8) (settle (Thread_join ?x 0 0 (one_thread 8)))"
    by (rule thread_step.join) (use one_thread_done in \<open>simp_all add: handle_finished_def\<close>)
  moreover have "thread_reachable joined (one_thread 8)" using one_thread_done by (intro one_thread_reachable) simp
  ultimately have reach: "thread_reachable joined ?s" unfolding join by (auto intro: thread_reachable.step)
  have len: "0 < length (ts_threads ?s)" using one_thread_done by simp
  have x: "ts_objs ?s (main_object (Main_getId 0)) = Some (?x\<lparr>th_handle := 0\<rparr>)" by simp
  have "joined (?x\<lparr>th_handle := 0\<rparr>)" by (simp add: joined_def)
  with objects_race_free [OF reach len] x have "main_races 0 (Main_getId 0) ?s = {}" by blast
  then show ?thesis using join one_thread_done by simp
qed

section \<open>What a program can count on\<close>

text \<open>
  The states of a C++ program: it runs, or it has met a data race, after which nothing is defined. A
  race on a member of a \<open>Thread\<close> is met when two threads, or a thread and a call of the main
  program on an object that exists, are about to access it. A thread that is about to log may race
  with whatever the main program or another thread does with the logging module at that moment.
\<close>

datatype cpp_state =
    Running thread_sys
  | Member_Race nat obj_member thread_sys
  | Logging_Race thread_sys

definition next_op :: "nat \<Rightarrow> thread_sys \<Rightarrow> thread_op option" where
  "next_op i s =
     (let t = ts_threads s ! i in
      case ot_pc t of
        Run_Call \<Rightarrow> (case ot_cb t of Some (op # _) \<Rightarrow> Some op | _ \<Rightarrow> None)
      | _ \<Rightarrow> None)"

definition about_to_log :: "nat \<Rightarrow> thread_sys \<Rightarrow> bool" where
  "about_to_log i s = (case next_op i s of Some op \<Rightarrow> is_log op | None \<Rightarrow> False)"

inductive cpp_step :: "(thread_obj \<Rightarrow> bool) \<Rightarrow> cpp_state \<Rightarrow> cpp_state \<Rightarrow> bool" for P where
  statement: "thread_step P s u \<Longrightarrow> cpp_step P (Running s) (Running u)"
| thread_race: "ts_fault s = None \<Longrightarrow> i < length (ts_threads s) \<Longrightarrow> j < length (ts_threads s) \<Longrightarrow> i \<noteq> j \<Longrightarrow>
    Loc_Member p m \<in> thread_races i j s \<Longrightarrow> cpp_step P (Running s) (Member_Race p m s)"
| main_race: "ts_fault s = None \<Longrightarrow> i < length (ts_threads s) \<Longrightarrow>
    ts_objs s (main_object c) = Some x \<Longrightarrow> (c = Main_dtor (main_object c) \<Longrightarrow> P x) \<Longrightarrow>
    Loc_Member p m \<in> main_races i c s \<Longrightarrow> cpp_step P (Running s) (Member_Race p m s)"
| log_race: "ts_fault s = None \<Longrightarrow> i < length (ts_threads s) \<Longrightarrow> about_to_log i s \<Longrightarrow>
    cpp_step P (Running s) (Logging_Race s)"

inductive cpp_reachable :: "(thread_obj \<Rightarrow> bool) \<Rightarrow> cpp_state \<Rightarrow> bool" for P where
  start: "thread_reachable P s \<Longrightarrow> ts_threads s = [] \<Longrightarrow> cpp_reachable P (Running s)"
| step: "cpp_reachable P a \<Longrightarrow> cpp_step P a b \<Longrightarrow> cpp_reachable P b"

inductive_cases cpp_stepE: "cpp_step P (Running s) b"

lemma thread_reachable_cpp: "thread_reachable P s \<Longrightarrow> cpp_reachable P (Running s)"
proof (induction rule: thread_reachable.induct)
  case (start s w)
  then show ?case by (intro cpp_reachable.start) (auto intro: thread_reachable.start)
next
  case (step s t)
  then show ?case by (blast intro: cpp_reachable.step cpp_step.statement)
qed

text \<open>The statements of a thread that can race with a call of the main program, with what they write.\<close>

definition racing_write :: "nat \<Rightarrow> thread_sys \<Rightarrow> obj_member \<Rightarrow> bool" where
  "racing_write i s m =
     (ot_pc (ts_threads s ! i) = Run_Id \<and> m = M_id \<or>
      (\<exists>name. next_op i s = Some (Call_SetName name)) \<and> m = M_name)"

lemma op_writes_member: "Loc_Member p m \<in> op_writes i s op \<Longrightarrow> (\<exists>name. op = Call_SetName name) \<and> m = M_name"
  by (cases op) (auto simp: this_member_def Let_def split: option.splits if_splits)

lemma main_race_member:
  assumes ok: "threads_ok s" and i: "i < length (ts_threads s)" and c: "\<And>p. c \<noteq> Main_dtor p"
    and race: "Loc_Member p m \<in> main_races i c s"
  shows "main_object c = p \<and> ot_arg (ts_threads s ! i) = p \<and> racing_write i s m"
proof -
  have own: "Loc_Member p m \<in> run_accesses i s" and main: "Loc_Member p m \<in> main_reads c \<union> main_writes c"
    using race by (auto simp: main_races_def run_accesses_def)
  have "Loc_Member p M_handle \<notin> run_accesses i s"
  proof -
    have "Loc_Member p M_handle \<notin> op_reads i s op \<union> op_writes i s op" for op
    proof -
      have "Loc_Member p M_handle \<notin> part_reads i s a" for a
        by (cases a) (auto simp: this_member_def split: option.splits)
      then show ?thesis by (cases op) (auto simp: this_member_def Let_def split: option.splits)
    qed
    then show ?thesis
      by (auto simp: run_accesses_def run_reads_def run_writes_def Let_def
          split: run_pc.splits option.splits list.splits)
  qed
  with race c have "Loc_Member p m \<in> run_writes i s" and "m \<noteq> M_cb"
    by (cases c; auto simp: main_races_def)+
  then have "racing_write i s m"
    by (auto simp: run_writes_def racing_write_def next_op_def Let_def this_member_def
        split: run_pc.splits option.splits list.splits dest: op_writes_member)
  with accesses_own [OF ok i own] main_locations [OF main] show ?thesis by auto
qed

lemma about_to_log_pending: "about_to_log i s \<Longrightarrow> \<not> quiet (thread_pending i s)"
  by (auto simp: about_to_log_def next_op_def Let_def quiet_def pending_def
      split: run_pc.splits option.splits list.splits)

text \<open>
  C13. What a program that joins every \<open>Thread\<close> before it destroys it can count on, in every
  interleaving: a thread never touches a destroyed object or dereferences a null \<open>GetThis()\<close>, no
  object is destroyed before its thread has finished, and the logging module is in a state that its
  own operations reach. The only undefined behaviour left is a log statement whose date does not fit,
  a race on the id or the name of an object that is not joined, while \<open>run\<close> stores the id or the
  callback renames the thread, and a race of the logging module with itself, which needs a thread
  whose callback still has a log statement to execute.
\<close>

theorem joined_threads_safe:
  assumes "cpp_reachable joined a"
  shows "case a of
      Running s \<Rightarrow>
        ts_fault s \<in> {None, Some Terminated, Some (Log_Undefined Indeterminate_Value)} \<and>
        log_reachable (ts_world s) \<and>
        (\<forall>t\<in>set (ts_threads s). ts_objs s (ot_arg t) = None \<longrightarrow> ot_pc t = Run_Done)
    | Member_Race p m s \<Rightarrow>
        \<exists>x i. ts_objs s p = Some x \<and> \<not> joined x \<and> i < length (ts_threads s) \<and>
          ot_arg (ts_threads s ! i) = p \<and> racing_write i s m
    | Logging_Race s \<Rightarrow> \<exists>i < length (ts_threads s). \<not> quiet (thread_pending i s)"
proof -
  let ?good = "\<lambda>a. case a of
      Running s \<Rightarrow> thread_reachable joined s
    | Member_Race p m s \<Rightarrow>
        \<exists>x i. ts_objs s p = Some x \<and> \<not> joined x \<and> i < length (ts_threads s) \<and>
          ot_arg (ts_threads s ! i) = p \<and> racing_write i s m
    | Logging_Race s \<Rightarrow> \<exists>i < length (ts_threads s). \<not> quiet (thread_pending i s)"
  from assms have "?good a"
  proof (induction rule: cpp_reachable.induct)
    case (step a b)
    from step(2,3) show ?case
    proof (induction rule: cpp_step.induct)
      case (thread_race s i j p m)
      then show ?case using threads_no_member_race [OF thread_reachable_ok] by auto
    next
      case (main_race s i c x p m)
      then have ok: "threads_ok s" using thread_reachable_ok by simp
      have "\<not> joined x" using joined_no_race [OF ok main_race(2,3)] main_race(5) by auto
      moreover from this main_race(4) have "c \<noteq> Main_dtor q" for q by auto
      ultimately show ?case using main_race_member [OF ok main_race(2) _ main_race(5)] main_race(2,3) by auto
    qed (auto intro: thread_reachable.step dest: about_to_log_pending)
  qed simp
  then show ?thesis using joined_statements_safe by (cases a) simp_all
qed

theorem joined_threads_safe_witness:
  "ts_fault (one_thread 8) \<noteq> Some Use_After_Free \<and> ot_pc (ts_threads (one_thread 8) ! 0) = Run_Done"
  using joined_threads_safe [OF thread_reachable_cpp [OF one_thread_reachable [where P = joined and n = 8]]]
    one_thread_done by simp

section \<open>Races that happen\<close>

text \<open>
  Before \<open>join\<close> the getters race with the running thread: while \<open>run\<close> stores the id, \<open>getId\<close>
  can be called, and while the callback renames the thread, \<open>getName\<close> can be called. Neither member
  is atomic or locked.
\<close>

lemma getters_race:
  "(\<exists>s. thread_reachable joined s \<and> ts_fault s = None \<and> ts_objs s 0 \<noteq> None \<and>
      Loc_Member 0 M_id \<in> main_races 0 (Main_getId 0) s) \<and>
   (\<exists>s. thread_reachable joined s \<and> ts_fault s = None \<and> ts_objs s 0 \<noteq> None \<and>
      Loc_Member 0 M_name \<in> main_races 0 (Main_getName 0) s)"
proof
  have "ts_fault (one_thread 2) = None" "ts_objs (one_thread 2) 0 \<noteq> None"
    "Loc_Member 0 M_id \<in> main_races 0 (Main_getId 0) (one_thread 2)"
    by (simp_all add: one_thread_def eval_nat_numeral Thread_ctor_def no_threads_def run_step_def run_with_def
        main_races_def run_writes_def)
  with one_thread_reachable [where P = joined and n = 2]
  show "\<exists>s. thread_reachable joined s \<and> ts_fault s = None \<and> ts_objs s 0 \<noteq> None \<and>
      Loc_Member 0 M_id \<in> main_races 0 (Main_getId 0) s" by blast
  have "ts_fault (one_thread 5) = None" "ts_objs (one_thread 5) 0 \<noteq> None"
    "Loc_Member 0 M_name \<in> main_races 0 (Main_getName 0) (one_thread 5)"
    by (simp_all add: one_thread_def eval_nat_numeral Thread_ctor_def no_threads_def run_step_def run_with_def
        main_races_def run_writes_def this_member_def GetThis_def)
  with one_thread_reachable [where P = joined and n = 5]
  show "\<exists>s. thread_reachable joined s \<and> ts_fault s = None \<and> ts_objs s 0 \<noteq> None \<and>
      Loc_Member 0 M_name \<in> main_races 0 (Main_getName 0) s" by blast
qed

text \<open>
  The logging module races with itself when threads log: in the program of
  \<open>tests/test_thread.cc\<close> two threads can both be about to store the missing formatter of the root
  logger's first appender.
\<close>

lemma test_program_races:
  "thread_reachable joined both_calling \<and> ts_fault both_calling = None \<and>
   Loc_Formatter 0 \<in> run_writes 0 both_calling \<inter> run_writes 1 both_calling \<and>
   Loc_Formatter 0 \<in> thread_races 0 1 both_calling"
proof (intro conjI both_calling_reachable both_calling_eval)
  have found: "log_found i None both_calling = (0, (ts_world no_threads)\<lparr>w_tid := ot_tid (ts_threads both_calling ! i)\<rparr>)"
    for i
    by (simp add: log_found_def both_calling_eval no_threads_def log_target_def getLogger_def
        manager_getLogger_def manager_construction start_world_def)
  have "0 \<in> set (log_receivers i None INFO both_calling)" for i
    by (simp add: log_receivers_def found no_threads_def getLogger_def manager_getLogger_def
        manager_construction start_world_def route_def less_eq_level_def)
  moreover have "is_stdout (appenders (snd (log_found i None both_calling)) 0)"
    "la_formatter (appenders (snd (log_found i None both_calling)) 0) = None" for i
    by (simp_all add: found no_threads_def getLogger_def manager_getLogger_def
        manager_construction start_world_def is_stdout_def)
  ultimately show both: "Loc_Formatter 0 \<in> run_writes 0 both_calling \<inter> run_writes 1 both_calling"
    by (simp add: run_writes_def both_calling_eval fun1_def image_iff Let_def)
  then show "Loc_Formatter 0 \<in> thread_races 0 1 both_calling"
    by (simp add: thread_races_def run_accesses_def)
qed

text \<open>
  C37. The class and the logging module it uses have no lock, and races are reachable: of \<open>getId\<close> with
  the store of the id in \<open>run\<close>, of \<open>getName\<close> with \<open>SetName\<close> in the callback, and of two threads that
  log, as in \<open>tests/test_thread.cc\<close>, on the missing formatter of an appender.
\<close>

theorem unlocked_races:
  "(\<exists>s. thread_reachable joined s \<and> ts_fault s = None \<and> ts_objs s 0 \<noteq> None \<and>
      Loc_Member 0 M_id \<in> main_races 0 (Main_getId 0) s) \<and>
   (\<exists>s. thread_reachable joined s \<and> ts_fault s = None \<and> ts_objs s 0 \<noteq> None \<and>
      Loc_Member 0 M_name \<in> main_races 0 (Main_getName 0) s) \<and>
   (\<exists>s. thread_reachable joined s \<and> ts_fault s = None \<and> Loc_Formatter 0 \<in> thread_races 0 1 s)"
  using getters_race test_program_races by blast

end
