(* ===== verification/Thread_Program.thy ===== *)
theory Thread_Program
  imports Thread_Races
begin

text \<open>
  The whole program of \<open>tests/test_thread.cc\<close>: \<open>main\<close> creates the threads, each of which writes one
  line through the root logger, joins them in order, and prints a text after each creation and each
  join. \<open>main\<close> and its threads are scheduled in any order in which no two of them are about to
  write at once; the other schedules race (see \<open>Thread_Races\<close>) and have no result. The model follows
  the number of statements each of them has executed, and that description gives the output.
\<close>

section \<open>The program\<close>

text \<open>What \<open>main\<close> prints; its source is in UTF-8.\<close>

definition created_text :: string where
  "created_text = [CHR 0xE5, CHR 0x8A, CHR 0xA0, CHR 0xE5, CHR 0x85, CHR 0xA5] @ ''yige'' @ [CHR 0x0A]"

definition joined_text :: "nat \<Rightarrow> string" where
  "joined_text n = ''size'' @ [CHR 0xE4, CHR 0xB8, CHR 0xAA, CHR 0xE6, CHR 0x95, CHR 0xB0] @
     show_int (int n) @ [CHR 0x0A]"

definition say :: "string \<Rightarrow> thread_sys \<Rightarrow> thread_sys" where
  "say t s = s\<lparr>ts_world := print t (ts_world s)\<rparr>"

text \<open>
  The statements of \<open>main\<close> for threads with the ids \<open>tids\<close> (the source has five): statement \<open>2 k\<close> of the
  first loop creates thread \<open>k\<close> and the next one prints, in the second loop \<open>join\<close> waits and the next one
  prints. The second component is the number of statements that are done.
\<close>

definition main_step :: "int list \<Rightarrow> thread_sys \<times> nat \<Rightarrow> thread_sys \<times> nat" where
  "main_step tids st =
     (case st of (s, p) \<Rightarrow>
        let n = length tids; k = (if p < 2 * n then p div 2 else p div 2 - n) in
        if p < 2 * n then
          (if even p then (test_thread k (Suc k) (tids ! k) s, Suc p) else (say created_text s, Suc p))
        else if p < 4 * n then
          (if even p then
             (case ts_objs s k of
                None \<Rightarrow> (thread_fails Use_After_Free s, p)
              | Some x \<Rightarrow>
                  if handle_finished s (th_handle x) then (settle (Thread_join x k 0 s), Suc p) else (s, p))
           else (say (joined_text n) s, Suc p))
        else (s, p))"

text \<open>A schedule says who takes the next step: \<open>None\<close> is \<open>main\<close>, \<open>Some i\<close> is thread \<open>i\<close>.\<close>

definition test_step :: "int list \<Rightarrow> nat option \<Rightarrow> thread_sys \<times> nat \<Rightarrow> thread_sys \<times> nat" where
  "test_step tids who st =
     (case who of
        None \<Rightarrow> main_step tids st
      | Some i \<Rightarrow> if i < length (ts_threads (fst st)) then (run_step i (fst st), snd st) else st)"

text \<open>
  A log statement and an output statement of \<open>main\<close> are one step each, which describes the code only
  while no other of them runs: a schedule that leads to a state in which two of them can run has no
  result. (Two log statements race on the formatter; an output statement may be interleaved with the
  parts of another.) Nothing in the program enforces such a schedule, and nothing orders the log
  statements of two threads: the results below say what the code computes when they happen not to
  overlap. \<open>pthread_create\<close> is taken to succeed.
\<close>

definition writers :: "int list \<Rightarrow> thread_sys \<times> nat \<Rightarrow> nat option list" where
  "writers tids st =
     (case st of (s, p) \<Rightarrow>
        (if p < 4 * length tids \<and> odd p then [None] else []) @
        map Some (filter (\<lambda>i. about_to_log i s) [0..<length (ts_threads s)]))"

fun test_run :: "int list \<Rightarrow> nat option list \<Rightarrow> thread_sys \<times> nat \<Rightarrow> (thread_sys \<times> nat) option" where
  "test_run tids [] st = (if length (writers tids st) \<le> 1 then Some st else None)"
| "test_run tids (who # sched) st =
     (if length (writers tids st) \<le> 1 then test_run tids sched (test_step tids who st) else None)"

section \<open>The line of a thread\<close>

definition test_name :: "nat \<Rightarrow> string" where
  "test_name k = ''name_'' @ show_int (int k)"

definition test_message :: "nat \<Rightarrow> int \<Rightarrow> string" where
  "test_message k tid =
     ''name: '' @ test_name k @ '' this.name: '' @ test_name k @
     '' id: '' @ show_int tid @ '' this.id: '' @ show_int tid @ [CHR 0x0A]"

text \<open>The root logger's line, by the default pattern, in the environment of the initial world.\<close>

definition test_line :: "nat \<Rightarrow> int \<Rightarrow> string" where
  "test_line k tid =
     ''2021-01-02 03:04:05'' @ [CHR 0x09] @ '' [INFO]'' @ [CHR 0x09] @
     ''['' @ show_int (uint (GetThreadId tid)) @ '']'' @ [CHR 0x09] @ ''[root]'' @ [CHR 0x09] @
     '' /tests/test_thread.cc:9'' @ [CHR 0x09] @ '' '' @ test_message k tid @ ''  '' @ [CHR 0x0A]"

text \<open>The root logger and the environment, which no thread of the program changes.\<close>

definition stdout_ready :: "world \<Rightarrow> appender_ptr \<Rightarrow> bool" where
  "stdout_ready w ap =
     (la_class (appenders w ap) = StdoutLogAppender \<and> la_level (appenders w ap) = DEBUG \<and>
      la_formatter (appenders w ap) \<in> {None, Some (LogFormatter default_pattern)})"

definition root_ready :: "world \<Rightarrow> bool" where
  "root_ready w =
     (mgr_built w \<and> mgr_root w = 0 \<and> lg_level (loggers w 0) = DEBUG \<and> lg_name (loggers w 0) = ''root'' \<and>
      lg_appenders (loggers w 0) = [0, 1] \<and> stdout_ready w 0 \<and> stdout_ready w 1 \<and>
      w_time w = start_env \<and> w_now w = 0 \<and> w_srcdir w = ''/'')"

lemma root_ready_tid [simp]: "root_ready (w\<lparr>w_tid := tid\<rparr>) = root_ready w"
  by (simp add: root_ready_def stdout_ready_def)

lemma root_ready_print [simp]: "root_ready (print t w) = root_ready w"
  by (simp add: root_ready_def stdout_ready_def print_def)

definition default_given :: "appender_ptr \<Rightarrow> world \<Rightarrow> world" where
  "default_given ap w = upd_appender ap (la_formatter_update (\<lambda>_. Some (LogFormatter default_pattern))) w"

lemma default_given_simps [simp]:
  "loggers (default_given ap w) = loggers w" "std_out (default_given ap w) = std_out w"
  "w_time (default_given ap w) = w_time w"
  by (simp_all add: default_given_def)

lemma root_ready_given [simp]: "root_ready w \<Longrightarrow> root_ready (default_given ap w)"
  by (auto simp: root_ready_def stdout_ready_def default_given_def)

lemma ready_appender_log:
  assumes "stdout_ready w ap" and "DEBUG \<le> lv"
    and "lf_format (w_time w) (lg_name (loggers w l)) lv ev (LogFormatter default_pattern) = Inr line"
  shows "appender_log ap l lv ev w = (Inr (), print (line @ [CHR 0x0A]) (default_given ap w))"
proof (cases "la_formatter (appenders w ap)")
  case None
  with assms show ?thesis
    by (simp add: appender_log_def stdout_ready_def stdout_log_def default_given_def Let_def)
next
  case (Some f)
  with assms(1) have f: "f = LogFormatter default_pattern" by (simp add: stdout_ready_def)
  with Some have "(appenders w ap)\<lparr>la_formatter := Some (LogFormatter default_pattern)\<rparr> = appenders w ap"
    by (cases "appenders w ap") simp
  then have "default_given ap w = w" by (simp add: default_given_def)
  with Some f assms show ?thesis
    by (simp add: appender_log_def stdout_ready_def stdout_log_def Let_def)
qed

text \<open>A log statement on the root logger prints its line twice, once for each of its appenders.\<close>

definition printed_by :: "appender_ptr \<Rightarrow> string \<Rightarrow> world \<Rightarrow> world" where
  "printed_by ap line w = print (line @ [CHR 0x0A]) (default_given ap w)"

lemma root_ready_prints:
  assumes w: "root_ready w" and "DEBUG \<le> lv"
    and line: "lf_format start_env ''root'' lv ev (LogFormatter default_pattern) = Inr line"
  shows "Logger_log 0 lv ev w = (Inr (), printed_by 1 line (printed_by 0 line w))"
proof -
  let ?w1 = "printed_by 0 line w"
  have w1: "root_ready ?w1" using w by (simp add: printed_by_def)
  have env: "w_time v = start_env" "lg_name (loggers v 0) = ''root''" "stdout_ready v 0" "stdout_ready v 1"
    if "root_ready v" for v using that by (simp_all add: root_ready_def)
  have "appender_log 0 0 lv ev w = (Inr (), ?w1)"
    unfolding printed_by_def by (rule ready_appender_log) (simp_all add: env [OF w] assms(2) line)
  moreover have "appender_log 1 0 lv ev ?w1 = (Inr (), printed_by 1 line ?w1)"
    unfolding printed_by_def [of 1]
    by (rule ready_appender_log) (use env [OF w1] assms(2) line in simp_all)
  ultimately show ?thesis
    using w assms(2) by (simp add: Logger_log_def root_ready_def comp_simps)
qed

lemma root_ready_log:
  assumes "root_ready w" and "DEBUG \<le> lv"
    and "lf_format start_env ''root'' lv ev (LogFormatter default_pattern) = Inr line"
  shows "\<exists>v. Logger_log 0 lv ev w = (Inr (), v) \<and> root_ready v \<and>
    std_out v = std_out w @ line @ [CHR 0x0A] @ line @ [CHR 0x0A]"
  using root_ready_prints [OF assms] assms(1) by (simp add: printed_by_def)

lemma test_line_format:
  assumes "root_ready w" and "w_tid w = tid"
  shows "lf_format start_env ''root'' INFO
      (stream_into (test_message k tid) (macro_event 0 INFO ''tests/test_thread.cc'' 9 w))
      (LogFormatter default_pattern) = Inr (test_line k tid)"
proof -
  let ?ev = "stream_into (test_message k tid) (macro_event 0 INFO ''tests/test_thread.cc'' 9 w)"
  let ?t = "\<lparr>tm_sec = 5, tm_min = 4, tm_hour = 3, tm_mday = 2, tm_mon = 0, tm_year = 121, tm_wday = 6, tm_yday = 1\<rparr>"
  have ev: "m_threadId ?ev = GetThreadId tid" "m_file ?ev = ''/tests/test_thread.cc''" "sint (m_line ?ev) = 9"
    "getContent ?ev = test_message k tid"
    using assms by (simp_all add: stream_into_def macro_event_def LogEvent_def getContent_def root_ready_def)
  have date: "ymd ?t = ''2021-01-02''" "hms ?t = ''03:04:05''" "show_int 9 = ''9''"
    by (simp_all add: ymd_def hms_def num2_def pad_left_def show_int_def show_nat.simps digit_char_def char_eval)
  have "env_localtime start_env (sint (m_time ?ev)) = Some ?t" "valid_tm ?t"
    by (simp_all add: start_env_def valid_tm_def)
  note default_pattern_output [OF this, THEN conjunct2, of "''root''" INFO]
  then show ?thesis unfolding ev date test_line_def by simp
qed

section \<open>States by numbers of executed statements\<close>

text \<open>Thread \<open>k\<close> and its object after \<open>c\<close> of the thread's seven statements.\<close>

definition thread_at :: "nat \<Rightarrow> int \<Rightarrow> nat \<Rightarrow> os_thread" where
  "thread_at k tid c =
     \<lparr>ot_arg = k, ot_handle = Suc k, ot_tid = tid,
      ot_pc = (if c = 0 then Run_This else if c = 1 then Run_Name else if c = 2 then Run_Id
        else if c = 3 then Run_SetName else if c = 4 then Run_Swap else if c < 7 then Run_Call else Run_Done),
      ot_this = (if c = 0 then None else Some k), ot_name = (if c < 2 then ''UNKNOW'' else test_name k),
      ot_comm = (if c < 4 then [] else c_str (substr (test_name k) 0 15)),
      ot_cb = (if c < 5 then None else if c = 5 then Some fun1 else Some []), ot_detached = False\<rparr>"

definition obj_at :: "nat \<Rightarrow> int \<Rightarrow> nat \<Rightarrow> bool \<Rightarrow> thread_obj" where
  "obj_at k tid c was_joined =
     \<lparr>th_id = (if c < 3 then -1 else tid), th_handle = (if was_joined then 0 else Suc k),
      th_cb = (if c < 5 then Some fun1 else None), th_name = test_name k\<rparr>"

text \<open>After \<open>p\<close> statements of \<open>main\<close>: how many threads there are, and whether thread \<open>k\<close> was joined.\<close>

definition created :: "nat \<Rightarrow> nat \<Rightarrow> nat" where
  "created n p = min n (Suc p div 2)"

definition join_done :: "nat \<Rightarrow> nat \<Rightarrow> nat \<Rightarrow> bool" where
  "join_done n p k = (2 * n + 2 * k < p)"

text \<open>The schedule on the numbers alone.\<close>

definition count_step :: "nat \<Rightarrow> nat option \<Rightarrow> (nat \<Rightarrow> nat) \<times> nat \<Rightarrow> (nat \<Rightarrow> nat) \<times> nat" where
  "count_step n who st =
     (case st of (c, p) \<Rightarrow>
        (case who of
           Some i \<Rightarrow> if i < created n p then (c(i := min 7 (Suc (c i))), p) else (c, p)
         | None \<Rightarrow>
             if p < 2 * n \<or> p < 4 * n \<and> (odd p \<or> c (p div 2 - n) = 7) then (c, Suc p) else (c, p)))"

definition count_writers :: "nat \<Rightarrow> (nat \<Rightarrow> nat) \<times> nat \<Rightarrow> nat option list" where
  "count_writers n st =
     (case st of (c, p) \<Rightarrow>
        (if p < 4 * n \<and> odd p then [None] else []) @ map Some (filter (\<lambda>i. c i = 5) [0..<created n p]))"

fun count_apart :: "nat \<Rightarrow> nat option list \<Rightarrow> (nat \<Rightarrow> nat) \<times> nat \<Rightarrow> bool" where
  "count_apart n [] st = (length (count_writers n st) \<le> 1)"
| "count_apart n (who # sched) st = (length (count_writers n st) \<le> 1 \<and> count_apart n sched (count_step n who st))"

text \<open>The output, piece by piece.\<close>

datatype chunk = From_main string | From_thread nat

fun chunk_text :: "int list \<Rightarrow> chunk \<Rightarrow> string" where
  "chunk_text tids (From_main t) = t"
| "chunk_text tids (From_thread k) = test_line k (tids ! k) @ [CHR 0x0A] @ test_line k (tids ! k) @ [CHR 0x0A]"

fun threads_of :: "chunk list \<Rightarrow> nat list" where
  "threads_of [] = []"
| "threads_of (From_thread k # outs) = k # threads_of outs"
| "threads_of (From_main t # outs) = threads_of outs"

fun main_of :: "chunk list \<Rightarrow> string list" where
  "main_of [] = []"
| "main_of (From_thread k # outs) = main_of outs"
| "main_of (From_main t # outs) = t # main_of outs"

lemma chunks_append [simp]:
  "threads_of (xs @ ys) = threads_of xs @ threads_of ys" "main_of (xs @ ys) = main_of xs @ main_of ys"
  by (induction xs rule: threads_of.induct) simp_all

definition main_said :: "nat \<Rightarrow> nat \<Rightarrow> string list" where
  "main_said n p = replicate (min n (p div 2)) created_text @ replicate (p div 2 - n) (joined_text n)"

definition prog_inv :: "int list \<Rightarrow> (nat \<Rightarrow> nat) \<Rightarrow> nat \<Rightarrow> thread_sys \<Rightarrow> chunk list \<Rightarrow> bool" where
  "prog_inv tids c p s outs =
     (let n = length tids in
      ts_threads s = map (\<lambda>k. thread_at k (tids ! k) (c k)) [0..<created n p] \<and>
      ts_objs s = (\<lambda>k. if k < created n p then Some (obj_at k (tids ! k) (c k) (join_done n p k)) else None) \<and>
      ts_next s = created n p \<and> ts_fault s = None \<and> root_ready (ts_world s) \<and>
      std_out (ts_world s) = concat (map (chunk_text tids) outs) \<and>
      p \<le> 4 * n \<and> (\<forall>k\<ge>created n p. c k = 0) \<and> (\<forall>k. c k \<le> 7 \<and> (join_done n p k \<longrightarrow> c k = 7)) \<and>
      distinct (threads_of outs) \<and> set (threads_of outs) = {k. k < created n p \<and> 6 \<le> c k} \<and>
      main_of outs = main_said n p)"

lemma upd_counts:
  "i < m \<Longrightarrow> (map (\<lambda>k. f k (c k)) [0..<m])[i := f i d] = map (\<lambda>k. f k ((c(i := d)) k)) [0..<m]"
  by (rule nth_equalityI) (simp_all add: nth_list_update)

lemma run_step_count:
  assumes "i < length (ts_threads s)" and "ts_threads s ! i = thread_at i tid c" and "ts_objs s i = Some (obj_at i tid c j)"
    and "c < 7" and "c \<noteq> 5"
  shows "run_step i s = upd_thread i (thread_at i tid (Suc c)) (upd_obj i (obj_at i tid (Suc c) j) s)"
proof -
  have "c = 0 \<or> c = 1 \<or> c = 2 \<or> c = 3 \<or> c = 4 \<or> c = 6" using assms(4,5) by linarith
  moreover have "(ts_objs s)(i := Some (obj_at i tid c j)) = ts_objs s" using assms(3) by (rule fun_upd_idem)
  ultimately show ?thesis
    using assms(1-3) by (elim disjE) (simp_all add: run_step_def run_with_def thread_at_def obj_at_def Let_def)
qed

lemma run_step_log:
  assumes i: "i < length (ts_threads s)" and t: "ts_threads s ! i = thread_at i tid 5"
    and x: "ts_objs s i = Some (obj_at i tid 5 j)" and w: "root_ready (ts_world s)"
  shows "\<exists>v. run_step i s = (upd_thread i (thread_at i tid 6) s)\<lparr>ts_world := v\<rparr> \<and> root_ready v \<and>
    std_out v = std_out (ts_world s) @ test_line i tid @ [CHR 0x0A] @ test_line i tid @ [CHR 0x0A]"
proof -
  let ?u = "upd_thread i (thread_at i tid 6) s"
  let ?parts = "[Part_Text ''name: '', Part_GetName, Part_Text '' this.name: '', Part_This_getName,
      Part_Text '' id: '', Part_GetThreadId, Part_Text '' this.id: '', Part_This_getId, Part_Text [CHR 0x0A]]"
  let ?w = "(ts_world s)\<lparr>w_tid := tid\<rparr>"
  let ?ev = "stream_into (test_message i tid) (macro_event 0 INFO ''tests/test_thread.cc'' 9 ?w)"
  have step: "run_step i s = thread_log i None INFO ''tests/test_thread.cc'' 9 ?parts ?u"
    using t by (simp add: run_step_def thread_call_def thread_at_def fun1_def)
  have parts: "parts_text i ?u ?parts = Inr (test_message i tid)"
    using i x by (simp add: via_this_def GetThis_def GetName_def Thread_getName_def Thread_getId_def
        thread_at_def obj_at_def test_message_def)
  have ready: "root_ready ?w" using w by simp
  then have target: "log_target None ?w = (0, ?w)" "getLevel 0 ?w \<le> INFO"
    by (simp_all add: log_target_def getRoot_def root_ready_def getLevel_def less_eq_level_def)
  have "DEBUG \<le> INFO" by (simp add: less_eq_level_def)
  with root_ready_log [OF ready this test_line_format [OF ready]]
  obtain v where v: "Logger_log 0 INFO ?ev ?w = (Inr (), v)" "root_ready v"
    "std_out v = std_out (ts_world s) @ test_line i tid @ [CHR 0x0A] @ test_line i tid @ [CHR 0x0A]"
    by auto
  have ev: "m_logger ?ev = 0" "m_level ?ev = INFO" by (simp_all add: stream_into_def macro_event_def LogEvent_def)
  have tid: "ot_tid ((ts_threads s)[i := thread_at i tid 6] ! i) = tid" using i by (simp add: thread_at_def)
  have "thread_log i None INFO ''tests/test_thread.cc'' 9 ?parts ?u = ?u\<lparr>ts_world := v\<rparr>"
    using target v(1) ev
    by (simp add: thread_log_def parts tid SYLAR_LOG_LEVEL_def LogEventWrap_destroy_def log_outcome_def
        del: parts_text.simps)
  with step v(2,3) show ?thesis by auto
qed

section \<open>Every schedule keeps the description\<close>

lemma prog_thread_facts:
  assumes inv: "prog_inv tids c p s outs" and i: "i < created (length tids) p"
  shows "i < length (ts_threads s)" and "ts_threads s ! i = thread_at i (tids ! i) (c i)"
    and "ts_objs s i = Some (obj_at i (tids ! i) (c i) (join_done (length tids) p i))"
    and "c i \<le> 7" and "join_done (length tids) p i \<Longrightarrow> c i = 7"
    and "(ts_threads s)[i := thread_at i (tids ! i) d] =
      map (\<lambda>k. thread_at k (tids ! k) ((c(i := d)) k)) [0..<created (length tids) p]"
    and "(ts_objs s)(i := Some (obj_at i (tids ! i) d (join_done (length tids) p i))) =
      (\<lambda>k. if k < created (length tids) p
        then Some (obj_at k (tids ! k) ((c(i := d)) k) (join_done (length tids) p k)) else None)"
  using inv i upd_counts [OF i, of "\<lambda>k. thread_at k (tids ! k)" c d] by (auto simp: prog_inv_def Let_def)

lemma prog_quiet_step:
  assumes inv: "prog_inv tids c p s outs" and i: "i < created (length tids) p" and c: "c i < 7" "c i \<noteq> 5"
  shows "prog_inv tids (c(i := Suc (c i))) p (run_step i s) outs"
proof -
  note t = prog_thread_facts [OF inv i]
  have keep: "6 \<le> Suc (c i) \<longleftrightarrow> 6 \<le> c i" using c by linarith
  show ?thesis
    unfolding run_step_count [OF t(1-3) c] prog_inv_def Let_def
  proof (intro conjI)
    show "\<forall>k. (c(i := Suc (c i))) k \<le> 7 \<and> (join_done (length tids) p k \<longrightarrow> (c(i := Suc (c i))) k = 7)"
      using inv c t(5) by (auto simp: prog_inv_def Let_def)
    show "set (threads_of outs) = {k. k < created (length tids) p \<and> 6 \<le> (c(i := Suc (c i))) k}"
      using inv keep by (auto simp: prog_inv_def Let_def)
  qed (use inv i t(6,7) [of "Suc (c i)"] in \<open>simp_all add: prog_inv_def Let_def\<close>)
qed

lemma prog_log_step:
  assumes inv: "prog_inv tids c p s outs" and i: "i < created (length tids) p" and c: "c i = 5"
  shows "prog_inv tids (c(i := 6)) p (run_step i s) (outs @ [From_thread i])"
proof -
  let ?j = "join_done (length tids) p i"
  note t = prog_thread_facts [OF inv i]
  obtain v where v: "run_step i s = (upd_thread i (thread_at i (tids ! i) 6) s)\<lparr>ts_world := v\<rparr>" "root_ready v"
    "std_out v = std_out (ts_world s) @ test_line i (tids ! i) @ [CHR 0x0A] @ test_line i (tids ! i) @ [CHR 0x0A]"
    using run_step_log [of i s "tids ! i" ?j] t(1-3) inv c by (auto simp: prog_inv_def Let_def)
  have "obj_at i (tids ! i) 6 ?j = obj_at i (tids ! i) (c i) ?j" using c by (simp add: obj_at_def)
  then have "ts_objs s = (ts_objs s)(i := Some (obj_at i (tids ! i) 6 ?j))" using t(3) by (simp add: fun_upd_idem)
  note objs = trans [OF this t(7)]
  show ?thesis
    unfolding v(1) prog_inv_def Let_def
  proof (intro conjI)
    show "ts_objs (upd_thread i (thread_at i (tids ! i) 6) s\<lparr>ts_world := v\<rparr>) = (\<lambda>k. if k < created (length tids) p
        then Some (obj_at k (tids ! k) ((c(i := 6)) k) (join_done (length tids) p k)) else None)"
      using objs by simp
    show "set (threads_of (outs @ [From_thread i])) = {k. k < created (length tids) p \<and> 6 \<le> (c(i := 6)) k}"
      using inv c i by (auto simp: prog_inv_def Let_def)
    show "\<forall>k. (c(i := 6)) k \<le> 7 \<and> (join_done (length tids) p k \<longrightarrow> (c(i := 6)) k = 7)"
      using inv c t(5) by (auto simp: prog_inv_def Let_def)
  qed (use inv i c v(2,3) t(6) [of 6] in \<open>simp_all add: prog_inv_def Let_def\<close>)
qed

lemma prog_thread:
  assumes inv: "prog_inv tids c p s outs" and i: "i < created (length tids) p"
  shows "\<exists>outs'. prog_inv tids (c(i := min 7 (Suc (c i)))) p (run_step i s) outs'"
proof -
  note t = prog_thread_facts [OF inv i]
  consider "c i = 7" | "c i < 7" "c i \<noteq> 5" | "c i = 5" using t(4) by linarith
  then show ?thesis
  proof cases
    case 1
    then have "run_step i s = s" using t(2) by (simp add: run_step_def thread_at_def)
    moreover have "c(i := min 7 (Suc (c i))) = c" using 1 by auto
    ultimately show ?thesis using inv by auto
  next
    case 2
    then have "min 7 (Suc (c i)) = Suc (c i)" by simp
    with prog_quiet_step [OF inv i 2] show ?thesis by auto
  next
    case 3
    then have "min 7 (Suc (c i)) = 6" by simp
    with prog_log_step [OF inv i 3] show ?thesis by auto
  qed
qed

lemma prog_say:
  assumes "prog_inv tids c p s outs" and "p < 4 * length tids" and "created (length tids) (Suc p) = created (length tids) p"
    and "join_done (length tids) (Suc p) = join_done (length tids) p"
    and "main_said (length tids) (Suc p) = main_said (length tids) p @ [t]"
  shows "prog_inv tids c (Suc p) (say t s) (outs @ [From_main t])"
proof -
  have "std_out (print t (ts_world s)) = std_out (ts_world s) @ t" by (simp add: print_def)
  then show ?thesis using assms(1,2) unfolding prog_inv_def Let_def say_def assms(3-5) by simp
qed

lemma prog_create:
  assumes inv: "prog_inv tids c p s outs" and p: "p = 2 * k" "k < length tids"
  shows "prog_inv tids c (Suc p) (test_thread k (Suc k) (tids ! k) s) outs"
proof -
  have n: "created (length tids) p = k" "created (length tids) (Suc p) = Suc k"
    "main_said (length tids) (Suc p) = main_said (length tids) p"
    "\<not> join_done (length tids) (Suc p) j" "\<not> join_done (length tids) p j" for j
    using p by (simp_all add: created_def main_said_def join_done_def)
  have c: "c k = 0" using inv n(1) by (simp add: prog_inv_def Let_def)
  have new: "test_thread k (Suc k) (tids ! k) s = s\<lparr>ts_objs := (ts_objs s)(k := Some (obj_at k (tids ! k) 0 False)),
      ts_next := Suc k, ts_threads := ts_threads s @ [thread_at k (tids ! k) 0]\<rparr>"
    using inv n(1)
    by (simp add: test_thread_def Thread_ctor_def prog_inv_def Let_def thread_at_def obj_at_def test_name_def)
  show ?thesis
    unfolding new prog_inv_def Let_def n
  proof (intro conjI)
    show "set (threads_of outs) = {j. j < Suc k \<and> 6 \<le> c j}"
      using inv c n by (auto simp: prog_inv_def Let_def less_Suc_eq)
  qed (use inv p c n in \<open>auto simp: prog_inv_def Let_def fun_eq_iff less_Suc_eq\<close>)
qed

lemma prog_handle:
  assumes "prog_inv tids c p s outs" and "k < created (length tids) p"
  shows "handle_finished s (Suc k) \<longleftrightarrow> c k = 7"
proof -
  have "ot_pc (thread_at k tid (c k)) = Run_Done \<longleftrightarrow> c k = 7" for tid
    using assms(1) by (auto simp: prog_inv_def Let_def thread_at_def le_less)
  with assms show ?thesis by (auto simp: handle_finished_def prog_inv_def Let_def thread_at_def)
qed

lemma prog_join:
  assumes inv: "prog_inv tids c p s outs" and p: "p = 2 * (length tids + k)" "k < length tids" and c: "c k = 7"
  shows "prog_inv tids c (Suc p) (settle (Thread_join (obj_at k (tids ! k) (c k) False) k 0 s)) outs"
proof -
  have n: "created (length tids) p = length tids" "created (length tids) (Suc p) = length tids"
    "main_said (length tids) (Suc p) = main_said (length tids) p"
    "join_done (length tids) (Suc p) j \<longleftrightarrow> join_done (length tids) p j \<or> j = k" for j
    using p by (auto simp: created_def main_said_def join_done_def)
  have "Thread_join (obj_at k (tids ! k) (c k) False) k 0 s = (Inr (), upd_obj k (obj_at k (tids ! k) (c k) True) s)"
    by (simp add: Thread_join_def modify_apply obj_at_def)
  then have run: "settle (Thread_join (obj_at k (tids ! k) (c k) False) k 0 s) = upd_obj k (obj_at k (tids ! k) (c k) True) s"
    by simp
  have "p < 4 * length tids" using p by simp
  moreover have "(\<lambda>j. if j < length tids then Some (obj_at j (tids ! j) (c j) (join_done (length tids) (Suc p) j)) else None)
      = (\<lambda>j. if j < length tids then Some (obj_at j (tids ! j) (c j) (join_done (length tids) p j)) else None)
        (k := Some (obj_at k (tids ! k) (c k) True))"
    using p(2) by (auto simp: fun_eq_iff n(4))
  ultimately show ?thesis
    using inv c unfolding run prog_inv_def Let_def n(1-3) by (simp add: n(4))
qed

text \<open>One step of any schedule, on the program and on the numbers.\<close>

lemma prog_main:
  assumes inv: "prog_inv tids c p s outs" and n: "n = length tids"
  shows "snd (main_step tids (s, p)) = snd (count_step n None (c, p)) \<and>
    (\<exists>outs'. prog_inv tids c (snd (main_step tids (s, p))) (fst (main_step tids (s, p))) outs')"
proof -
  consider (create) k where "p = 2 * k" "k < n" | (said) k where "p = 2 * k + 1" "k < n"
    | (join) k where "p = 2 * (n + k)" "k < n" | (joined) k where "p = 2 * (n + k) + 1" "k < n" | (over) "p = 4 * n"
  proof -
    have le: "p \<le> 4 * n" using inv n by (simp add: prog_inv_def Let_def)
    obtain q where q: "p = 2 * q \<or> p = 2 * q + 1" by (metis oddE evenE)
    have "q < n \<or> (\<exists>k. q = n + k)" by (metis le_Suc_ex not_le)
    with le q have "(\<exists>k. p = 2 * k \<and> k < n) \<or> (\<exists>k. p = 2 * k + 1 \<and> k < n) \<or>
        (\<exists>k. p = 2 * (n + k) \<and> k < n) \<or> (\<exists>k. p = 2 * (n + k) + 1 \<and> k < n) \<or> p = 4 * n" by auto
    then show ?thesis using that by blast
  qed
  then show ?thesis
  proof cases
    case (create k)
    with prog_create [OF inv, of k] n show ?thesis by (auto simp: main_step_def count_step_def)
  next
    case (said k)
    have "prog_inv tids c (Suc p) (say created_text s) (outs @ [From_main created_text])"
      using said n
      by (intro prog_say [OF inv]) (auto simp: created_def join_done_def main_said_def fun_eq_iff replicate_append_same)
    with said n show ?thesis by (auto simp: main_step_def count_step_def)
  next
    case (join k)
    have x: "ts_objs s k = Some (obj_at k (tids ! k) (c k) False)" and kc: "k < created (length tids) p"
      using inv join n by (auto simp: prog_inv_def Let_def created_def join_done_def)
    have h: "th_handle (obj_at k tid d False) = Suc k" for tid d by (simp add: obj_at_def)
    have pos: "\<not> p < 2 * n" "p < 4 * n" "even p" "p div 2 - n = k" using join by simp_all
    show ?thesis
    proof (cases "c k = 7")
      case True
      with x pos prog_handle [OF inv kc] prog_join [OF inv] join n show ?thesis
        by (auto simp: main_step_def count_step_def Let_def h)
    next
      case False
      with x pos prog_handle [OF inv kc] inv n show ?thesis
        by (auto simp: main_step_def count_step_def Let_def h)
    qed
  next
    case (joined k)
    then have "join_done n (Suc p) = join_done n p" unfolding join_done_def fun_eq_iff by presburger
    with joined n have "prog_inv tids c (Suc p) (say (joined_text n) s) (outs @ [From_main (joined_text n)])"
      by (intro prog_say [OF inv]) (auto simp: created_def main_said_def replicate_append_same)
    with joined n show ?thesis by (auto simp: main_step_def count_step_def Let_def)
  next
    case over
    with inv n show ?thesis by (auto simp: main_step_def count_step_def)
  qed
qed

lemma prog_step:
  assumes inv: "prog_inv tids c p s outs"
    and count: "count_step (length tids) who (c, p) = (c', p')"
  shows "\<exists>s' outs'. test_step tids who (s, p) = (s', p') \<and> prog_inv tids c' p' s' outs'"
proof (cases who)
  case None
  moreover have "c' = c" using count None by (auto simp: count_step_def split: if_splits)
  ultimately show ?thesis
    using prog_main [OF inv refl] count
    by (cases "main_step tids (s, p)") (auto simp: test_step_def)
next
  case (Some i)
  have len: "length (ts_threads s) = created (length tids) p" using inv by (simp add: prog_inv_def Let_def)
  show ?thesis
  proof (cases "i < created (length tids) p")
    case True
    with Some count have "c' = c(i := min 7 (Suc (c i)))" "p' = p" by (simp_all add: count_step_def)
    with Some True len prog_thread [OF inv True] show ?thesis by (simp add: test_step_def)
  next
    case False
    with Some count len inv show ?thesis by (auto simp: test_step_def count_step_def)
  qed
qed

lemma prog_start: "prog_inv tids (\<lambda>_. 0) 0 no_threads []"
proof -
  have "root_ready (ts_world no_threads)" "std_out (ts_world no_threads) = []"
    by (simp_all add: root_ready_def stdout_ready_def no_threads_def getLogger_def manager_getLogger_def
        manager_construction start_world_def)
  moreover have "ts_threads no_threads = []" "ts_objs no_threads = (\<lambda>_. None)" "ts_next no_threads = 0"
    "ts_fault no_threads = None" by (simp_all add: no_threads_def)
  ultimately show ?thesis by (simp add: prog_inv_def Let_def created_def join_done_def main_said_def)
qed

lemma prog_writers:
  assumes inv: "prog_inv tids c p s outs"
  shows "writers tids (s, p) = count_writers (length tids) (c, p)"
proof -
  have "about_to_log i s \<longleftrightarrow> c i = 5" if "i < created (length tids) p" for i
  proof -
    have "c i \<le> 7" using inv by (simp add: prog_inv_def Let_def)
    then show ?thesis
      using prog_thread_facts(2) [OF inv that]
      by (auto simp: about_to_log_def next_op_def thread_at_def fun1_def Let_def)
  qed
  moreover have "length (ts_threads s) = created (length tids) p" using inv by (simp add: prog_inv_def Let_def)
  ultimately show ?thesis by (auto simp: writers_def count_writers_def intro!: filter_cong)
qed

lemma prog_run:
  assumes "prog_inv tids c p s outs" and "count_apart (length tids) sched (c, p)"
  shows "\<exists>s' outs'. test_run tids sched (s, p) = Some (s', snd (fold (count_step (length tids)) sched (c, p))) \<and>
    prog_inv tids (fst (fold (count_step (length tids)) sched (c, p)))
      (snd (fold (count_step (length tids)) sched (c, p))) s' outs'"
  using assms
proof (induction sched arbitrary: c p s outs)
  case Nil
  then show ?case using prog_writers [OF Nil(1)] by auto
next
  case (Cons who sched)
  obtain c' p' where count: "count_step (length tids) who (c, p) = (c', p')" by fastforce
  from prog_step [OF Cons.prems(1) this] obtain s' outs'
    where step: "test_step tids who (s, p) = (s', p')" "prog_inv tids c' p' s' outs'" by blast
  from Cons.IH [OF step(2)] Cons.prems(2) count step(1) prog_writers [OF Cons.prems(1)] show ?case by simp
qed

lemma test_run_apart:
  assumes "prog_inv tids c p s outs" and "test_run tids sched (s, p) = Some r"
  shows "count_apart (length tids) sched (c, p)"
  using assms
proof (induction sched arbitrary: c p s outs)
  case Nil
  then show ?case using prog_writers [OF Nil(1)] by (auto split: if_splits)
next
  case (Cons who sched)
  obtain c' p' where count: "count_step (length tids) who (c, p) = (c', p')" by fastforce
  from prog_step [OF Cons.prems(1) this] obtain s' outs'
    where step: "test_step tids who (s, p) = (s', p')" "prog_inv tids c' p' s' outs'" by blast
  from Cons.IH [OF step(2)] Cons.prems(2) count step(1) prog_writers [OF Cons.prems(1)] show ?case
    by (auto split: if_splits)
qed

lemma test_run_append:
  "test_run tids xs st = Some st' \<Longrightarrow> test_run tids (xs @ ys) st = test_run tids ys st'"
proof (induction xs arbitrary: st)
  case Nil
  then show ?case by (cases ys) (auto split: if_splits)
qed (auto split: if_splits)

text \<open>
  From all numbers at which at most one of them is about to write, a schedule that keeps it so leads
  to the end of \<open>main\<close>: whoever is about to write goes first, else \<open>main\<close>, else the thread that it
  waits for.
\<close>

lemma length_at_most_one: "distinct xs \<Longrightarrow> set xs \<subseteq> {x} \<Longrightarrow> length xs \<le> Suc 0"
  by (metis card_mono distinct_card finite.emptyI finite.insertI card_insert_disjoint card.empty empty_iff)

lemma distinct_writers: "distinct (count_writers n st)"
  by (auto simp: count_writers_def distinct_map split: prod.splits)

lemma few_writers: "set (count_writers n st) \<subseteq> {x} \<Longrightarrow> length (count_writers n st) \<le> 1"
  using length_at_most_one [OF distinct_writers] by simp

lemma only_writer: "length (count_writers n st) \<le> 1 \<Longrightarrow> who \<in> set (count_writers n st) \<Longrightarrow> set (count_writers n st) = {who}"
  by (cases "count_writers n st") auto

lemma set_count_writers:
  "set (count_writers n (c, p)) =
     (if p < 4 * n \<and> odd p then {None} else {}) \<union> Some ` {i. i < created n p \<and> c i = 5}"
  by (auto simp: count_writers_def)

definition counts_ok :: "nat \<Rightarrow> (nat \<Rightarrow> nat) \<times> nat \<Rightarrow> bool" where
  "counts_ok n st =
     ((\<forall>k. fst st k \<le> 7) \<and> (\<forall>k\<ge>created n (snd st). fst st k = 0) \<and> snd st \<le> 4 * n \<and>
      length (count_writers n st) \<le> 1)"

definition counts_left :: "nat \<Rightarrow> (nat \<Rightarrow> nat) \<times> nat \<Rightarrow> nat" where
  "counts_left n st = (4 * n - snd st) + (\<Sum>k<n. 7 - fst st k)"

lemma counts_main:
  assumes ok: "counts_ok n (c, p)" and "p < 4 * n" and "p < 2 * n \<or> odd p \<or> c (p div 2 - n) = 7"
    and few: "set (count_writers n (c, p)) \<subseteq> {None}"
  shows "count_step n None (c, p) = (c, Suc p)" and "counts_ok n (c, Suc p)"
    and "counts_left n (c, Suc p) < counts_left n (c, p)"
proof -
  show "count_step n None (c, p) = (c, Suc p)" using assms(2,3) by (auto simp: count_step_def)
  have "created n p \<le> created n (Suc p)" by (auto simp: created_def)
  moreover have "c k \<noteq> 5" if "k < created n (Suc p)" for k
    using few ok that by (cases "k < created n p") (auto simp: set_count_writers counts_ok_def split: if_splits)
  then have "set (count_writers n (c, Suc p)) \<subseteq> {None}" by (auto simp: set_count_writers)
  ultimately show "counts_ok n (c, Suc p)" using ok assms(2) few_writers by (auto simp: counts_ok_def)
  show "counts_left n (c, Suc p) < counts_left n (c, p)" using assms(2) by (simp add: counts_left_def)
qed

lemma counts_thread:
  assumes ok: "counts_ok n (c, p)" and i: "i < created n p" "c i < 7"
    and few: "set (count_writers n (c, p)) \<subseteq> {Some i}"
  shows "count_step n (Some i) (c, p) = (c(i := Suc (c i)), p)" and "counts_ok n (c(i := Suc (c i)), p)"
    and "counts_left n (c(i := Suc (c i)), p) < counts_left n (c, p)"
proof -
  show "count_step n (Some i) (c, p) = (c(i := Suc (c i)), p)" using i by (simp add: count_step_def)
  have "set (count_writers n (c(i := Suc (c i)), p)) \<subseteq> {Some i}"
    using few by (auto simp: set_count_writers split: if_splits)
  then show "counts_ok n (c(i := Suc (c i)), p)" using ok i few_writers by (auto simp: counts_ok_def)
  have "i < n" using i(1) by (simp add: created_def)
  then have "(\<Sum>k<n. 7 - (c(i := Suc (c i))) k) < (\<Sum>k<n. 7 - c k)"
    using i(2) by (intro sum_strict_mono_ex1) auto
  then show "counts_left n (c(i := Suc (c i)), p) < counts_left n (c, p)" by (simp add: counts_left_def)
qed

lemma counts_progress:
  assumes ok: "counts_ok n (c, p)" and p: "p < 4 * n"
  obtains who where "counts_ok n (count_step n who (c, p))"
    and "counts_left n (count_step n who (c, p)) < counts_left n (c, p)"
proof -
  have few: "length (count_writers n (c, p)) \<le> 1" using ok by (simp add: counts_ok_def)
  consider (main) "None \<in> set (count_writers n (c, p))" | (thread) i where "Some i \<in> set (count_writers n (c, p))"
    | (calm) "set (count_writers n (c, p)) = {}" by (metis equals0I option.exhaust)
  then show ?thesis
  proof cases
    case main
    then have "odd p" by (auto simp: set_count_writers split: if_splits)
    with counts_main [OF ok p] only_writer [OF few main] that [of None] show ?thesis by simp
  next
    case (thread i)
    then have "i < created n p" "c i < 7" by (auto simp: set_count_writers split: if_splits)
    with counts_thread [OF ok this] only_writer [OF few thread] that [of "Some i"] show ?thesis by simp
  next
    case calm
    define k where "k = p div 2 - n"
    have le: "c k \<le> 7" using ok by (simp add: counts_ok_def)
    show ?thesis
    proof (cases "p < 2 * n \<or> odd p \<or> c k = 7")
      case True
      with counts_main [OF ok p] calm that [of None] show ?thesis by (simp add: k_def)
    next
      case False
      with le p have "k < created n p" "c k < 7" by (auto simp: k_def created_def)
      with counts_thread [OF ok this] calm that [of "Some k"] show ?thesis by simp
    qed
  qed
qed

lemma count_completes:
  "counts_ok n st \<Longrightarrow> \<exists>more. count_apart n more st \<and> snd (fold (count_step n) more st) = 4 * n"
proof (induction "counts_left n st" arbitrary: st rule: less_induct)
  case less
  obtain c p where st: "st = (c, p)" by fastforce
  have few: "length (count_writers n st) \<le> 1" using less.prems by (simp add: counts_ok_def)
  show ?case
  proof (cases "p = 4 * n")
    case True
    with st few show ?thesis by (intro exI [of _ "[]"]) simp
  next
    case False
    with less.prems st have p: "p < 4 * n" by (simp add: counts_ok_def)
    from counts_progress [OF less.prems [unfolded st] this] obtain who
      where "counts_ok n (count_step n who st)" "counts_left n (count_step n who st) < counts_left n st"
      unfolding st by blast
    from less.hyps [OF this(2,1)] few obtain more
      where "count_apart n (who # more) st \<and> snd (fold (count_step n) (who # more) st) = 4 * n" by auto
    then show ?thesis by blast
  qed
qed

lemma prog_counts_ok: "prog_inv tids c p s outs \<Longrightarrow> count_apart (length tids) sched (c, p) \<Longrightarrow> counts_ok (length tids) (c, p)"
  by (cases sched) (auto simp: prog_inv_def Let_def counts_ok_def)

lemma count_apart_final: "count_apart n sched st \<Longrightarrow> count_apart n [] (fold (count_step n) sched st)"
  by (induction sched arbitrary: st) auto

text \<open>
  C19. In every schedule of \<open>main\<close> and its threads in which no two of them are about to write at once
  (the others race), the program runs without a fault, and it can always be completed by such a
  schedule. The output is at every moment a sequence of whole pieces: what \<open>main\<close> printed, in its
  order, and between that, for each thread that has got so far, its line, once for each of the
  two appenders of the root logger. When \<open>main\<close> has returned, every thread's line is there.
\<close>

theorem test_program_output:
  assumes "test_run tids sched (no_threads, 0) = Some (s, p)"
  shows "ts_fault s = None \<and>
    (\<exists>more u. test_run tids (sched @ more) (no_threads, 0) = Some (u, 4 * length tids)) \<and>
    (\<exists>outs. std_out (ts_world s) = concat (map (chunk_text tids) outs) \<and>
       main_of outs = main_said (length tids) p \<and>
       distinct (threads_of outs) \<and> set (threads_of outs) \<subseteq> {..<length tids} \<and>
       (p = 4 * length tids \<longrightarrow> set (threads_of outs) = {..<length tids}))"
proof (intro conjI)
  let ?n = "length tids"
  note apart = test_run_apart [OF prog_start assms]
  obtain c p1 where counts: "fold (count_step ?n) sched (\<lambda>_. 0, 0) = (c, p1)" by fastforce
  from prog_run [OF prog_start apart] assms counts obtain outs where p: "p1 = p" and inv: "prog_inv tids c p s outs" by auto
  show "ts_fault s = None" using inv by (simp add: prog_inv_def Let_def)
  have "count_apart ?n [] (c, p)" using count_apart_final [OF apart] counts p by simp
  from count_completes [OF prog_counts_ok [OF inv this]]
  obtain more where more: "count_apart ?n more (c, p)" "snd (fold (count_step ?n) more (c, p)) = 4 * ?n" by blast
  from prog_run [OF inv more(1)] more(2) test_run_append [OF assms]
  show "\<exists>more u. test_run tids (sched @ more) (no_threads, 0) = Some (u, 4 * ?n)" by metis
  have threads: "set (threads_of outs) = {k. k < created ?n p \<and> 6 \<le> c k}"
    using inv by (simp add: prog_inv_def Let_def)
  have "c k = 7" if "p = 4 * ?n" "k < ?n" for k
    using inv that by (simp add: prog_inv_def Let_def join_done_def)
  then have "set (threads_of outs) = {..<?n}" if "p = 4 * ?n"
    using threads that by (auto simp: created_def)
  then show "\<exists>outs. std_out (ts_world s) = concat (map (chunk_text tids) outs) \<and>
       main_of outs = main_said ?n p \<and> distinct (threads_of outs) \<and> set (threads_of outs) \<subseteq> {..<?n} \<and>
       (p = 4 * ?n \<longrightarrow> set (threads_of outs) = {..<?n})"
    using inv threads by (intro exI [of _ outs]) (auto simp: prog_inv_def Let_def created_def)
qed

theorem test_program_output_witness:
  "\<exists>s outs. test_run [43] [None, Some 0, Some 0, None, Some 0, Some 0, Some 0, Some 0, Some 0, None, None] (no_threads, 0) = Some (s, 4) \<and>
     std_out (ts_world s) = concat (map (chunk_text [43]) outs) \<and> set (threads_of outs) = {0}"
proof -
  let ?sched = "[None, Some 0, Some 0, None, Some 0, Some 0, Some 0, Some 0, Some 0, None, None]"
  have "count_apart (length [43::int]) ?sched (\<lambda>_. 0, 0)" "snd (fold (count_step (length [43::int])) ?sched (\<lambda>_. 0, 0)) = 4"
    by (simp_all add: count_writers_def count_step_def created_def)
  with prog_run [OF prog_start] obtain s where s: "test_run [43] ?sched (no_threads, 0) = Some (s, 4)" by metis
  from test_program_output [OF this] obtain outs
    where "std_out (ts_world s) = concat (map (chunk_text [43]) outs)" "set (threads_of outs) = {..<1}" by auto
  with s show ?thesis by (intro exI [of _ s] exI [of _ outs]) (simp add: lessThan_Suc)
qed

end
