(* ===== verification/Test_Log.thy ===== *)
theory Test_Log
  imports Thread_Program
begin

text \<open>
  The program of \<open>tests/test.cc\<close>: a logger of its own with three appenders, a stream line and a
  printf line through it, and a line through a registered logger that has no appender. The world it
  starts in is that after the static initialisation of the library, which has built the manager.
\<close>

section \<open>The program\<close>

text \<open>The texts of the source, in UTF-8.\<close>

definition hello_text :: string where
  "hello_text = [CHR 0xE4, CHR 0xBD, CHR 0xA0, CHR 0xE5, CHR 0xA5, CHR 0xBD, CHR 0xE5, CHR 0x95, CHR 0x8A]"

definition singleton_text :: string where
  "singleton_text = [CHR 0xE5, CHR 0x8D, CHR 0x95, CHR 0xE4, CHR 0xBE, CHR 0x8B, CHR 0xE6, CHR 0xA8, CHR 0xA1,
     CHR 0xE5, CHR 0xBC, CHR 0x8F, CHR 0xE6, CHR 0x94, CHR 0xAF, CHR 0xE6, CHR 0x8C, CHR 0x81]"

text \<open>
  \<open>main\<close>. \<open>alloc\<close> says whether \<open>vasprintf\<close> can allocate its buffer, which holds the format with the
  argument in place of \<open>%s\<close>.
\<close>

definition test_setup :: "world \<Rightarrow> logger_ptr \<times> appender_ptr \<times> world" where
  "test_setup w =
     (case new_Logger ''root'' w of
        (logger, w1) \<Rightarrow>
          (case new_StdoutLogAppender w1 of
             (ap, w2) \<Rightarrow>
               (case new_FileLogAppender ''./test_log.txt'' (addAppender ap logger w2) of
                  (file_appender, w3) \<Rightarrow> (logger, file_appender, addAppender file_appender logger w3))))"

definition test_main :: "bool \<Rightarrow> (world, unit) comp" where
  "test_main alloc = (\<lambda>w.
     case test_setup w of
       (logger, file_appender, w1) \<Rightarrow>
         bind_comp (SYLAR_LOG_LEVEL logger INFO ''tests/test.cc'' 15 ''ttest Iinfo'')
           (\<lambda>_. bind_comp (SYLAR_LOG_FMT_LEVEL logger ERROR ''tests/test.cc'' 17
                   (if alloc then Some (''test fmt logger error '' @ hello_text) else None))
             (\<lambda>_ w2. case getLogger ''xx'' w2 of
                 (l, w3) \<Rightarrow> SYLAR_LOG_LEVEL l INFO ''tests/test.cc'' 20 singleton_text w3)) w1)"

section \<open>Its output\<close>

text \<open>A line of the default pattern for a logger named \<open>root\<close>, in the environment of the initial world.\<close>

definition root_line :: "int \<Rightarrow> level \<Rightarrow> string \<Rightarrow> int \<Rightarrow> string \<Rightarrow> string" where
  "root_line tid lv file line msg =
     ''2021-01-02 03:04:05'' @ [CHR 0x09] @ '' ['' @ ToString lv @ '']'' @ [CHR 0x09] @
     ''['' @ show_int (uint (GetThreadId tid)) @ '']'' @ [CHR 0x09] @ ''[root]'' @ [CHR 0x09] @
     '' /'' @ file @ '':'' @ show_int line @ [CHR 0x09] @ '' '' @ msg @ ''  '' @ [CHR 0x0A]"

abbreviation twice :: "string \<Rightarrow> string" where
  "twice t \<equiv> t @ [CHR 0x0A] @ t @ [CHR 0x0A]"

lemma root_line_format:
  assumes ev: "m_threadId ev = GetThreadId tid" "m_file ev = ''/'' @ fn" "sint (m_line ev) = n"
    "getContent ev = msg" "m_time ev = 0"
  shows "lf_format start_env ''root'' lv ev (LogFormatter default_pattern) = Inr (root_line tid lv fn n msg)"
proof -
  let ?t = "\<lparr>tm_sec = 5, tm_min = 4, tm_hour = 3, tm_mday = 2, tm_mon = 0, tm_year = 121, tm_wday = 6, tm_yday = 1\<rparr>"
  have date: "ymd ?t = ''2021-01-02''" "hms ?t = ''03:04:05''"
    by (simp_all add: ymd_def hms_def num2_def pad_left_def show_int_def show_nat.simps digit_char_def char_eval)
  have "env_localtime start_env (sint (m_time ev)) = Some ?t" "valid_tm ?t"
    by (simp_all add: start_env_def valid_tm_def)
  note default_pattern_output [OF this, THEN conjunct2, of "''root''" lv]
  then show ?thesis unfolding ev date root_line_def by simp
qed

text \<open>The world \<open>main\<close> begins in: its thread id, and whether its file can be opened and written.\<close>

definition before_main :: "int \<Rightarrow> bool \<Rightarrow> bool \<Rightarrow> world" where
  "before_main tid can_open can_write = (ts_world no_threads)
     \<lparr>w_can_open := \<lambda>_. can_open, w_can_write := \<lambda>_. can_write, w_tid := tid\<rparr>"

text \<open>The logger of the test after its setup, as long as it is in use.\<close>

definition test_ready :: "int \<Rightarrow> bool \<Rightarrow> ofstream \<Rightarrow> world \<Rightarrow> bool" where
  "test_ready tid can_write st w =
     (root_ready w \<and> mgr_loggers w = [(''root'', 0), (''system'', 1)] \<and> next_logger w = 3 \<and> w_tid w = tid \<and>
      w_can_write w = (\<lambda>_. can_write) \<and>
      lg_name (loggers w 2) = ''root'' \<and> lg_level (loggers w 2) = DEBUG \<and> lg_appenders (loggers w 2) = [2, 3, 4] \<and>
      stdout_ready w 2 \<and> stdout_ready w 3 \<and> la_class (appenders w 4) = FileLogAppender ''./test_log.txt'' st \<and>
      la_level (appenders w 4) = DEBUG \<and> la_formatter (appenders w 4) = Some (LogFormatter default_pattern))"

lemma test_setup_ready:
  "\<exists>v st. test_setup (before_main tid can_open can_write) = (2, 4, v) \<and> test_ready tid can_write st v \<and> std_out v = [] \<and>
     st = \<lparr>os_open = can_open, os_good = can_open, os_text = []\<rparr>"
  by (simp add: test_setup_def before_main_def no_threads_def start_world_def getLogger_def manager_getLogger_def
      manager_construction new_FileLogAppender_def test_ready_def root_ready_def stdout_ready_def Let_def
      reopen_stream_def new_ofstream_def ofstream_open_def ofstream_close_def)

lemma test_ready_print [simp]: "test_ready tid cw st (print t w) = test_ready tid cw st w"
  by (simp add: test_ready_def root_ready_def stdout_ready_def print_def)

lemma test_ready_given [simp]: "test_ready tid cw st w \<Longrightarrow> test_ready tid cw st (default_given ap w)"
  unfolding test_ready_def using root_ready_given [of w ap]
  by (auto simp: stdout_ready_def default_given_def)

lemma test_ready_root:
  "test_ready tid cw st w \<Longrightarrow> root_ready w \<and> w_time w = start_env \<and> w_now w = 0 \<and> w_srcdir w = ''/''"
  by (simp add: test_ready_def root_ready_def)

lemma test_logger_logs:
  assumes w: "test_ready tid cw st w" and lv: "DEBUG \<le> lv"
    and line: "lf_format start_env ''root'' lv ev (LogFormatter default_pattern) = Inr line"
  shows "\<exists>v. Logger_log 2 lv ev w = (Inr (), v) \<and> test_ready tid cw (ofstream_write cw line st) v \<and>
    std_out v = std_out w @ twice line"
proof -
  let ?w1 = "print (line @ [CHR 0x0A]) (default_given 2 w)"
  let ?w2 = "print (line @ [CHR 0x0A]) (default_given 3 ?w1)"
  let ?w3 = "upd_appender 4 (la_class_update (\<lambda>_. FileLogAppender ''./test_log.txt'' (ofstream_write cw line st))) ?w2"
  have w12: "test_ready tid cw st ?w1" "test_ready tid cw st ?w2" using w by simp_all
  have env: "w_time v = start_env" "lg_name (loggers v 2) = ''root''" "stdout_ready v 2" "stdout_ready v 3"
    if "test_ready tid cw st v" for v using that by (simp_all add: test_ready_def root_ready_def)
  have "appender_log 2 2 lv ev w = (Inr (), ?w1)"
    by (rule ready_appender_log) (simp_all add: env [OF w] lv line)
  moreover have "appender_log 3 2 lv ev ?w1 = (Inr (), ?w2)"
    by (rule ready_appender_log) (use env [OF w12(1)] lv line in simp_all)
  moreover have "appender_log 4 2 lv ev ?w2 = (Inr (), ?w3)"
    using w12(2) env [OF w12(2)] lv line
    by (simp add: test_ready_def appender_log_def file_log_def del: print_simps(1-5) default_given_simps)
  ultimately have "Logger_log 2 lv ev w = (Inr (), ?w3)"
    using w lv by (simp add: Logger_log_def test_ready_def comp_simps)
  moreover have "test_ready tid cw (ofstream_write cw line st) ?w3"
    using w12(2) by (auto simp: test_ready_def root_ready_def stdout_ready_def)
  ultimately show ?thesis by (simp add: default_given_def)
qed

text \<open>The two forms of the macro, for the logger of the test.\<close>

lemma test_macros:
  assumes w: "test_ready tid cw st w" and lv: "DEBUG \<le> lv"
    and n: "sint line = n" and t: "t = root_line tid lv ''tests/test.cc'' n msg"
  shows "\<exists>v. SYLAR_LOG_LEVEL 2 lv ''tests/test.cc'' line msg w = (Inr (), v) \<and>
      test_ready tid cw (ofstream_write cw t st) v \<and> std_out v = std_out w @ twice t"
    and "\<exists>v. SYLAR_LOG_FMT_LEVEL 2 lv ''tests/test.cc'' line (Some msg) w = (Inr (), v) \<and>
      test_ready tid cw (ofstream_write cw t st) v \<and> std_out v = std_out w @ twice t"
proof -
  let ?ev = "stream_into msg (macro_event 2 lv ''tests/test.cc'' line w)"
  have ev: "m_threadId ?ev = GetThreadId tid" "m_file ?ev = ''/'' @ ''tests/test.cc''" "sint (m_line ?ev) = n"
    "getContent ?ev = msg" "m_time ?ev = 0"
    using w n by (simp_all add: stream_into_def macro_event_def LogEvent_def getContent_def test_ready_def root_ready_def)
  have level: "getLevel 2 w \<le> lv" "m_logger ?ev = 2" "m_level ?ev = lv"
    using w lv by (simp_all add: getLevel_def test_ready_def stream_into_def macro_event_def LogEvent_def)
  from root_line_format [OF ev, of lv] test_logger_logs [OF w lv, of ?ev t] level
  show "\<exists>v. SYLAR_LOG_LEVEL 2 lv ''tests/test.cc'' line msg w = (Inr (), v) \<and>
      test_ready tid cw (ofstream_write cw t st) v \<and> std_out v = std_out w @ twice t"
    and "\<exists>v. SYLAR_LOG_FMT_LEVEL 2 lv ''tests/test.cc'' line (Some msg) w = (Inr (), v) \<and>
      test_ready tid cw (ofstream_write cw t st) v \<and> std_out v = std_out w @ twice t"
    unfolding t by (simp_all add: SYLAR_LOG_LEVEL_def SYLAR_LOG_FMT_LEVEL_def LogEventWrap_destroy_def
        event_format_def del: append.simps)
qed

lemma event_format_none: "event_format None e = stream_into [] e"
  by (simp add: event_format_def stream_into_def)

lemma fmt_none:
  "SYLAR_LOG_FMT_LEVEL l lv fn line None = SYLAR_LOG_FMT_LEVEL l lv fn line (Some [])"
  by (simp add: SYLAR_LOG_FMT_LEVEL_def event_format_none fun_eq_iff) (simp add: event_format_def)

text \<open>A logger without an appender: its line goes through the root logger.\<close>

lemma bare_logger_logs:
  assumes ready: "root_ready u" and tid: "w_tid u = tid" and heap: "0 < next_logger u"
    and bare: "lg_appenders (loggers u l) = []" "lg_root (loggers u l) = Some 0" "lg_level (loggers u l) = DEBUG"
    and n: "sint line = n" and t: "t = root_line tid INFO file n msg"
  shows "SYLAR_LOG_LEVEL l INFO file line msg u = (Inr (), printed_by 1 t (printed_by 0 t u))"
proof -
  let ?ev = "stream_into msg (macro_event l INFO file line u)"
  have ev: "m_threadId ?ev = GetThreadId tid" "m_file ?ev = ''/'' @ file" "sint (m_line ?ev) = n"
    "getContent ?ev = msg" "m_time ?ev = 0" "m_logger ?ev = l" "m_level ?ev = INFO"
    using ready tid n by (simp_all add: stream_into_def macro_event_def LogEvent_def getContent_def root_ready_def)
  have low: "DEBUG \<le> INFO" by (simp add: less_eq_level_def)
  have v: "Logger_log 0 INFO ?ev u = (Inr (), printed_by 1 t (printed_by 0 t u))"
    using root_ready_prints [OF ready low root_line_format [OF ev(1-5)]] unfolding t .
  have root: "lg_appenders (loggers u 0) = [0, 1]" "lg_level (loggers u 0) = DEBUG"
    using ready by (simp_all add: root_ready_def)
  obtain k where k: "next_logger u = Suc k" using heap by (cases "next_logger u") auto
  have "Logger_log l INFO ?ev u = Logger_log 0 INFO ?ev u"
    unfolding Logger_log_def k by (simp add: bare low root)
  with v low bare(3) ev(6,7) show ?thesis
    by (simp add: SYLAR_LOG_LEVEL_def LogEventWrap_destroy_def getLevel_def)
qed

text \<open>Such is the registered logger \<open>xx\<close>.\<close>

definition xx_logger :: logger where
  "xx_logger = \<lparr>lg_name = ''xx'', lg_level = DEBUG, lg_appenders = [],
     lg_formatter = Some (LogFormatter default_pattern), lg_root = Some 0\<rparr>"

lemma getLogger_xx:
  assumes "test_ready tid cw st w"
  shows "getLogger ''xx'' w = (3, w\<lparr>loggers := (loggers w)(3 := xx_logger), next_logger := 4,
    mgr_loggers := [(''root'', 0), (''system'', 1), (''xx'', 3)]\<rparr>)"
proof -
  have "mgr_built w" "mgr_root w = 0" "mgr_loggers w = [(''root'', 0), (''system'', 1)]" "next_logger w = 3"
    using assms by (simp_all add: test_ready_def root_ready_def)
  then show ?thesis
    by (simp add: getLogger_def GetInstance_def manager_getLogger_def new_Logger_def alloc_logger_def Let_def
        xx_logger_def less_char_def)
qed

lemma named_logger_logs:
  assumes w: "test_ready tid cw st w" and t: "t = root_line tid INFO ''tests/test.cc'' 20 msg"
    and get: "getLogger ''xx'' w = (l, u)"
  shows "\<exists>v. SYLAR_LOG_LEVEL l INFO ''tests/test.cc'' 20 msg u = (Inr (), v) \<and>
    la_class (appenders v 4) = FileLogAppender ''./test_log.txt'' st \<and> std_out v = std_out w @ twice t"
proof -
  have l: "l = 3" and u: "u = w\<lparr>loggers := (loggers w)(3 := xx_logger), next_logger := 4,
      mgr_loggers := [(''root'', 0), (''system'', 1), (''xx'', 3)]\<rparr>"
    using get getLogger_xx [OF w] by simp_all
  have ready: "root_ready u" and same: "appenders u = appenders w" "w_tid u = tid" "std_out u = std_out w"
    and xx: "loggers u 3 = xx_logger" "next_logger u = 4"
    using w by (simp_all add: u test_ready_def root_ready_def stdout_ready_def)
  let ?v = "printed_by 1 t (printed_by 0 t u)"
  have "SYLAR_LOG_LEVEL 3 INFO ''tests/test.cc'' 20 msg u = (Inr (), ?v)"
    by (rule bare_logger_logs [OF ready same(2)]) (simp_all add: xx xx_logger_def t)
  moreover have "la_class (appenders ?v 4) = FileLogAppender ''./test_log.txt'' st" "std_out ?v = std_out w @ twice t"
    using w same by (simp_all add: printed_by_def default_given_def test_ready_def)
  ultimately show ?thesis using l by blast
qed

text \<open>
  C21. The program of \<open>tests/test.cc\<close>: every line is printed twice, the two of the own logger because
  a logger named \<open>root\<close> is born with an appender to standard output, the one of the logger \<open>xx\<close> because
  it goes to the root logger of the manager, which has two. The file gets the two lines of the own
  logger, once each and with the newline of the pattern only, when it can be opened and written;
  when \<open>vasprintf\<close> fails the message is empty.
\<close>

theorem test_main_output:
  "\<exists>v st. test_main alloc (before_main tid can_open can_write) = (Inr (), v) \<and>
     std_out v = twice (root_line tid INFO ''tests/test.cc'' 15 ''ttest Iinfo'') @
       twice (root_line tid ERROR ''tests/test.cc'' 17 (if alloc then ''test fmt logger error '' @ hello_text else [])) @
       twice (root_line tid INFO ''tests/test.cc'' 20 singleton_text) \<and>
     la_class (appenders v 4) = FileLogAppender ''./test_log.txt'' st \<and>
     os_text st = (if can_open \<and> can_write
       then root_line tid INFO ''tests/test.cc'' 15 ''ttest Iinfo'' @
         root_line tid ERROR ''tests/test.cc'' 17 (if alloc then ''test fmt logger error '' @ hello_text else [])
       else [])"
proof -
  let ?msg = "if alloc then ''test fmt logger error '' @ hello_text else []"
  define t1 t2 t3 where t: "t1 = root_line tid INFO ''tests/test.cc'' 15 ''ttest Iinfo''"
    "t2 = root_line tid ERROR ''tests/test.cc'' 17 ?msg" "t3 = root_line tid INFO ''tests/test.cc'' 20 singleton_text"
  have fmt: "SYLAR_LOG_FMT_LEVEL l lv fn line (if alloc then Some (''test fmt logger error '' @ hello_text) else None)
      = SYLAR_LOG_FMT_LEVEL l lv fn line (Some ?msg)" for l lv fn line
    by (simp add: fmt_none)
  define st0 where "st0 = \<lparr>os_open = can_open, os_good = can_open, os_text = []\<rparr>"
  obtain w where w: "test_setup (before_main tid can_open can_write) = (2, 4, w)" "test_ready tid can_write st0 w"
    "std_out w = []" using test_setup_ready unfolding st0_def by blast
  have low: "DEBUG \<le> INFO" "DEBUG \<le> ERROR" by (simp_all add: less_eq_level_def)
  obtain w1 where w1: "SYLAR_LOG_LEVEL 2 INFO ''tests/test.cc'' 15 ''ttest Iinfo'' w = (Inr (), w1)"
    "test_ready tid can_write (ofstream_write can_write t1 st0) w1" "std_out w1 = std_out w @ twice t1"
    using test_macros(1) [OF w(2) low(1), where line = 15, OF _ t(1)] by auto
  obtain w2 where w2: "SYLAR_LOG_FMT_LEVEL 2 ERROR ''tests/test.cc'' 17 (Some ?msg) w1 = (Inr (), w2)"
    "test_ready tid can_write (ofstream_write can_write t2 (ofstream_write can_write t1 st0)) w2"
    "std_out w2 = std_out w1 @ twice t2"
    using test_macros(2) [OF w1(2) low(2), where line = 17, OF _ t(2)] by auto
  obtain l u where get: "getLogger ''xx'' w2 = (l, u)" by fastforce
  obtain v where v: "SYLAR_LOG_LEVEL l INFO ''tests/test.cc'' 20 singleton_text u = (Inr (), v)"
    "la_class (appenders v 4) =
       FileLogAppender ''./test_log.txt'' (ofstream_write can_write t2 (ofstream_write can_write t1 st0))"
    "std_out v = std_out w2 @ twice t3"
    using named_logger_logs [OF w2(2) t(3) get] by blast
  have "t1 \<noteq> []" "t2 \<noteq> []" by (simp_all add: t root_line_def)
  then have "os_text (ofstream_write can_write t2 (ofstream_write can_write t1 st0)) =
      (if can_open \<and> can_write then t1 @ t2 else [])"
    by (simp add: ofstream_write_def st0_def)
  moreover have "test_main alloc (before_main tid can_open can_write) = (Inr (), v)"
    unfolding test_main_def w(1) prod.case fmt using w1(1) w2(1) get v(1) by (simp add: comp_simps)
  ultimately show ?thesis
    using w(3) w1(3) w2(3) v(2,3) unfolding t [symmetric] by (intro exI conjI) simp_all
qed

end
