(* ===== verification/Test_Config.thy ===== *)
theory Test_Config
  imports Log_Shipped Test_Values Test_Log
begin

text \<open>
  The program of \<open>tests/test_config.cc\<close>: its functions \<open>print_yaml\<close>, \<open>test_yaml\<close>, \<open>test_config\<close>,
  \<open>test_class\<close> and \<open>test_log\<close>, of which \<open>main\<close> calls the last. \<open>YAML::LoadFile\<close> is an argument: the tree
  of the file or the library's exception.
\<close>

section \<open>The program\<close>

abbreviation test_file :: string where
  "test_file \<equiv> ''tests/test_config.cc''"

text \<open>The static objects, after those of the library: the global pointers are the results in order.\<close>

definition test_statics ::
  "yaml_lib \<Rightarrow> 'f cast_lib \<Rightarrow> (i32 \<Rightarrow> i32 list \<Rightarrow> i32 list) \<Rightarrow>
   (string \<times> i32 \<Rightarrow> (string \<times> i32) list \<Rightarrow> (string \<times> i32) list) \<Rightarrow> ('f \<Rightarrow> 'f \<Rightarrow> bool) \<Rightarrow> 'f \<Rightarrow>
   ((log_define list + 'f test_value) system, var_ptr option list) comp" where
  "test_statics Y L place place' feq f =
     bind_comp (init_log_config Y) (\<lambda>_. lookup_all (test_variables Y L place place' feq f))"

text \<open>\<open>print_yaml\<close>: \<open>kind\<close> is the number of \<open>node.Type()\<close>, an enumeration of yaml-cpp.\<close>

definition indent :: "nat \<Rightarrow> string" where
  "indent level = replicate (level * 4) (CHR 0x20)"

fun print_yaml :: "(yaml \<Rightarrow> nat) \<Rightarrow> yaml_lib \<Rightarrow> yaml \<Rightarrow> nat \<Rightarrow> (world, unit) comp"
  and print_map :: "(yaml \<Rightarrow> nat) \<Rightarrow> yaml_lib \<Rightarrow> (yaml \<times> yaml) list \<Rightarrow> nat \<Rightarrow> (world, unit) comp"
  and print_seq :: "(yaml \<Rightarrow> nat) \<Rightarrow> yaml_lib \<Rightarrow> nat \<Rightarrow> yaml list \<Rightarrow> nat \<Rightarrow> (world, unit) comp" where
  "print_yaml kind Y (YScalar s) level =
     log_root INFO test_file 28 (indent level @ s @ '' - '' @ show_nat (kind (YScalar s)) @ '' - '' @ show_nat level)"
| "print_yaml kind Y YNull level =
     log_root INFO test_file 33 (indent level @ ''NULL - '' @ show_nat (kind YNull) @ '' - '' @ show_nat level)"
| "print_yaml kind Y (YMap ps) level = print_map kind Y ps level"
| "print_yaml kind Y (YSeq xs) level = print_seq kind Y 0 xs level"
| "print_yaml kind Y YUndefined level = return ()"
| "print_map kind Y [] level = return ()"
| "print_map kind Y ((k, v) # ps) level =
     bind_comp (log_root INFO test_file 41
         (indent level @ y_emit Y k @ '' - '' @ show_nat (kind v) @ '' - '' @ show_nat level))
       (\<lambda>_. bind_comp (print_yaml kind Y v (level + 1)) (\<lambda>_. print_map kind Y ps level))"
| "print_seq kind Y i [] level = return ()"
| "print_seq kind Y i (x # xs) level =
     bind_comp (log_root INFO test_file 50
         (indent level @ show_nat i @ '' - '' @ show_nat (kind x) @ '' - '' @ show_nat level))
       (\<lambda>_. bind_comp (print_yaml kind Y x (level + 1)) (\<lambda>_. print_seq kind Y (i + 1) xs level))"

definition test_yaml :: "(yaml \<Rightarrow> nat) \<Rightarrow> yaml_lib \<Rightarrow> string + yaml \<Rightarrow> (world, unit) comp" where
  "test_yaml kind Y file = bind_comp (lib_call file) (\<lambda>root. print_yaml kind Y root 0)"

text \<open>The macros \<open>XX\<close> and \<open>XX_M\<close>: the elements of a variable and its text, one line each.\<close>

fun element_texts :: "log_define list + 'f test_value \<Rightarrow> string list" where
  "element_texts (Inr (V_Ints xs)) = map (\<lambda>i. show_int (sint i)) xs"
| "element_texts (Inr (V_Map m)) = map (\<lambda>(k, v). ''{'' @ k @ '' - '' @ show_int (sint v) @ '' } '') m"
| "element_texts _ = []"

definition XX ::
  "var_ptr option \<Rightarrow> string \<Rightarrow> i32 \<Rightarrow> ((log_define list + 'f test_value) system, unit) comp" where
  "XX g label line = (\<lambda>s.
     case g of
       None \<Rightarrow> (Inl (Undefined Null_Dereference), s)
     | Some p \<Rightarrow>
         bind_comp (for_each (element_texts (getValue p s))
             (\<lambda>i. in_world (log_root INFO test_file line (label @ '': '' @ i))))
           (\<lambda>_. log_root_computed INFO test_file line
             (bind_comp (toString p) (\<lambda>t. return (label @ '' yaml: '' @ t)))) s)"

definition shown :: "string \<Rightarrow> i32 \<Rightarrow> (nat \<times> string \<times> i32) list" where
  "shown prefix line =
     [(2, prefix @ '' int_vec'', line), (3, prefix @ '' int_list'', line + 1), (4, prefix @ '' int_set'', line + 2),
      (5, prefix @ '' int_unordered_set'', line + 3), (6, prefix @ '' int_map'', line + 4),
      (7, prefix @ '' int_unorderedmap'', line + 5)]"

definition test_config ::
  "yaml_lib \<Rightarrow> string + yaml \<Rightarrow> var_ptr option list \<Rightarrow> ((log_define list + 'f test_value) system, unit) comp" where
  "test_config Y file gs =
     bind_comp (for_each (shown ''before'' 90) (\<lambda>(i, label, line). XX (gs ! i) label line)) (\<lambda>_.
     bind_comp (lib_call file) (\<lambda>root. bind_comp (LoadFromYaml Y root) (\<lambda>_.
     for_each (shown ''after'' 107) (\<lambda>(i, label, line). XX (gs ! i) label line))))"

text \<open>\<open>test_class\<close> with its listener and the macro \<open>XX_PM\<close>.\<close>

fun person_cb :: "log_define list + 'f test_value \<Rightarrow> log_define list + 'f test_value \<Rightarrow> (world, unit) comp" where
  "person_cb (Inr (V_Person a)) (Inr (V_Person b)) =
     log_root INFO test_file 202 ('' old value: '' @ Person_toString a @ '' new value: '' @ Person_toString b)"
| "person_cb _ _ = return ()"

definition XX_PM ::
  "var_ptr option \<Rightarrow> string \<Rightarrow> i32 \<Rightarrow> ((log_define list + 'f test_value) system, unit) comp" where
  "XX_PM g prefix line = (\<lambda>s.
     case g of
       None \<Rightarrow> (Inl (Undefined Null_Dereference), s)
     | Some p \<Rightarrow>
         (case getValue p s of
            Inr (V_Persons m) \<Rightarrow>
              for_each m (\<lambda>(k, v). in_world (log_root INFO test_file line
                (prefix @ '' : '' @ k @ '' - '' @ Person_toString v))) s
          | _ \<Rightarrow> (Inr (), s)))"

definition test_class ::
  "yaml_lib \<Rightarrow> string + yaml \<Rightarrow> var_ptr option list \<Rightarrow> ((log_define list + 'f test_value) system, unit) comp" where
  "test_class Y file gs =
     bind_comp (case gs ! 8 of
         None \<Rightarrow> throw (Undefined Null_Dereference)
       | Some p \<Rightarrow> modify (upd_var p (addListener 10 (Some person_cb)))) (\<lambda>_.
     bind_comp (XX_PM (gs ! 9) ''before person map:'' 204) (\<lambda>_.
     bind_comp (lib_call file) (\<lambda>root. bind_comp (LoadFromYaml Y root) (\<lambda>_.
     XX_PM (gs ! 9) ''after person map:'' 210))))"

text \<open>\<open>test_log\<close>, all that \<open>main\<close> does.\<close>

definition print_loggers :: "yaml_lib \<Rightarrow> (world, unit) comp" where
  "print_loggers Y =
     bind_comp (modify GetInstance) (\<lambda>_. bind_comp (LoggerManager_toYamlString Y) (\<lambda>t. modify (print (t @ endl))))"

definition rule_text :: string where
  "rule_text = replicate 39 (CHR ''_'')"

definition test_log ::
  "yaml_lib \<Rightarrow> string + yaml \<Rightarrow> ((log_define list + 'u) system, unit) comp" where
  "test_log Y file =
     bind_comp (in_world (\<lambda>w. apfst Inr (getLogger ''system'' w))) (\<lambda>system_log.
     bind_comp (in_world (SYLAR_LOG_LEVEL system_log INFO test_file 220 (''hello system'' @ endl))) (\<lambda>_.
     bind_comp (in_world (print_loggers Y)) (\<lambda>_.
     bind_comp (lib_call file) (\<lambda>root. bind_comp (LoadFromYaml Y root) (\<lambda>_.
     bind_comp (in_world (modify (print (rule_text @ endl)))) (\<lambda>_.
     bind_comp (in_world (print_loggers Y)) (\<lambda>_.
     in_world (SYLAR_LOG_LEVEL system_log INFO test_file 228 (''hello system'' @ endl)))))))))"

section \<open>The world of the program\<close>

text \<open>As \<open>main\<close> finds it: the manager with its root logger and the bare logger \<open>system\<close>.\<close>

definition system_bare :: logger where
  "system_bare = \<lparr>lg_name = ''system'', lg_level = DEBUG, lg_appenders = [],
     lg_formatter = Some (LogFormatter default_pattern), lg_root = Some 0\<rparr>"

definition log_start :: "int \<Rightarrow> bool \<Rightarrow> bool \<Rightarrow> world \<Rightarrow> bool" where
  "log_start tid can_open can_write w =
     (root_ready w \<and> w_tid w = tid \<and> w_can_open w = (\<lambda>_. can_open) \<and> w_can_write w = (\<lambda>_. can_write) \<and>
      mgr_loggers w = [(''root'', 0), (''system'', 1)] \<and> next_logger w = 2 \<and> next_appender w = 2 \<and>
      lg_formatter (loggers w 0) = Some (LogFormatter default_pattern) \<and> loggers w 1 = system_bare \<and>
      \<not> la_hasFormatter (appenders w 0) \<and> \<not> la_hasFormatter (appenders w 1))"

lemma before_main_start: "log_start tid can_open can_write (before_main tid can_open can_write)"
  by (simp add: log_start_def root_ready_def stdout_ready_def before_main_def no_threads_def start_world_def
      getLogger_def manager_getLogger_def manager_construction system_bare_def)

lemma log_start_print [simp]: "log_start tid co cw (print t w) = log_start tid co cw w"
  by (simp add: log_start_def)

lemma log_start_printed [simp]: "log_start tid co cw w \<Longrightarrow> log_start tid co cw (printed_by ap t w)"
  unfolding log_start_def printed_by_def by (simp, auto simp: default_given_def)

lemma printed_out [simp]: "std_out (printed_by ap t w) = std_out w @ t @ [CHR 0x0A]"
  by (simp add: printed_by_def)

lemma start_system_logger: "log_start tid co cw w \<Longrightarrow> getLogger ''system'' w = (1, w)"
  by (simp add: log_start_def root_ready_def getLogger_def manager_getLogger_def GetInstance_def)

lemma start_system_line:
  assumes "log_start tid co cw w" and "sint line = n" and "t = root_line tid INFO file n msg"
  shows "SYLAR_LOG_LEVEL 1 INFO file line msg w = (Inr (), printed_by 1 t (printed_by 0 t w))"
  using assms
  by (intro bare_logger_logs) (simp_all add: log_start_def system_bare_def)

lemma start_root_line:
  assumes w: "log_start tid co cw w" and n: "sint line = n" and t: "t = root_line tid INFO file n msg"
  shows "log_root INFO file line msg w = (Inr (), printed_by 1 t (printed_by 0 t w))"
proof -
  have ready: "root_ready w" and root: "getRoot w = (0, w)"
    using w by (simp_all add: log_start_def root_ready_def getRoot_def GetInstance_def)
  let ?ev = "stream_into msg (macro_event 0 INFO file line w)"
  have ev: "m_threadId ?ev = GetThreadId tid" "m_file ?ev = ''/'' @ file" "sint (m_line ?ev) = n"
    "getContent ?ev = msg" "m_time ?ev = 0" "m_logger ?ev = 0" "m_level ?ev = INFO"
    using ready w n
    by (simp_all add: stream_into_def macro_event_def LogEvent_def getContent_def root_ready_def log_start_def)
  have low: "DEBUG \<le> INFO" by (simp add: less_eq_level_def)
  have "Logger_log 0 INFO ?ev w = (Inr (), printed_by 1 t (printed_by 0 t w))"
    using root_ready_prints [OF ready low root_line_format [OF ev(1-5)]] unfolding t .
  moreover have "lg_level (loggers w 0) = DEBUG" using ready by (simp add: root_ready_def)
  ultimately show ?thesis
    using low ev(6,7) by (simp add: log_root_def root SYLAR_LOG_LEVEL_def LogEventWrap_destroy_def getLevel_def)
qed

text \<open>The text of the manager's loggers before the configuration.\<close>

definition stdout_tree :: "level \<Rightarrow> yaml" where
  "stdout_tree lv = YMap [field ''type'' ''StdoutLogAppender'', field ''level'' (ToString lv)]"

definition loggers_before :: yaml where
  "loggers_before = YSeq
     [YMap [field ''name'' ''root'', field ''level'' ''DEBUG'', field ''formatter'' default_pattern,
        (YScalar ''appenders'', YSeq [stdout_tree DEBUG, stdout_tree DEBUG])],
      YMap [field ''name'' ''system'', field ''level'' ''DEBUG'', field ''formatter'' default_pattern]]"

lemma default_plain: "plain default_pattern" "getPattern (LogFormatter default_pattern) = default_pattern"
  by (simp_all add: default_pattern_def plain_def)

lemma plain_names: "plain ''root''" "plain ''system''" "plain ''system.txt''" "plain ''%d%T%m''"
  by (simp_all add: plain_def)

lemma text_before:
  assumes laws: "yaml_laws Y" and w: "log_start tid co cw w"
  shows "print_loggers Y w = (Inr (), print (y_emit Y loggers_before @ endl) w)"
proof -
  have built: "GetInstance w = w" and ls: "map snd (mgr_loggers w) = 0 # [1]"
    using w by (simp_all add: log_start_def root_ready_def GetInstance_def)
  have "logger_plain w k (LogFormatter default_pattern)" if "k \<in> set (0 # [1])" for k
    using that w default_plain plain_names
    by (auto simp: logger_plain_def log_start_def root_ready_def stdout_ready_def system_bare_def plain_file_def)
  from manager_text [OF laws ls this]
  have "LoggerManager_toYamlString Y w = (Inr (y_emit Y loggers_before), w)"
    using w by (simp add: logger_tree_def appender_yaml_def log_start_def root_ready_def stdout_ready_def system_bare_def
        default_plain loggers_before_def stdout_tree_def)
  with built show ?thesis by (simp add: print_loggers_def comp_simps)
qed

section \<open>The configuration\<close>

lemma system_formatter:
  "LogFormatter ''%d%T%m'' = LogFormatter_object ''%d%T%m'' None
     [DateTimeFormatItem default_date_format, TabFormatItem, MessageFormatItem] False False"
  "\<not> isError (LogFormatter ''%d%T%m'')" "LogFormatter_output ''%d%T%m'' = []"
proof -
  have ok: "tokens_ok [Item ''d'' None, Item ''T'' None, Item ''m'' None]" by (simp_all add: isalpha_def)
  have "render [Item ''d'' None, Item ''T'' None, Item ''m'' None] = ''%d%T%m''" by simp
  with LogFormatter_render [OF ok] init_vec_render [OF ok]
  show "LogFormatter ''%d%T%m'' = LogFormatter_object ''%d%T%m'' None
     [DateTimeFormatItem default_date_format, TabFormatItem, MessageFormatItem] False False"
    and "LogFormatter_output ''%d%T%m'' = []"
    by (simp_all add: token_known_def s_format_items_def new_DateTimeFormatItem_def LogFormatter_output_def)
  then show "\<not> isError (LogFormatter ''%d%T%m'')" by (simp add: isError_def del: isError_LogFormatter)
qed

definition with_level :: "log_formatter \<Rightarrow> appender_class \<Rightarrow> log_appender" where
  "with_level f c = \<lparr>la_level = UNKNOW, la_formatter = Some f, la_hasFormatter = False, la_class = c\<rparr>"

text \<open>The world after the listener: the two loggers with the appenders of the file, which are new.\<close>

definition root_configured :: "world \<Rightarrow> world" where
  "root_configured w = w
     \<lparr>next_appender := 3,
      appenders := (appenders w)(2 := with_level (LogFormatter default_pattern) StdoutLogAppender),
      loggers := (loggers w)(0 := (loggers w 0)\<lparr>lg_level := INFO, lg_appenders := [2]\<rparr>)\<rparr>"

definition system_configured :: "bool \<Rightarrow> world \<Rightarrow> world" where
  "system_configured can w = w
     \<lparr>next_appender := 5,
      appenders := (appenders w)
        (3 := with_level (LogFormatter ''%d%T%m'') (FileLogAppender ''system.txt'' (snd (reopen_stream can new_ofstream))),
         4 := with_level (LogFormatter ''%d%T%m'') StdoutLogAppender),
      loggers := (loggers w)(1 := system_bare\<lparr>lg_level := INFO, lg_appenders := [3, 4],
        lg_formatter := Some (LogFormatter ''%d%T%m'')\<rparr>)\<rparr>"

lemma apply_root:
  assumes w: "log_start tid co cw w"
  shows "apply_define root_define w = (Inr (), root_configured w)"
proof -
  have get: "getLogger ''root'' w = (0, w)" and np: "next_appender w = 2"
    and f: "lg_formatter (loggers w 0) = Some (LogFormatter default_pattern)"
    using w by (simp_all add: log_start_def root_ready_def getLogger_def manager_getLogger_def GetInstance_def)
  show ?thesis
    by (simp add: apply_define_def root_define_def get np f Let_def setLevel_def cleanAppenders_def comp_simps
        attach_appender_def new_defined_appender_def new_StdoutLogAppender_def alloc_appender_def new_appender_def
        la_setLevel_def addAppender_def root_configured_def with_level_def comp_def)
qed

lemma apply_system:
  assumes w: "log_start tid co cw w"
  shows "apply_define (system_define UNKNOW) (root_configured w) = (Inr (), system_configured co (root_configured w))"
proof -
  let ?u = "root_configured w"
  have get: "getLogger ''system'' ?u = (1, ?u)" and np: "next_appender ?u = 3" and bare: "loggers ?u 1 = system_bare"
    and can: "w_can_open ?u = (\<lambda>_. co)"
    using w by (simp_all add: log_start_def root_ready_def getLogger_def manager_getLogger_def GetInstance_def
        root_configured_def)
  show ?thesis
    by (simp add: apply_define_def system_define_def get np bare bare [unfolded One_nat_def] can Let_def setLevel_def cleanAppenders_def comp_simps
        setFormatter_pattern_def setFormatter_def system_formatter(2,3) print_def
        attach_appender_def new_defined_appender_def new_StdoutLogAppender_def new_FileLogAppender_def
        alloc_appender_def new_appender_def la_setLevel_def addAppender_def system_configured_def with_level_def
        system_bare_def comp_def del: isError_LogFormatter)
qed

text \<open>The listener: its log line, and the two definitions, both new.\<close>

definition changed_line :: "int \<Rightarrow> string" where
  "changed_line tid = root_line tid INFO ''sylar/log.cc'' 882 ''on_logger_conf_changed''"

definition configured_world :: "int \<Rightarrow> bool \<Rightarrow> world \<Rightarrow> world" where
  "configured_world tid can w = system_configured can (root_configured
     (printed_by 1 (changed_line tid) (printed_by 0 (changed_line tid) w)))"

lemma listener_runs:
  assumes w: "log_start tid co cw w"
  shows "on_logger_conf_changed [] [root_define, system_define UNKNOW] w = (Inr (), configured_world tid co w)"
proof -
  let ?v = "printed_by 1 (changed_line tid) (printed_by 0 (changed_line tid) w)"
  have v: "log_start tid co cw ?v" using w by simp
  have "log_root INFO ''sylar/log.cc'' 882 ''on_logger_conf_changed'' w = (Inr (), ?v)"
    by (rule start_root_line [OF w]) (simp_all add: changed_line_def)
  with apply_root [OF v] apply_system [OF v] show ?thesis
    by (simp add: on_logger_conf_changed_def comp_simps configure_logger_def find_define_def configured_world_def)
qed

text \<open>The loggers as the file says, and their text.\<close>

definition loggers_after :: yaml where
  "loggers_after = YSeq
     [YMap [field ''name'' ''root'', field ''level'' ''INFO'', field ''formatter'' default_pattern,
        (YScalar ''appenders'', YSeq [stdout_tree UNKNOW])],
      YMap [field ''name'' ''system'', field ''level'' ''INFO'', field ''formatter'' ''%d%T%m'',
        (YScalar ''appenders'', YSeq
          [YMap [field ''type'' ''FileLogAppender'', field ''file'' ''system.txt'', field ''level'' (ToString UNKNOW)],
           stdout_tree UNKNOW])]]"

definition log_configured :: "int \<Rightarrow> bool \<Rightarrow> world \<Rightarrow> bool" where
  "log_configured tid can_write w =
     (mgr_built w \<and> mgr_loggers w = [(''root'', 0), (''system'', 1)] \<and> w_tid w = tid \<and> w_time w = start_env \<and>
      w_now w = 0 \<and> w_can_write w = (\<lambda>_. can_write) \<and>
      lg_name (loggers w 0) = ''root'' \<and> lg_level (loggers w 0) = INFO \<and> lg_appenders (loggers w 0) = [2] \<and>
      lg_formatter (loggers w 0) = Some (LogFormatter default_pattern) \<and>
      lg_name (loggers w 1) = ''system'' \<and> lg_level (loggers w 1) = INFO \<and> lg_appenders (loggers w 1) = [3, 4] \<and>
      lg_formatter (loggers w 1) = Some (LogFormatter ''%d%T%m'') \<and>
      appenders w 2 = with_level (LogFormatter default_pattern) StdoutLogAppender \<and>
      appenders w 4 = with_level (LogFormatter ''%d%T%m'') StdoutLogAppender)"

lemma configured_facts:
  assumes w: "log_start tid co cw w"
  shows "log_configured tid cw (configured_world tid co w)"
    and "appenders (configured_world tid co w) 3 = with_level (LogFormatter ''%d%T%m'')
      (FileLogAppender ''system.txt'' (snd (reopen_stream co new_ofstream)))"
    and "std_out (configured_world tid co w) = std_out w @ twice (changed_line tid)"
proof -
  let ?v = "printed_by 1 (changed_line tid) (printed_by 0 (changed_line tid) w)"
  have v: "log_start tid co cw ?v" using w by simp
  then show "log_configured tid cw (configured_world tid co w)"
    by (simp add: log_configured_def configured_world_def system_configured_def root_configured_def
        log_start_def root_ready_def system_bare_def)
qed (simp_all add: configured_world_def system_configured_def root_configured_def)

lemma log_configured_print [simp]: "log_configured tid cw (print t w) = log_configured tid cw w"
  by (simp add: log_configured_def)

lemma text_after:
  assumes laws: "yaml_laws Y" and w: "log_configured tid cw w"
    and out: "appenders w 3 = with_level (LogFormatter ''%d%T%m'') (FileLogAppender ''system.txt'' st)"
  shows "print_loggers Y w = (Inr (), print (y_emit Y loggers_after @ endl) w)"
proof -
  have built: "GetInstance w = w" and ls: "map snd (mgr_loggers w) = 0 # [1]"
    using w by (simp_all add: log_configured_def GetInstance_def)
  let ?f = "\<lambda>k. if k = 0 then LogFormatter default_pattern else LogFormatter ''%d%T%m''"
  have pattern: "getPattern (LogFormatter ''%d%T%m'') = ''%d%T%m''" by simp
  have "logger_plain w k (?f k)" if "k \<in> set (0 # [1])" for k
    using that w out default_plain plain_names pattern
    by (auto simp: logger_plain_def log_configured_def with_level_def plain_file_def)
  from manager_text [OF laws ls this]
  have "LoggerManager_toYamlString Y w = (Inr (y_emit Y loggers_after), w)"
    using w out by (simp add: logger_tree_def appender_yaml_def log_configured_def with_level_def default_plain
        pattern loggers_after_def stdout_tree_def)
  with built show ?thesis by (simp add: print_loggers_def comp_simps)
qed

text \<open>The configured logger writes to its file and to standard output, each once.\<close>

definition system_line :: string where
  "system_line = ''2021-01-02 03:04:05'' @ [CHR 0x09] @ ''hello system'' @ endl"

lemma system_line_format:
  assumes "m_time ev = 0" "getContent ev = ''hello system'' @ endl"
  shows "lf_format start_env name lv ev (LogFormatter ''%d%T%m'') = Inr system_line"
proof -
  let ?t = "\<lparr>tm_sec = 5, tm_min = 4, tm_hour = 3, tm_mday = 2, tm_mon = 0, tm_year = 121, tm_wday = 6, tm_yday = 1\<rparr>"
  have date: "ymd ?t = ''2021-01-02''" "hms ?t = ''03:04:05''"
    by (simp_all add: ymd_def hms_def num2_def pad_left_def show_int_def show_nat.simps digit_char_def char_eval)
  have local: "env_localtime start_env 0 = Some ?t" "valid_tm ?t" by (simp_all add: start_env_def valid_tm_def)
  have "format_date_time start_env default_date_format (m_time ev) = Inr (ymd ?t @ '' '' @ hms ?t)"
    using local assms(1) by (simp add: format_date_time_def default_date_format_def strftime_default)
  with assms(2) show ?thesis
    unfolding system_formatter(1) date by (simp add: lf_format_def system_line_def)
qed

lemma configured_line:
  assumes w: "log_configured tid cw w"
    and out: "appenders w 3 = with_level (LogFormatter ''%d%T%m'') (FileLogAppender ''system.txt'' st)"
  shows "\<exists>v. SYLAR_LOG_LEVEL 1 INFO test_file line (''hello system'' @ endl) w = (Inr (), v) \<and>
    std_out v = std_out w @ system_line @ [CHR 0x0A] \<and>
    la_class (appenders v 3) = FileLogAppender ''system.txt'' (ofstream_write cw system_line st)"
proof -
  let ?ev = "stream_into (''hello system'' @ endl) (macro_event 1 INFO test_file line w)"
  have ev: "m_time ?ev = 0" "getContent ?ev = ''hello system'' @ endl" "m_logger ?ev = 1" "m_level ?ev = INFO"
    using w by (simp_all add: stream_into_def macro_event_def LogEvent_def getContent_def log_configured_def)
  have low: "UNKNOW \<le> INFO" "INFO \<le> INFO" by (simp_all add: less_eq_level_def)
  note fmt = system_line_format [OF ev(1,2)]
  let ?u = "upd_appender 3 (la_class_update (\<lambda>_. FileLogAppender ''system.txt'' (ofstream_write cw system_line st))) w"
  have "appender_log 3 1 INFO ?ev w = (Inr (), ?u)"
    using w out low fmt by (simp add: appender_log_def file_log_def with_level_def log_configured_def)
  moreover have "appender_log 4 1 INFO ?ev ?u = (Inr (), print (system_line @ [CHR 0x0A]) ?u)"
    using w low fmt by (simp add: appender_log_def stdout_log_def with_level_def log_configured_def Let_def)
  ultimately have "Logger_log 1 INFO ?ev w = (Inr (), print (system_line @ [CHR 0x0A]) ?u)"
    using w low by (simp add: Logger_log_def log_configured_def comp_simps)
  moreover have "getLevel 1 w \<le> INFO" using w low by (simp add: getLevel_def log_configured_def)
  ultimately show ?thesis using ev(3,4)
    by (simp add: SYLAR_LOG_LEVEL_def LogEventWrap_destroy_def)
qed

section \<open>The whole program\<close>

text \<open>The memory before the static initialisers of the configuration run.\<close>

definition test_start :: "yaml_lib \<Rightarrow> world \<Rightarrow> (log_define list + 'f test_value) system" where
  "test_start Y w = \<lparr>sys_world = w, vars = (\<lambda>_. ConfigVar (logs_type Y) [] (Inl []) []), next_var = 0, datas = []\<rparr>"

lemma before_main_reachable: "log_reachable (before_main tid can_open can_write)"
proof -
  have "log_reachable (ts_world no_threads)"
    using thread_reachable_ok [OF no_threads_reachable] by (simp add: threads_ok_def)
  from log_reachable.step [OF this log_step.env [where t = "w_time (ts_world no_threads)"
      and co = "\<lambda>_. can_open" and cw = "\<lambda>_. can_write" and tid = tid and now = "w_now (ts_world no_threads)"]]
  show ?thesis by (simp add: before_main_def)
qed

text \<open>
  The static initialisers of \<open>tests/test_config.cc\<close>: every global pointer points to its own
  variable, which is registered under its name with its default value and no listener, beside the
  variable \<open>logs\<close> of the library with its listener; nothing is logged.
\<close>

lemma statics_spec:
  fixes L :: "'f cast_lib"
  assumes "log_reachable w"
    and "test_statics Y L place place' feq f (test_start Y w) = (r, t)"
  shows "r = Inr (map Some [1..<11]) \<and> cfg_reachable t \<and> sys_world t = w \<and>
    map_of (datas t) ''logs'' = Some 0 \<and> cv_type (vars t 0) = logs_type Y \<and> cv_val (vars t 0) = Inl [] \<and>
    cv_cbs (vars t 0) = [(0xF1E231, Some logs_cb)] \<and>
    (\<forall>i<10. case test_variables Y L place place' feq f ! i of (T, name, v, d) \<Rightarrow>
       map_of (datas t) name = Some (Suc i) \<and> vars t (Suc i) = ConfigVar T name (Inr v) d)"
proof -
  let ?s = "test_start Y w :: (log_define list + 'f test_value) system" and ?xs = "test_variables Y L place place' feq f"
  have reach: "cfg_reachable ?s" by (rule cfg_reachable.start) (simp_all add: test_start_def assms(1))
  have start: "next_var ?s = 0" "datas ?s = []" "sys_world ?s = w" by (simp_all add: test_start_def)
  have "map_of (datas ?s) ''logs'' = None" by (simp add: start)
  from init_log_config_spec [OF reach this, of Y] obtain u where
    u: "init_log_config Y ?s = (Inr (), u)" "cfg_reachable u" "map_of (datas u) ''logs'' = Some 0"
      "cv_type (vars u 0) = logs_type Y" "cv_val (vars u 0) = Inl []" "cv_cbs (vars u 0) = [(0xF1E231, Some logs_cb)]"
      "sys_world u = w" "next_var u = 1" "datas u = [(''logs'', 0)]"
    by (auto simp: start)
  have len: "length ?xs = 10" by (simp add: test_variables_def)
  have "\<exists>t. looked_up u ?xs t"
  proof (rule lookup_all_spec [OF u(2)])
    show "default_ok T (Inr v) \<and> valid_name name" if "(T, name, v, d) \<in> set ?xs" for T name v d
      using test_variables_ok [OF that] by (auto simp: default_ok_def)
  qed (auto simp: test_variables_def u(9))
  then obtain t' where t': "looked_up u ?xs t'" by blast
  then have "lookup_all ?xs u = (Inr (map Some [1..<11]), t')" by (simp add: looked_up_def u(8) len)
  with u(1) assms(2) have r: "r = Inr (map Some [1..<11])" "t = t'"
    by (simp_all add: test_statics_def comp_simps)
  have "''logs'' \<notin> fst ` snd ` set ?xs" by (simp add: test_variables_def)
  then have "map_of (datas t) ''logs'' = Some 0" "vars t 0 = vars u 0" "cfg_reachable t" "sys_world t = w"
    using t' u r(2) by (simp_all add: looked_up_def)
  moreover have "\<forall>i<10. case ?xs ! i of (T, name, v, d) \<Rightarrow>
      map_of (datas t) name = Some (Suc i) \<and> vars t (Suc i) = ConfigVar T name (Inr v) d"
    using t' r(2) by (simp add: looked_up_def u(8) len)
  ultimately show ?thesis using r(1) u by simp
qed

lemma new_file_good: "os_open (snd (reopen_stream can new_ofstream)) = can"
  "os_good (snd (reopen_stream can new_ofstream)) = can" "os_text (snd (reopen_stream can new_ofstream)) = []"
  by (simp_all add: reopen_stream_def new_ofstream_def ofstream_close_def ofstream_open_def)

text \<open>\<open>test_log\<close> in any state whose world is that of the start and whose \<open>logs\<close> is fresh.\<close>

lemma test_log_runs:
  assumes laws: "yaml_laws Y" and w: "log_start tid co cw (sys_world t)"
    and var: "map_of (datas t) ''logs'' = Some p" "cv_type (vars t p) = logs_type Y" "cv_val (vars t p) = Inl []"
      "cv_cbs (vars t p) = [(0xF1E231, Some logs_cb)]"
  shows "\<exists>u st. test_log Y (Inr log_yml) t = (Inr (), u) \<and>
    std_out (sys_world u) = std_out (sys_world t) @ twice (root_line tid INFO test_file 220 (''hello system'' @ endl)) @
      y_emit Y loggers_before @ endl @ misspelt_report Y @ twice (changed_line tid) @ rule_text @ endl @
      y_emit Y loggers_after @ endl @ system_line @ [CHR 0x0A] \<and>
    la_class (appenders (sys_world u) 3) = FileLogAppender ''system.txt'' st \<and>
    os_text st = (if co \<and> cw then system_line else [])"
proof -
  define l1 where "l1 = root_line tid INFO test_file 220 (''hello system'' @ endl)"
  let ?w1 = "printed_by 1 l1 (printed_by 0 l1 (sys_world t))"
  let ?w2 = "print (y_emit Y loggers_before @ endl) ?w1"
  let ?t2 = "t\<lparr>sys_world := ?w2\<rparr>"
  have w1: "log_start tid co cw ?w1" using w by simp
  have w2: "log_start tid co cw (print (misspelt_report Y) ?w2)" using w1 by simp
  have first: "SYLAR_LOG_LEVEL 1 INFO test_file 220 (''hello system'' @ endl) (sys_world t) = (Inr (), ?w1)"
    by (rule start_system_line [OF w]) (simp_all add: l1_def)
  let ?w3 = "configured_world tid co (print (misspelt_report Y) ?w2)"
  obtain r t3 where load: "LoadFromYaml Y log_yml ?t2 = (r, t3)" by fastforce
  have "on_logger_conf_changed [] [root_define, system_define UNKNOW] (print (misspelt_report Y) (sys_world ?t2)) =
      (Inr (), ?w3)" using listener_runs [OF w2] by simp
  from load_log_yml(1,2) [OF laws _ _ _ _ this _ load] var
  have loaded: "r = Inr ()" "sys_world t3 = ?w3" by simp_all
  note conf = configured_facts [OF w2]
  let ?w4 = "print (rule_text @ endl) ?w3"
  let ?w5 = "print (y_emit Y loggers_after @ endl) ?w4"
  have after: "print_loggers Y ?w4 = (Inr (), ?w5)"
    by (rule text_after [OF laws]) (use conf(1,2) in simp_all)
  obtain v where last: "SYLAR_LOG_LEVEL 1 INFO test_file 228 (''hello system'' @ endl) ?w5 = (Inr (), v)"
    "std_out v = std_out ?w5 @ system_line @ [CHR 0x0A]"
    "la_class (appenders v 3) = FileLogAppender ''system.txt''
       (ofstream_write cw system_line (snd (reopen_stream co new_ofstream)))"
    using configured_line [of tid cw ?w5] conf(1,2) by auto
  have "test_log Y (Inr log_yml) t = (Inr (), t3\<lparr>sys_world := v\<rparr>)"
    using first text_before [OF laws w1] load loaded after last(1)
    by (simp add: test_log_def in_world_eq comp_simps start_system_logger [OF w] del: append.simps)
  moreover have "os_text (ofstream_write cw system_line (snd (reopen_stream co new_ofstream))) =
      (if co \<and> cw then system_line else [])"
    by (simp add: ofstream_write_def new_file_good system_line_def)
  ultimately show ?thesis
    using last(2,3) conf(3)
    by (intro exI [of _ "t3\<lparr>sys_world := v\<rparr>"]
        exI [of _ "ofstream_write cw system_line (snd (reopen_stream co new_ofstream))"])
      (simp add: l1_def del: append.simps)
qed

text \<open>
  C20. The program of \<open>tests/test_config.cc\<close>, from its static initialisers on, with the file
  \<open>bin/conf/log.yml\<close>: the logger \<open>system\<close>, taken before the configuration, first logs through the root
  logger, on two appenders; the text of the loggers is printed; loading reports the misspelt
  appender and the listener logs, twice still; the second text has the appenders of the file; and
  the same logger then prints its line once and writes it to \<open>system.txt\<close>, when that can be opened
  and written.
\<close>

theorem test_config_output:
  fixes L :: "'f cast_lib"
  assumes "yaml_laws Y"
    and "test_statics Y L place place' feq f (test_start Y (before_main tid can_open can_write)) = (r, t)"
  shows "\<exists>u st. test_log Y (Inr log_yml) t = (Inr (), u) \<and>
    std_out (sys_world u) = twice (root_line tid INFO test_file 220 (''hello system'' @ endl)) @
      y_emit Y loggers_before @ endl @ misspelt_report Y @ twice (changed_line tid) @ rule_text @ endl @
      y_emit Y loggers_after @ endl @ system_line @ [CHR 0x0A] \<and>
    la_class (appenders (sys_world u) 3) = FileLogAppender ''system.txt'' st \<and>
    os_text st = (if can_open \<and> can_write then system_line else [])"
proof -
  note st = statics_spec [OF before_main_reachable assms(2)]
  have "std_out (before_main tid can_open can_write) = []"
    by (simp add: before_main_def no_threads_def start_world_def getLogger_def manager_getLogger_def manager_construction)
  with test_log_runs [OF assms(1), of tid can_open can_write t 0] st before_main_start show ?thesis by simp
qed

theorem test_config_output_witness:
  "\<exists>u st. test_log codec_yaml (Inr log_yml) (snd (test_statics codec_yaml unary_casts (\<lambda>a xs. a # xs) (\<lambda>a xs. a # xs)
       (=) [] (test_start codec_yaml (before_main 43 True True)))) = (Inr (), u) \<and>
     la_class (appenders (sys_world u) 3) = FileLogAppender ''system.txt'' st \<and> os_text st = system_line"
proof -
  obtain r t where run: "test_statics codec_yaml unary_casts (\<lambda>a xs. a # xs) (\<lambda>a xs. a # xs) (=) []
      (test_start codec_yaml (before_main 43 True True)) = (r, t)" by fastforce
  from test_config_output [OF codec_yaml_laws this]
  obtain u st where "test_log codec_yaml (Inr log_yml) t = (Inr (), u)"
    "la_class (appenders (sys_world u) 3) = FileLogAppender ''system.txt'' st" "os_text st = system_line"
    by (auto simp del: append.simps)
  with run show ?thesis by auto
qed

section \<open>\<open>print_yaml\<close>\<close>

text \<open>The lines of a document, each with the number of its statement.\<close>

fun yaml_lines :: "(yaml \<Rightarrow> nat) \<Rightarrow> yaml_lib \<Rightarrow> yaml \<Rightarrow> nat \<Rightarrow> (i32 \<times> string) list" where
  "yaml_lines kind Y (YScalar s) level =
     [(28, indent level @ s @ '' - '' @ show_nat (kind (YScalar s)) @ '' - '' @ show_nat level)]"
| "yaml_lines kind Y YNull level = [(33, indent level @ ''NULL - '' @ show_nat (kind YNull) @ '' - '' @ show_nat level)]"
| "yaml_lines kind Y (YMap ps) level =
     concat (map (\<lambda>(k, v).
       (41, indent level @ y_emit Y k @ '' - '' @ show_nat (kind v) @ '' - '' @ show_nat level) #
       yaml_lines kind Y v (level + 1)) ps)"
| "yaml_lines kind Y (YSeq xs) level =
     concat (map (\<lambda>(i, ty, ls). (50, indent level @ show_nat i @ '' - '' @ show_nat ty @ '' - '' @ show_nat level) # ls)
       (enumerate 0 (map (\<lambda>x. (kind x, yaml_lines kind Y x (level + 1))) xs)))"
| "yaml_lines kind Y YUndefined level = []"

text \<open>Logging a list of lines through the root logger.\<close>

abbreviation log_lines :: "(i32 \<times> string) list \<Rightarrow> (world, unit) comp" where
  "log_lines ls \<equiv> for_each ls (\<lambda>(n, t). log_root INFO test_file n t)"

lemma print_yaml_lines:
  "print_yaml kind Y n level = log_lines (yaml_lines kind Y n level)"
  "print_map kind Y ps level = log_lines (concat (map (\<lambda>(k, v).
     (41, indent level @ y_emit Y k @ '' - '' @ show_nat (kind v) @ '' - '' @ show_nat level) #
     yaml_lines kind Y v (level + 1)) ps))"
  "print_seq kind Y i xs level = log_lines (concat (map
     (\<lambda>(i, ty, ls). (50, indent level @ show_nat i @ '' - '' @ show_nat ty @ '' - '' @ show_nat level) # ls)
       (enumerate i (map (\<lambda>x. (kind x, yaml_lines kind Y x (level + 1))) xs))))"
  by (induction kind Y n level and kind Y ps level and kind Y i xs level
      rule: print_yaml_print_map_print_seq.induct)
    (simp_all add: for_each_append bind_assoc)

text \<open>
  The output of \<open>test_yaml\<close> in the world of the start: the lines of the document, each twice.
\<close>

lemma log_lines_output:
  "log_start tid co cw w \<Longrightarrow> \<exists>v. log_lines ls w = (Inr (), v) \<and> log_start tid co cw v \<and>
     std_out v = std_out w @ concat (map (\<lambda>(n, t). twice (root_line tid INFO test_file (sint n) t)) ls)"
proof (induction ls arbitrary: w)
  case Nil
  then show ?case by (simp add: return_apply)
next
  case (Cons x ls)
  obtain n t where x: "x = (n, t)" by (cases x)
  let ?l = "root_line tid INFO test_file (sint n) t" let ?v = "printed_by 1 ?l (printed_by 0 ?l w)"
  have "log_root INFO test_file n t w = (Inr (), ?v)" by (rule start_root_line [OF Cons.prems]) simp_all
  moreover have "log_start tid co cw ?v" using Cons.prems by simp
  ultimately show ?case using Cons.IH [of ?v] x by (auto simp: comp_simps)
qed

lemma test_yaml_output:
  assumes "log_start tid co cw w"
  shows "\<exists>v. test_yaml kind Y (Inr root) w = (Inr (), v) \<and>
    std_out v = std_out w @
      concat (map (\<lambda>(n, t). twice (root_line tid INFO test_file (sint n) t)) (yaml_lines kind Y root 0))"
  using log_lines_output [OF assms, of "yaml_lines kind Y root 0"]
  by (auto simp: test_yaml_def print_yaml_lines comp_simps)

section \<open>The functions that \<open>main\<close> does not call\<close>

text \<open>The listener of \<open>test_class\<close> keeps the contract of a listener, so the configuration stays sound.\<close>

interpretation persons: listener_contract "person_type Y L" "\<lambda>_. True" person_cb
  for Y :: yaml_lib and L :: "'f cast_lib"
proof (intro listener_contract.intro listener_contract_axioms.intro allI)
  show "config_type_contract (person_type Y L) (\<lambda>_. True)"
    unfolding person_type_def by (intro boxed_contract allI safe_intros)
  show "keeps (log_grown n) (person_cb a b)" for a b :: "log_define list + 'f test_value" and n
    by (cases "(a, b)" rule: person_cb.cases) (auto intro!: safe_intros)
qed

text \<open>What the macros \<open>XX\<close> and \<open>XX_M\<close> print of a variable whose cast to text only returns.\<close>

lemma XX_output:
  assumes w: "log_start tid co cw (sys_world s)" and shown: "ct_to (cv_type (vars s p)) (getValue p s) = return yt"
  shows "\<exists>v. XX (Some p) label line s = (Inr (), s\<lparr>sys_world := v\<rparr>) \<and> log_start tid co cw v \<and>
    std_out v = std_out (sys_world s) @ concat (map (\<lambda>t. twice (root_line tid INFO test_file (sint line) t))
      (map (\<lambda>i. label @ '': '' @ i) (element_texts (getValue p s)) @ [label @ '' yaml: '' @ yt]))"
proof -
  let ?line = "\<lambda>t. root_line tid INFO test_file (sint line) t"
  have each: "\<exists>v. for_each xs (\<lambda>i. in_world (log_root INFO test_file line (label @ '': '' @ i))) u =
      (Inr (), u\<lparr>sys_world := v\<rparr>) \<and> log_start tid co cw v \<and>
      std_out v = std_out (sys_world u) @ concat (map (\<lambda>i. twice (?line (label @ '': '' @ i))) xs)"
    if "log_start tid co cw (sys_world u)" for u xs
    using that
  proof (induction xs arbitrary: u)
    case Nil
    then show ?case by (intro exI [of _ "sys_world u"]) (simp add: return_apply)
  next
    case (Cons x xs)
    let ?l = "?line (label @ '': '' @ x)" let ?v = "printed_by 1 ?l (printed_by 0 ?l (sys_world u))"
    have "log_root INFO test_file line (label @ '': '' @ x) (sys_world u) = (Inr (), ?v)"
      by (rule start_root_line [OF Cons.prems]) simp_all
    moreover have "log_start tid co cw (sys_world (u\<lparr>sys_world := ?v\<rparr>))" using Cons.prems by simp
    ultimately show ?case using Cons.IH [of "u\<lparr>sys_world := ?v\<rparr>"]
      by (auto simp: comp_simps in_world_eq simp del: append.simps)
  qed
  obtain v where v: "for_each (element_texts (getValue p s))
      (\<lambda>i. in_world (log_root INFO test_file line (label @ '': '' @ i))) s = (Inr (), s\<lparr>sys_world := v\<rparr>)"
    "log_start tid co cw v"
    "std_out v = std_out (sys_world s) @
       concat (map (\<lambda>i. twice (?line (label @ '': '' @ i))) (element_texts (getValue p s)))"
    using each [OF w] by blast
  let ?l = "?line (label @ '' yaml: '' @ yt)" let ?u = "printed_by 1 ?l (printed_by 0 ?l v)"
  have root: "getRoot v = (0, v)" "lg_level (loggers v 0) = DEBUG"
    using v(2) by (simp_all add: log_start_def root_ready_def getRoot_def GetInstance_def)
  have low: "DEBUG \<le> INFO" by (simp add: less_eq_level_def)
  have "log_root INFO test_file line (label @ '' yaml: '' @ yt) v = (Inr (), ?u)"
    by (rule start_root_line [OF v(2)]) simp_all
  then have destroy: "LogEventWrap_destroy (stream_into (label @ '' yaml: '' @ yt) (macro_event 0 INFO test_file line v)) v =
      (Inr (), ?u)"
    by (simp add: log_root_def root SYLAR_LOG_LEVEL_def getLevel_def low)
  have "toString p (s\<lparr>sys_world := v\<rparr>) = (Inr yt, s\<lparr>sys_world := v\<rparr>)"
    using shown by (simp add: toString_def getValue_def Let_def comp_simps in_world_eq)
  then have "log_root_computed INFO test_file line (bind_comp (toString p) (\<lambda>t. return (label @ '' yaml: '' @ t)))
      (s\<lparr>sys_world := v\<rparr>) = (Inr (), s\<lparr>sys_world := ?u\<rparr>)"
    using destroy by (simp add: log_root_computed_def root getLevel_def low comp_simps in_world_eq del: append.simps)
  then have "XX (Some p) label line s = (Inr (), s\<lparr>sys_world := ?u\<rparr>)"
    using v(1) by (simp add: XX_def bind_comp_apply del: append.simps)
  with v(2,3) show ?thesis by (intro exI [of _ ?u]) (simp add: comp_def del: append.simps)
qed

end
