(* ===== verification/Spec2Isabelle.thy ===== *)
theory Spec2Isabelle
  imports Registry_Races Config_Reentrant Test_Config
begin

text \<open>
  A model of the \<open>sylar\<close> server library (\<open>src/sylar\<close>): logging, configuration, and threads.

  \<^bold>\<open>The program.\<close> The logging module (\<open>log.h\<close>, \<open>log.cc\<close>) has loggers with levels, appenders
  that write to standard output or to a file, formatters built from a pattern, and a manager that
  registers loggers by name. The configuration module (\<open>config.h\<close>, \<open>config.cc\<close>) has typed
  variables with change listeners in a registry, casts between values and YAML text, and a loader of
  YAML documents. The second half of \<open>log.cc\<close> joins them: the variable \<open>logs\<close> holds a set of logger
  definitions, and its listener configures the loggers. The thread class (\<open>thread.h\<close>,
  \<open>thread.cc\<close>) wraps a POSIX thread and logs its errors.

  \<^bold>\<open>Values, effects, errors.\<close> A function of the program that can fail or change something is a
  computation \<open>'s \<Rightarrow> (error + 'a) \<times> 's\<close> (theory \<open>Prelude\<close>): \<open>Inl\<close> is a C++ exception with its
  \<open>what()\<close>, or an undefined behaviour by its kind (null dereference, endless recursion, a read of
  an indeterminate value, use of an erased element), which nothing catches. Objects behind a
  \<open>shared_ptr\<close> are in heaps, and a pointer is a number, so that sharing is kept. Fixed-width
  integers are words.

  \<^bold>\<open>Theories and sources.\<close>
  \<^item> \<open>Prelude\<close>, \<open>Ordered_Map\<close> (\<open>std::map\<close>, with the interface \<open>key_store\<close> its clients rely
    on), \<open>C_Time\<close> (\<open>strftime\<close> as the date item calls it).
  \<^item> \<open>Log_Level\<close>: \<open>LogLevel\<close>. \<open>Log_Event\<close>: \<open>LogEvent\<close>, \<open>util.cc\<close>.
  \<^item> \<open>Log_Formatter\<close>: the format items, \<open>LogFormatter::init\<close> as two recursive functions over the
    indices of the source's nested loops, the table of letters, \<open>format\<close>. \<open>Log_Pattern\<close>: an
    abstract syntax of patterns, which the parser reads back, and its behaviour on malformed ones.
  \<^item> \<open>Logger\<close>: appenders, streams, loggers, the manager, \<open>singleton.h\<close>, the macros.
    \<open>Logger_Invariant\<close>: the heap's invariant, the frame of a call to \<open>log\<close>, the interface
    \<open>appender_interface\<close> of the abstract class \<open>LogAppender\<close>. \<open>Logger_Log\<close>: both appender
    classes provide it; \<open>Logger::log\<close>; the public operations, with formatters that are not null, as a
    step relation \<open>log_step\<close>. \<open>Logger_Null\<close>: the same with null formatters. \<open>Logger_Properties\<close>:
    delivery, registry, files, formatters.
  \<^item> \<open>Yaml\<close>: the interface of yaml-cpp. \<open>Lexical_Cast\<close>: the cast templates with the interfaces
    \<open>container\<close> and \<open>keyed_container\<close> and the round trips. \<open>Container_Casts\<close>: what the casts
    return for any text, exactly for every sequence and map document.
  \<^item> \<open>Config\<close>: \<open>ConfigVarBase\<close>, \<open>ConfigVar\<close>, \<open>Config\<close>. \<open>Config_Invariant\<close>: the registry's
    invariant, the contracts of a type (\<open>config_type_contract\<close>) and of a listener
    (\<open>listener_contract\<close>), the step relation \<open>cfg_step\<close>. \<open>Config_Properties\<close>: lookup, change,
    loading, against a pure description \<open>members\<close> of a document's members. \<open>Config_Reentrant\<close>:
    \<open>setValue\<close> once more, for listeners that set variables and add and remove listeners themselves.
  \<^item> \<open>Log_Define\<close>: \<open>LogAppenderDefine\<close>, \<open>LogDefine\<close>, their casts, the \<open>toYamlString\<close> functions.
    \<open>Log_Config\<close>: \<open>g_log_defines\<close>, \<open>LogIniter\<close> and its listener, which keeps
    \<open>listener_contract\<close>. \<open>Log_Config_Properties\<close>, \<open>Log_Load\<close>: their properties; a whole
    document loaded through the configuration module configures the loggers. \<open>Log_Shipped\<close>: the file
    \<open>bin/conf/log.yml\<close>.
  \<^item> \<open>Threads\<close>: \<open>Thread\<close>, with \<open>Thread::run\<close> as one step per statement, log statements of threads,
    and all interleavings of threads, main program and logging module as \<open>thread_step\<close>.
    \<open>Thread_Invariant\<close>: the invariant when objects are joined before they are destroyed.
    \<open>Thread_Properties\<close>: safety, what \<open>join\<close> gives, progress and termination. \<open>Thread_Logging\<close>:
    what threads log, with the callback of \<open>tests/test_thread.cc\<close>. \<open>Thread_Races\<close>: the locations each
    statement reads and writes, the data races that can and cannot happen, and the steps \<open>cpp_step\<close>
    of a program for which a race is the end of every guarantee. \<open>Thread_Program\<close>: the program of
    \<open>tests/test_thread.cc\<close> under every schedule in which its output does not overlap, and what it prints.
  \<^item> \<open>Shared_Lookup\<close>: a registry that several threads ask for an object, as steps of callers, with
    the contract \<open>lookup_registry\<close>. \<open>Registry_Races\<close>: \<open>LoggerManager::getLogger\<close> and
    \<open>Config::Lookup\<close> with a default cut into their steps, both of them such registries.
  \<^item> \<open>Test_Log\<close>: the program of \<open>tests/test.cc\<close>. \<open>Test_Values\<close>, \<open>Test_Config\<close>: that of
    \<open>tests/test_config.cc\<close>, with its class \<open>Person\<close>, its variables, and the functions \<open>main\<close> does not
    call.

  \<^bold>\<open>What is shown.\<close> The operations of the logging module with formatters that are not null never
  reach a null dereference or an endless recursion; with null formatters, exactly the calls that
  deliver to a file appender without a formatter are unsafe. A log call delivers an event to exactly
  the accepting appenders of the logger, or of the root logger. The pattern parser reads back every
  well-formed pattern. The registry of variables is stable, \<open>setValue\<close> calls each listener once, in
  order, before it assigns, a failing listener leaves the old value, casts read what they write and
  do the right thing with every document, loading assigns exactly the members of the document.
  The listener of \<open>logs\<close> establishes what the definitions say and leaves the loggers of unchanged
  definitions alone (\<open>affected_names\<close>), also when it runs inside \<open>LoadFromYaml\<close>. Listeners that call
  back return when they set variables of lower rank only. A program that joins its threads before
  it destroys them never uses freed memory, each of its threads finishes, and no call on an object
  that was joined races with a thread; the races that are left are those of the getters before
  \<open>join\<close> and of the logging module with itself. Log lines of threads carry their own id. Two threads
  that ask for one new logger or variable share it only when their calls do not overlap; about other
  concurrent uses of the registries, which have no lock, nothing is claimed. What the three programs
  under \<open>tests\<close> print is known to the last character, for \<open>test_thread.cc\<close> in the schedules in which
  no two of \<open>main\<close> and its threads write at once. Where the code does not do what it means to do the
  theorem states what happens: \<open>%%\<close>, unclosed braces, the flag \<open>m_hasFormatter\<close>, the doubled
  appender of the root logger, dates of 64 bytes and more, a stream after an error, \<open>operator==\<close>
  of \<open>LogDefine\<close>, the levels of appenders, threads destroyed without \<open>join\<close>, the early \<open>getId\<close>,
  the races of the getters, of the unlocked logging module and of the two registries, listeners that
  set their own variable or remove themselves.

  \<^bold>\<open>Bounds.\<close> \<open>Logger_log\<close> has fuel for one call per logger of the heap and one more; the
  invariant says that a logger's root has no root of its own, so two suffice and running out, which
  would be \<open>Undefined Stack_Overflow\<close>, is excluded by the safety property. \<open>setValue_fuel\<close> has
  fuel for the nested calls of \<open>setValue\<close>; the rank of a variable plus one is enough where the
  listeners have ranks, and no amount is enough for listeners that forward a value in a cycle. All
  other loops are structural or have a termination proof.

  \<^bold>\<open>Parameters.\<close> yaml-cpp is a record of functions with the laws \<open>yaml_laws\<close>; a codec with
  these laws shows that they can hold. \<open>boost::lexical_cast\<close> is the base case of the casts, and
  the numbers in the nodes of \<open>Person\<close> are a record with the laws \<open>cast_laws\<close>. The
  time zone, the conversions of \<open>strftime\<close> outside the C standard's table, whether a file can be
  opened or written, the clock, and the results of \<open>vasprintf\<close>, \<open>pthread_create\<close> and
  \<open>pthread_join\<close> are values of the environment. The order of the unordered containers is an
  arbitrary choice function.

  \<^bold>\<open>Not modelled.\<close> What happens inside a log call, a configuration change or an access to a
  registry's map when another thread runs at the same time: each is one step, as is a statement of
  \<open>Thread::run\<close>. The source has no lock, so where steps overlap that \<open>Thread_Races\<close> shows in conflict the
  behaviour is undefined: \<open>cpp_step\<close> and \<open>test_run\<close> say so, and the other theorems about threads speak
  of the executions without such an overlap. The callback of a thread uses its own object only, and
  \<open>tests/test_thread.cc\<close> is followed when \<open>pthread_create\<close> succeeds. Pointers to loggers and appenders are
  not null; a closure that a listener replaces while it runs does not read its captured values
  afterwards. Two \<open>FileLogAppender\<close>s on one file have separate texts here. YAML documents are trees
  (no aliases). Listeners that look up or load variables. \<open>SingletonPtr\<close>, which nothing uses. The files
  the build generates under \<open>build\<close>.
\<close>

end
